(* ===== verification/Prelude.thy ===== *)
theory Prelude
  imports Main "HOL-Library.Word"
begin

text \<open>
  What every component shares: Go's error values, the world in which a call runs (clock,
  identifier source, database faults, counters and the store), and the list lemmas about
  tables that the repositories use.

  A call of the program is a function from a world to a result and a world.  The parts of
  the world that the program does not control are scripts, so that a theorem which
  quantifies over worlds quantifies over what the environment may do:
  \<^item> \<open>ticks\<close> says how far the clock moves before each reading (an empty script
    is a clock that stands still),
  \<^item> \<open>faults\<close> says for each statement sent to the database whether the connection fails
    (an empty script is a database that answers everything).
\<close>

section \<open>Rule collections\<close>

named_theorems table_simps \<open>equations about tables (lists of rows)\<close>
named_theorems world_simps \<open>which parts of the world an operation touches\<close>
named_theorems db_defs \<open>definitions of the database statements\<close>

section \<open>Basic types\<close>

text \<open>A UUID is sixteen bytes (\<open>uuid.UUID\<close> is an array of them).\<close>

type_synonym uuid = "128 word"

text \<open>
  An instant (\<open>time.Time\<close> in UTC) and a span (\<open>time.Duration\<close>) are counts of
  nanoseconds; instants count from 1970-01-01T00:00:00Z.
\<close>

type_synonym time = int
type_synonym duration = int

abbreviation Millisecond :: duration where "Millisecond \<equiv> 1000000"
abbreviation Second :: duration where "Second \<equiv> 1000000000"
abbreviation Minute :: duration where "Minute \<equiv> 60000000000"
abbreviation Hour :: duration where "Hour \<equiv> 3600000000000"
abbreviation DayLength :: duration where "DayLength \<equiv> 86400000000000"

section \<open>Go errors\<close>

text \<open>
  What the driver reports: no row for a single-row query, an error of the server with its
  SQLSTATE class and the violated constraint, or any other failure (connection, timeout).
\<close>

datatype pgcode = UniqueViolation | ForeignKeyViolation | CheckViolation | OtherCode string

datatype db_error = ErrNoRows | PgError pgcode string | ConnError string

text \<open>
  An error value is a sentinel (\<open>errors.New\<close> at package level), a driver error, any
  other error, or an error wrapped by \<open>fmt.Errorf\<close> with the verb \<open>%w\<close>.
\<close>

datatype 's go_error =
    Sentinel 's
  | DbError db_error
  | Opaque string
  | Wrap string "'s go_error"

text \<open>\<open>errors.Is\<close> and \<open>errors.As\<close> walk the chain of wrapped errors.\<close>

fun errors_Is :: "'s go_error \<Rightarrow> 's \<Rightarrow> bool" where
  "errors_Is (Sentinel s) t = (s = t)"
| "errors_Is (DbError d) t = False"
| "errors_Is (Opaque m) t = False"
| "errors_Is (Wrap m e) t = errors_Is e t"

fun is_ErrNoRows :: "'s go_error \<Rightarrow> bool" where
  "is_ErrNoRows (DbError d) = (d = ErrNoRows)"
| "is_ErrNoRows (Wrap m e) = is_ErrNoRows e"
| "is_ErrNoRows _ = False"

fun as_PgError :: "'s go_error \<Rightarrow> (pgcode \<times> string) option" where
  "as_PgError (DbError (PgError c n)) = Some (c, n)"
| "as_PgError (Wrap m e) = as_PgError e"
| "as_PgError _ = None"

text \<open>The sentinel at the bottom of a chain, if there is one.\<close>

fun root_sentinel :: "'s go_error \<Rightarrow> 's option" where
  "root_sentinel (Sentinel s) = Some s"
| "root_sentinel (Wrap m e) = root_sentinel e"
| "root_sentinel _ = None"

lemma errors_Is_root: "errors_Is e t \<longleftrightarrow> root_sentinel e = Some t"
  by (induction e) auto

type_synonym ('s, 'a) result = "'s go_error + 'a"

text \<open>A result up to the texts that wrap its error.\<close>

definition outcome :: "('s, 'a) result \<Rightarrow> 's option + 'a" where
  "outcome r = map_sum root_sentinel (\<lambda>x. x) r"

lemma outcome_simps [simp]:
  "outcome (Inl e) = Inl (root_sentinel e)" "outcome (Inr a) = Inr a"
  by (simp_all add: outcome_def)

section \<open>Libraries outside the repository\<close>

text \<open>
  The claims of a token, as both services declare them (the registered claims that are used,
  the user and the role).
\<close>

record claims =
  ExpiresAt :: time
  IssuedAt :: time
  cl_UserID :: uuid
  cl_Role :: string

datatype bcrypt_result = BcryptMatch | BcryptMismatch | BcryptError string

text \<open>
  The functions of third-party packages that the code calls, and nothing more about them:
  \<open>github.com/google/uuid\<close>, \<open>golang.org/x/crypto/bcrypt\<close> and
  \<open>github.com/golang-jwt/jwt/v5\<close>; and whether the standard library's \<open>net/mail\<close> accepts
  an address, whose grammar (RFC 5322) is not modelled.  Hashing is salted, so it takes the
  salt as an argument.  Signing takes the name of the algorithm, the claims and the key; parsing
  takes the token, the key function (which sees the algorithm that the token names) and the
  time at which expiry is checked.  What a theorem relies on is a hypothesis of that theorem.
\<close>

record externals =
  uuid_String :: "uuid \<Rightarrow> string"
  uuid_Parse :: "string \<Rightarrow> uuid option"
  mail_ParseAddress :: "string \<Rightarrow> bool"
  bcrypt_GenerateFromPassword :: "uuid \<Rightarrow> string \<Rightarrow> string option"
  bcrypt_CompareHashAndPassword :: "string \<Rightarrow> string \<Rightarrow> bcrypt_result"
  jwt_NewNumericDate :: "time \<Rightarrow> time"
  jwt_SignedString :: "string \<Rightarrow> claims \<Rightarrow> string \<Rightarrow> string option"
  jwt_ParseWithClaims :: "string \<Rightarrow> (string \<Rightarrow> string option) \<Rightarrow> time \<Rightarrow> claims option"

text \<open>The canonical text form of a UUID is read back as that UUID (RFC 9562).\<close>

definition uuid_text_ok :: "externals \<Rightarrow> bool" where
  "uuid_text_ok L \<longleftrightarrow> (\<forall>u. uuid_Parse L (uuid_String L u) = Some u)"

lemma uuid_String_inject: "uuid_text_ok L \<Longrightarrow> uuid_String L u = uuid_String L v \<longleftrightarrow> u = v"
  unfolding uuid_text_ok_def by (metis option.inject)

section \<open>The world of a call\<close>

text \<open>
  How a statement sent to the database can fail without the database rejecting it: it never
  took effect, or it did and only the reply was lost.
\<close>

datatype fault = Refused string | ReplyLost string

record 'd world =
  clock :: time
  ticks :: "nat list"
  gen :: "nat \<Rightarrow> uuid"
  gen_pos :: nat
  faults :: "fault option list"
  counters :: "string \<Rightarrow> nat"
  store :: 'd

text \<open>A reading of the clock (\<open>time.Now()\<close>, or \<open>NOW()\<close> in a statement).\<close>

definition time_Now :: "'d world \<Rightarrow> time \<times> 'd world" where
  "time_Now w = (case ticks w of
      [] \<Rightarrow> (clock w, w)
    | d # ds \<Rightarrow> (clock w + int d, w\<lparr>clock := clock w + int d, ticks := ds\<rparr>))"

text \<open>A fresh identifier (\<open>uuid.New()\<close>, or \<open>gen_random_uuid()\<close> as a column default).\<close>

definition uuid_New :: "'d world \<Rightarrow> uuid \<times> 'd world" where
  "uuid_New w = (gen w (gen_pos w), w\<lparr>gen_pos := Suc (gen_pos w)\<rparr>)"

text \<open>What happens to the next statement.\<close>

definition next_fault :: "'d world \<Rightarrow> fault option \<times> 'd world" where
  "next_fault w = (case faults w of
      [] \<Rightarrow> (None, w)
    | f # fs \<Rightarrow> (f, w\<lparr>faults := fs\<rparr>))"

text \<open>A Prometheus counter goes up by \<open>n\<close>.\<close>

definition counter_Add :: "string \<Rightarrow> nat \<Rightarrow> 'd world \<Rightarrow> 'd world" where
  "counter_Add name n w = w\<lparr>counters := (counters w)(name := counters w name + n)\<rparr>"

lemma time_Now_store [world_simps]: "store (snd (time_Now w)) = store w"
  by (simp add: time_Now_def split: list.split)

lemma time_Now_script [simp]:
  "gen (snd (time_Now w)) = gen w" "gen_pos (snd (time_Now w)) = gen_pos w"
  by (simp_all add: time_Now_def split: list.split)

lemma time_Now_monotone: "clock w \<le> fst (time_Now w)"
  by (simp add: time_Now_def split: list.split)

lemma time_Now_clock [world_simps]: "clock (snd (time_Now w)) = fst (time_Now w)"
  by (simp add: time_Now_def split: list.split)

lemma uuid_New_store [world_simps]: "store (snd (uuid_New w)) = store w"
  by (simp add: uuid_New_def)

lemma next_fault_store [world_simps]: "store (snd (next_fault w)) = store w"
  by (simp add: next_fault_def split: list.split)

lemma counter_Add_store [world_simps]: "store (counter_Add n k w) = store w"
  by (simp add: counter_Add_def)

text \<open>
  A world in which nothing goes wrong: no scripted faults.  The operations below keep it so.
\<close>

definition calm :: "'d world \<Rightarrow> bool" where
  "calm w \<longleftrightarrow> faults w = []"

lemma calm_simps [simp]:
  "calm (snd (time_Now w)) = calm w"
  "calm (snd (uuid_New w)) = calm w"
  "calm (counter_Add n k w) = calm w"
  "calm (w\<lparr>store := d\<rparr>) = calm w"
  "calm (w\<lparr>gen_pos := p\<rparr>) = calm w"
  by (simp_all add: calm_def time_Now_def uuid_New_def counter_Add_def split: list.splits)

section \<open>Statements and transactions\<close>

text \<open>
  A statement is a function on the store that may be rejected by the database.
  \<open>exec_stmt\<close> sends it: it may also fail on the way there or on the way back.
\<close>

definition exec_stmt ::
    "('d \<Rightarrow> db_error + ('a \<times> 'd)) \<Rightarrow> 'd world \<Rightarrow> (db_error + 'a) \<times> 'd world" where
  "exec_stmt f w = (case next_fault w of
      (None, w') \<Rightarrow>
        (case f (store w') of
           Inl e \<Rightarrow> (Inl e, w')
         | Inr (a, d) \<Rightarrow> (Inr a, w'\<lparr>store := d\<rparr>))
    | (Some (Refused m), w') \<Rightarrow> (Inl (ConnError m), w')
    | (Some (ReplyLost m), w') \<Rightarrow>
        (case f (store w') of
           Inl e \<Rightarrow> (Inl (ConnError m), w')
         | Inr (a, d) \<Rightarrow> (Inl (ConnError m), w'\<lparr>store := d\<rparr>)))"

text \<open>A query reads the store and leaves it alone.\<close>

definition query :: "('d \<Rightarrow> db_error + 'a) \<Rightarrow> 'd \<Rightarrow> db_error + ('a \<times> 'd)" where
  "query f d = (case f d of Inl e \<Rightarrow> Inl e | Inr a \<Rightarrow> Inr (a, d))"

text \<open>
  \<open>pool.Begin\<close> fixes the value of \<open>NOW()\<close> for the transaction; \<open>tx.Rollback\<close> restores the
  store the transaction started from; a failed \<open>tx.Commit\<close> rolled back, unless only its
  reply was lost.
\<close>

definition begin_tx :: "'d world \<Rightarrow> (db_error + time) \<times> 'd world" where
  "begin_tx w = (case next_fault w of
      (None, w') \<Rightarrow> (let (now, w'') = time_Now w' in (Inr now, w''))
    | (Some (Refused m), w') \<Rightarrow> (Inl (ConnError m), w')
    | (Some (ReplyLost m), w') \<Rightarrow> (Inl (ConnError m), w'))"

definition rollback :: "'d world \<Rightarrow> 'd world \<Rightarrow> 'd world" where
  "rollback w0 w = w\<lparr>store := store w0\<rparr>"

definition commit_tx :: "'d world \<Rightarrow> 'd world \<Rightarrow> (db_error + unit) \<times> 'd world" where
  "commit_tx w0 w = (case next_fault w of
      (None, w') \<Rightarrow> (Inr (), w')
    | (Some (Refused m), w') \<Rightarrow> (Inl (ConnError m), rollback w0 w')
    | (Some (ReplyLost m), w') \<Rightarrow> (Inl (ConnError m), w'))"

lemma calm_next_fault: "calm w \<Longrightarrow> next_fault w = (None, w)"
  by (simp add: calm_def next_fault_def)

lemma calm_exec_stmt:
  "calm w \<Longrightarrow> exec_stmt f w = (case f (store w) of
      Inl e \<Rightarrow> (Inl e, w) | Inr (a, d) \<Rightarrow> (Inr a, w\<lparr>store := d\<rparr>))"
  by (simp add: exec_stmt_def calm_next_fault)

lemma calm_begin_tx: "calm w \<Longrightarrow> begin_tx w = (Inr (fst (time_Now w)), snd (time_Now w))"
  by (simp add: begin_tx_def calm_next_fault split: prod.split)

lemma calm_commit_tx: "calm w \<Longrightarrow> commit_tx w0 w = (Inr (), w)"
  by (simp add: commit_tx_def calm_next_fault)

lemmas calm_db = calm_exec_stmt calm_begin_tx calm_commit_tx

text \<open>
  What a statement can do to the store: nothing, or what the database did with it; if it is
  answered, then with the database's answer.
\<close>

lemma exec_stmt_InrE:
  assumes "exec_stmt f w = (Inr a, w')"
  obtains d where "f (store w) = Inr (a, d)" "store w' = d"
  using assms
  by (auto simp: exec_stmt_def next_fault_def split: list.splits option.splits fault.splits sum.splits prod.splits)

lemma exec_stmt_InlE:
  assumes "exec_stmt f w = (Inl e, w')"
  obtains "f (store w) = Inl e" "store w' = store w"
  | m where "e = ConnError m" "store w' = store w"
  | m a d where "e = ConnError m" "f (store w) = Inr (a, d)" "store w' = d"
  using assms
  by (auto simp: exec_stmt_def next_fault_def split: list.splits option.splits fault.splits sum.splits prod.splits)

lemma exec_stmt_clock: "exec_stmt f w = (r, w') \<Longrightarrow> clock w' = clock w \<and> ticks w' = ticks w"
  by (auto simp: exec_stmt_def next_fault_def
      split: list.splits option.splits fault.splits sum.splits prod.splits)

lemma time_Now_storeD: "time_Now w = (t, w') \<Longrightarrow> store w' = store w"
  using time_Now_store [of w] by simp

lemma exec_stmt_effect:
  "exec_stmt f w = (r, w') \<Longrightarrow> store w' = store w \<or> (\<exists>a. f (store w) = Inr (a, store w'))"
  by (cases r) (auto elim!: exec_stmt_InrE exec_stmt_InlE)

lemma begin_tx_store: "begin_tx w = (r, w') \<Longrightarrow> store w' = store w"
  by (auto simp: begin_tx_def next_fault_def time_Now_def
      split: list.splits option.splits fault.splits prod.splits)

lemma begin_tx_Inl: "begin_tx w = (Inl e, w') \<Longrightarrow> \<exists>m. e = ConnError m"
  by (auto simp: begin_tx_def next_fault_def time_Now_def
      split: list.splits option.splits fault.splits prod.splits)

lemma commit_tx_store: "commit_tx w0 w = (r, w') \<Longrightarrow> store w' = store w \<or> (\<exists>e. r = Inl e) \<and> store w' = store w0"
  by (auto simp: commit_tx_def rollback_def next_fault_def
      split: list.splits option.splits fault.splits prod.splits)

lemma commit_tx_Inr: "commit_tx w0 w = (Inr u, w') \<Longrightarrow> store w' = store w"
  by (auto simp: commit_tx_def next_fault_def split: list.splits option.splits fault.splits prod.splits)

lemma commit_tx_InlE:
  assumes "commit_tx w0 w = (Inl e, w')"
  obtains m where "e = ConnError m" "store w' = store w0"
  | m where "e = ConnError m" "store w' = store w"
  using assms
  by (auto simp: commit_tx_def rollback_def next_fault_def
      split: list.splits option.splits fault.splits prod.splits)

lemma rollback_store [world_simps, simp]: "store (rollback w0 w) = store w0"
  by (simp add: rollback_def)

lemma calm_rollback [simp]: "calm (rollback w0 w) = calm w"
  by (simp add: rollback_def calm_def)

lemma uuid_New_storeD: "uuid_New w = (u, w') \<Longrightarrow> store w' = store w \<and> u = gen w (gen_pos w)"
  by (auto simp: uuid_New_def)

lemma query_Inr [simp]: "query f d = Inr (a, d') \<longleftrightarrow> f d = Inr a \<and> d' = d"
  by (auto simp: query_def split: sum.splits)

lemma query_Inl [simp]: "query f d = Inl e \<longleftrightarrow> f d = Inl e"
  by (auto simp: query_def split: sum.splits)

lemma exec_query_store: "exec_stmt (query f) w = (r, w') \<Longrightarrow> store w' = store w"
  by (cases r) (auto elim!: exec_stmt_InrE exec_stmt_InlE)

text \<open>
  \<open>pool.Query\<close> with a loop over \<open>rows.Next()\<close>: the statement may fail, and so may reading
  its rows, which \<open>rows.Err()\<close> reports after the loop.
\<close>

definition query_rows ::
    "string \<Rightarrow> string \<Rightarrow> ('d \<Rightarrow> db_error + 'a) \<Rightarrow> 'd world \<Rightarrow> ('s, 'a) result \<times> 'd world" where
  "query_rows m_query m_rows f w =
    (case exec_stmt (query f) w of
       (Inl e, w1) \<Rightarrow> (Inl (Wrap m_query (DbError e)), w1)
     | (Inr rows, w1) \<Rightarrow>
         (case exec_stmt (query (\<lambda>_. Inr ())) w1 of
            (Inl e, w2) \<Rightarrow> (Inl (Wrap m_rows (DbError e)), w2)
          | (Inr _, w2) \<Rightarrow> (Inr rows, w2)))"

lemma query_rows_store: "query_rows m1 m2 f w = (r, w') \<Longrightarrow> store w' = store w"
  by (auto simp: query_rows_def split: prod.splits sum.splits dest!: exec_query_store)

lemma query_rows_Inr: "query_rows m1 m2 f w = (Inr a, w') \<Longrightarrow> f (store w) = Inr a"
  by (auto simp: query_rows_def split: prod.splits sum.splits elim!: exec_stmt_InrE)

lemma query_rows_InrD: "query_rows m1 m2 f w = (Inr a, w') \<Longrightarrow> f (store w) = Inr a \<and> store w' = store w"
  using query_rows_Inr query_rows_store by metis

lemma calm_query_rows:
  "calm w \<Longrightarrow> query_rows m1 m2 f w =
     (case f (store w) of Inl e \<Rightarrow> (Inl (Wrap m1 (DbError e)), w) | Inr a \<Rightarrow> (Inr a, w))"
  by (simp add: query_rows_def calm_exec_stmt query_def split: sum.split)

section \<open>Tables\<close>

text \<open>
  A table is the list of its rows in the order they were inserted.  \<open>find_by\<close> is a
  lookup by key, \<open>update_where\<close> is \<open>UPDATE ... SET ... WHERE ...\<close>.
\<close>

definition find_by :: "('r \<Rightarrow> 'k) \<Rightarrow> 'k \<Rightarrow> 'r list \<Rightarrow> 'r option" where
  "find_by key k rows = find (\<lambda>r. key r = k) rows"

definition update_where :: "('r \<Rightarrow> bool) \<Rightarrow> ('r \<Rightarrow> 'r) \<Rightarrow> 'r list \<Rightarrow> 'r list" where
  "update_where P f rows = map (\<lambda>r. if P r then f r else r) rows"

lemma find_by_Nil [table_simps, simp]: "find_by key k [] = None"
  by (simp add: find_by_def)

lemma find_by_Cons [table_simps]:
  "find_by key k (r # rows) = (if key r = k then Some r else find_by key k rows)"
  by (simp add: find_by_def)

lemma find_by_append [table_simps]:
  "find_by key k (xs @ ys) =
     (case find_by key k xs of None \<Rightarrow> find_by key k ys | Some r \<Rightarrow> Some r)"
  by (induction xs) (simp_all add: find_by_Cons)

lemma find_by_Some: "find_by key k rows = Some r \<Longrightarrow> r \<in> set rows \<and> key r = k"
  by (induction rows) (auto simp: find_by_Cons split: if_splits)

lemma find_by_None: "find_by key k rows = None \<longleftrightarrow> k \<notin> key ` set rows"
  by (induction rows) (auto simp: find_by_Cons)

lemma find_by_distinct:
  "distinct (map key rows) \<Longrightarrow> r \<in> set rows \<Longrightarrow> find_by key (key r) rows = Some r"
  by (induction rows) (auto simp: find_by_Cons)

lemma find_by_iff:
  "distinct (map key rows) \<Longrightarrow> find_by key k rows = Some r \<longleftrightarrow> r \<in> set rows \<and> key r = k"
  by (auto dest: find_by_Some simp: find_by_distinct)

lemma update_where_Nil [table_simps, simp]: "update_where P f [] = []"
  by (simp add: update_where_def)

lemma length_update_where [table_simps, simp]: "length (update_where P f rows) = length rows"
  by (simp add: update_where_def)

lemma map_update_where [table_simps]:
  "(\<And>r. P r \<Longrightarrow> g (f r) = g r) \<Longrightarrow> map g (update_where P f rows) = map g rows"
  by (simp add: update_where_def)

lemma set_update_where:
  "set (update_where P f rows) = (\<lambda>r. if P r then f r else r) ` set rows"
  by (simp add: update_where_def)

lemma update_where_none: "(\<And>r. r \<in> set rows \<Longrightarrow> \<not> P r) \<Longrightarrow> update_where P f rows = rows"
  by (simp add: update_where_def map_idI)

lemma find_by_update_where:
  "(\<And>r. P r \<Longrightarrow> key (f r) = key r) \<Longrightarrow>
   find_by key k (update_where P f rows) =
     map_option (\<lambda>r. if P r then f r else r) (find_by key k rows)"
  by (induction rows) (auto simp: update_where_def find_by_Cons)

text \<open>A join on a key has at most one partner for each row.\<close>

lemma concat_map_key:
  "distinct (map key rows) \<Longrightarrow> r \<in> set rows \<Longrightarrow>
   concat (map (\<lambda>x. if key x = key r then f x else []) rows) = f r"
proof (induction rows)
  case Nil
  then show ?case by simp
next
  case (Cons x rows)
  have none: "k \<notin> key ` set rows \<Longrightarrow> concat (map (\<lambda>x. if key x = k then f x else []) rows) = []" for k
    by (induction rows) auto
  from Cons show ?case by (cases "x = r") (auto simp: none)
qed

lemma find_Some_in: "find P xs = Some x \<Longrightarrow> x \<in> set xs \<and> P x"
  by (induction xs) (auto split: if_splits)

lemma find_None_all: "find P xs = None \<longleftrightarrow> (\<forall>x \<in> set xs. \<not> P x)"
  by (induction xs) auto

text \<open>Rows that an update changes to fail a test drop out of the filtered table.\<close>

lemma filter_update_where_out:
  "(\<And>r. P r \<Longrightarrow> \<not> Q (f r)) \<Longrightarrow> filter Q (update_where P f rows) = filter (\<lambda>r. Q r \<and> \<not> P r) rows"
  by (induction rows) (auto simp: update_where_def)

lemma filter_update_where_same:
  "(\<And>r. P r \<Longrightarrow> Q (f r) = Q r) \<Longrightarrow> filter Q (update_where P f rows) = update_where P f (filter Q rows)"
  by (induction rows) (auto simp: update_where_def)

lemma distinct_map_filter_and: "distinct (map f (filter P xs)) \<Longrightarrow> distinct (map f (filter (\<lambda>x. P x \<and> Q x) xs))"
  by (metis distinct_map_filter filter_filter)

lemma sort_key_Nil_iff [simp]: "sort_key f xs = [] \<longleftrightarrow> xs = []"
  by (metis set_empty set_sort)

section \<open>Pages\<close>

text \<open>\<open>LIMIT n OFFSET k\<close> over the ordered rows.\<close>

definition page_of :: "nat \<Rightarrow> nat \<Rightarrow> 'r list \<Rightarrow> 'r list" where
  "page_of limit offset rows = take limit (drop offset rows)"

lemma page_of_beyond [simp]: "length rows \<le> offset \<Longrightarrow> page_of limit offset rows = []"
  by (simp add: page_of_def)

lemma length_page_of: "length (page_of limit offset rows) \<le> limit"
  by (simp add: page_of_def)

lemma set_page_of: "set (page_of limit offset rows) \<subseteq> set rows"
  by (auto simp: page_of_def dest: in_set_takeD in_set_dropD)

lemma concat_pages:
  "concat (map (\<lambda>i. page_of n (i * n) rows) [0..<k]) = take (k * n) rows"
proof (induction k)
  case 0
  then show ?case by simp
next
  case (Suc k)
  have "take (Suc k * n) rows = take (k * n) rows @ take n (drop (k * n) rows)"
    by (metis add.commute mult_Suc take_add)
  with Suc show ?case by (simp add: page_of_def)
qed

end
