(* ===== verification/GoStrings.thy ===== *)
theory GoStrings
  imports Prelude
begin

text \<open>
  The parts of Go's \<open>strings\<close> and \<open>strconv\<close> packages that the services call, on byte
  strings: prefixes, ASCII case, splitting and trimming, \<open>strconv.Atoi\<close> and the decimal
  forms of \<open>strconv.Itoa\<close> and of \<open>time.Format\<close> (zero padded).
\<close>

section \<open>Digits\<close>

definition digit_val :: "char \<Rightarrow> int" where
  "digit_val c = int (of_char c) - 48"

definition isDigit :: "char \<Rightarrow> bool" where
  "isDigit c \<longleftrightarrow> 0 \<le> digit_val c \<and> digit_val c \<le> 9"

definition digit_char :: "int \<Rightarrow> char" where
  "digit_char d = char_of (nat (d + 48))"

lemma digit_val_char [simp]: "0 \<le> d \<Longrightarrow> d \<le> 9 \<Longrightarrow> digit_val (digit_char d) = d"
  by (simp add: digit_val_def digit_char_def)

lemma isDigit_char [simp]: "0 \<le> d \<Longrightarrow> d \<le> 9 \<Longrightarrow> isDigit (digit_char d)"
  by (simp add: isDigit_def)

lemma digit_char_val [simp]: "isDigit c \<Longrightarrow> digit_char (digit_val c) = c"
  by (simp add: isDigit_def digit_val_def digit_char_def)

lemma isDigit_literals [simp]:
  "\<not> isDigit (CHR '':'')" "\<not> isDigit (CHR ''-'')" "\<not> isDigit (CHR ''+'')"
  "\<not> isDigit (CHR ''T'')" "\<not> isDigit (CHR ''Z'')"
  by (simp_all add: isDigit_def digit_val_def)

section \<open>Decimal numbers\<close>

text \<open>The value of a string of digits, most significant first.\<close>

definition digits_value :: "string \<Rightarrow> int" where
  "digits_value s = foldl (\<lambda>n c. 10 * n + digit_val c) 0 s"

text \<open>
  \<open>strconv.Atoi\<close>: an optional sign and at least one decimal digit, nothing else, within
  the range of a 64-bit \<open>int\<close>.
\<close>

definition MaxInt :: int where "MaxInt = 2 ^ 63 - 1"
definition MinInt :: int where "MinInt = - (2 ^ 63)"

text \<open>Arithmetic of a 64-bit \<open>int\<close> wraps around.\<close>

definition wrap_int :: "int \<Rightarrow> int" where
  "wrap_int n = (n + 2 ^ 63) mod 2 ^ 64 - 2 ^ 63"

lemma wrap_int_id: "MinInt \<le> n \<Longrightarrow> n \<le> MaxInt \<Longrightarrow> wrap_int n = n"
  by (simp add: wrap_int_def MinInt_def MaxInt_def)

definition atoi_digits :: "string \<Rightarrow> int option" where
  "atoi_digits ds = (if ds \<noteq> [] \<and> list_all isDigit ds then Some (digits_value ds) else None)"

definition in_int_range :: "int \<Rightarrow> int option" where
  "in_int_range n = (if MinInt \<le> n \<and> n \<le> MaxInt then Some n else None)"

definition Atoi :: "string \<Rightarrow> int option" where
  "Atoi s = (case s of
       [] \<Rightarrow> None
     | c # cs \<Rightarrow>
         (case (if c = CHR ''-'' then map_option uminus (atoi_digits cs)
                else if c = CHR ''+'' then atoi_digits cs
                else atoi_digits s) of
            None \<Rightarrow> None
          | Some n \<Rightarrow> in_int_range n))"

lemma Atoi_range: "Atoi s = Some n \<Longrightarrow> MinInt \<le> n \<and> n \<le> MaxInt"
  by (auto simp: Atoi_def in_int_range_def split: list.splits option.splits if_splits)

text \<open>\<open>strconv.Itoa\<close> of a natural number.\<close>

fun Itoa_nat :: "nat \<Rightarrow> string" where
  "Itoa_nat n = (if n < 10 then [digit_char (int n)]
                 else Itoa_nat (n div 10) @ [digit_char (int (n mod 10))])"

declare Itoa_nat.simps [simp del]

lemma digits_value_snoc [simp]: "digits_value (s @ [c]) = 10 * digits_value s + digit_val c"
  by (simp add: digits_value_def)

lemma digits_value_Nil [simp]: "digits_value [] = 0"
  by (simp add: digits_value_def)

lemma Itoa_nat_digits: "list_all isDigit (Itoa_nat n) \<and> Itoa_nat n \<noteq> []"
proof (induction n rule: Itoa_nat.induct)
  case (1 n)
  then show ?case by (subst (1 2) Itoa_nat.simps) auto
qed

lemma digits_value_Itoa_nat: "digits_value (Itoa_nat n) = int n"
proof (induction n rule: Itoa_nat.induct)
  case (1 n)
  show ?case
  proof (cases "n < 10")
    case True
    then show ?thesis by (subst Itoa_nat.simps) (simp add: digits_value_def)
  next
    case False
    with "1.IH" have "digits_value (Itoa_nat (n div 10)) = int (n div 10)" by simp
    with False show ?thesis by (subst Itoa_nat.simps) (simp add: zdiv_int zmod_int)
  qed
qed

lemma Atoi_Itoa_nat:
  assumes "int n \<le> MaxInt"
  shows "Atoi (Itoa_nat n) = Some (int n)"
proof -
  obtain c cs where s: "Itoa_nat n = c # cs"
    using Itoa_nat_digits [of n] by (cases "Itoa_nat n") auto
  from Itoa_nat_digits [of n] have "isDigit c" unfolding s by simp
  then have "c \<noteq> CHR ''-''" "c \<noteq> CHR ''+''" by auto
  moreover have "atoi_digits (c # cs) = Some (int n)"
    using Itoa_nat_digits [of n] digits_value_Itoa_nat [of n] by (simp add: atoi_digits_def s)
  ultimately show ?thesis
    using assms by (simp add: Atoi_def s in_int_range_def MinInt_def)
qed

section \<open>Prefixes and case\<close>

definition HasPrefix :: "string \<Rightarrow> string \<Rightarrow> bool" where
  "HasPrefix s p \<longleftrightarrow> take (length p) s = p"

definition CutPrefix :: "string \<Rightarrow> string \<Rightarrow> string \<times> bool" where
  "CutPrefix s p = (if HasPrefix s p then (drop (length p) s, True) else (s, False))"

text \<open>
  \<open>strings.ToLower\<close> on the ASCII letters.  The bytes of other letters are kept: the
  program only compares the result with an ASCII prefix, and no other letter has one of
  the letters of that prefix as its lower case form.
\<close>

definition lower_char :: "char \<Rightarrow> char" where
  "lower_char c = (if 65 \<le> (of_char c :: nat) \<and> (of_char c :: nat) \<le> 90
                   then char_of ((of_char c :: nat) + 32) else c)"

definition ToLower :: "string \<Rightarrow> string" where
  "ToLower s = map lower_char s"

lemma HasPrefix_append [simp]: "HasPrefix (p @ s) p"
  by (simp add: HasPrefix_def)

lemma HasPrefix_iff: "HasPrefix s p \<longleftrightarrow> (\<exists>t. s = p @ t)"
  unfolding HasPrefix_def by (metis append_eq_conv_conj append_take_drop_id)

lemma CutPrefix_append [simp]: "CutPrefix (p @ s) p = (s, True)"
  by (simp add: CutPrefix_def)

section \<open>Splitting and trimming\<close>

text \<open>\<open>strings.Split(s, sep)\<close> for a separator of one byte: always at least one part.\<close>

fun Split :: "string \<Rightarrow> char \<Rightarrow> string list" where
  "Split [] sep = [[]]"
| "Split (c # cs) sep =
     (if c = sep then [] # Split cs sep
      else (case Split cs sep of [] \<Rightarrow> [[c]] | p # ps \<Rightarrow> (c # p) # ps))"

fun Join :: "string list \<Rightarrow> char \<Rightarrow> string" where
  "Join [] sep = []"
| "Join [p] sep = p"
| "Join (p # ps) sep = p @ [sep] @ Join ps sep"

text \<open>The ASCII space characters of \<open>unicode.IsSpace\<close>.\<close>

definition isSpace :: "char \<Rightarrow> bool" where
  "isSpace c \<longleftrightarrow> c = CHR '' '' \<or> (9 \<le> (of_char c :: nat) \<and> (of_char c :: nat) \<le> 13)"

definition TrimSpace :: "string \<Rightarrow> string" where
  "TrimSpace s = rev (dropWhile isSpace (rev (dropWhile isSpace s)))"

lemma Split_not_Nil [simp]: "Split s sep \<noteq> []"
  by (induction s) (auto split: list.splits)

lemma Split_no_sep: "p \<in> set (Split s sep) \<Longrightarrow> sep \<notin> set p"
  by (induction s arbitrary: p) (auto split: list.splits if_splits)

lemma Join_Cons: "ps \<noteq> [] \<Longrightarrow> Join (p # ps) sep = p @ sep # Join ps sep"
  by (cases ps) auto

lemma Join_Split: "Join (Split s sep) sep = s"
proof (induction s)
  case Nil
  then show ?case by simp
next
  case (Cons c cs)
  obtain p ps where s: "Split cs sep = p # ps"
    by (cases "Split cs sep") auto
  with Cons.IH have "Join (p # ps) sep = cs" by simp
  then show ?case using s by (cases ps) (auto simp: Join_Cons)
qed

lemma Split_append_sep:
  "sep \<notin> set p \<Longrightarrow> Split (p @ sep # s) sep = p # Split s sep"
  by (induction p) auto

lemma Split_single: "sep \<notin> set p \<Longrightarrow> Split p sep = [p]"
  by (induction p) auto

lemma Split_Join:
  assumes "ps \<noteq> []" and "\<forall>p \<in> set ps. sep \<notin> set p"
  shows "Split (Join ps sep) sep = ps"
  using assms by (induction ps sep rule: Join.induct) (auto simp: Split_append_sep Split_single)

lemma dropWhile_idem: "dropWhile P (dropWhile P s) = dropWhile P s"
  by (induction s) auto

lemma hd_TrimSpace: "TrimSpace s \<noteq> [] \<Longrightarrow> \<not> isSpace (hd (TrimSpace s))"
proof -
  let ?t = "dropWhile isSpace s"
  assume ne: "TrimSpace s \<noteq> []"
  obtain b where b: "rev ?t = b @ dropWhile isSpace (rev ?t)"
    by (metis takeWhile_dropWhile_id)
  then have t: "?t = TrimSpace s @ rev b"
    unfolding TrimSpace_def by (metis rev_append rev_rev_ident)
  with ne have "?t \<noteq> []" and "hd ?t = hd (TrimSpace s)" by auto
  then show ?thesis using hd_dropWhile by metis
qed

lemma last_TrimSpace: "TrimSpace s \<noteq> [] \<Longrightarrow> \<not> isSpace (last (TrimSpace s))"
  unfolding TrimSpace_def by (metis hd_dropWhile last_rev rev_is_Nil_conv)

section \<open>Zero padding\<close>

text \<open>The last \<open>w\<close> decimal digits of \<open>n\<close>.\<close>

fun pad_digits :: "nat \<Rightarrow> int \<Rightarrow> string" where
  "pad_digits 0 n = []"
| "pad_digits (Suc w) n = pad_digits w (n div 10) @ [digit_char (n mod 10)]"

lemma length_pad_digits [simp]: "length (pad_digits w n) = w"
  by (induction w arbitrary: n) auto

lemma pad_digits_all: "list_all isDigit (pad_digits w n)"
  by (induction w arbitrary: n) auto

lemma digits_value_pad: "0 \<le> n \<Longrightarrow> n < 10 ^ w \<Longrightarrow> digits_value (pad_digits w n) = n"
proof (induction w arbitrary: n)
  case 0
  then show ?case by simp
next
  case (Suc w)
  from Suc.prems have "0 \<le> n div 10" and "n div 10 < 10 ^ w" by auto
  then have "digits_value (pad_digits w (n div 10)) = n div 10" by (rule Suc.IH)
  then show ?case by simp
qed

lemma pad_digits_2: "pad_digits 2 n = [digit_char (n div 10 mod 10), digit_char (n mod 10)]"
  by (simp add: numeral_2_eq_2)

lemma pad_digits_4:
  "pad_digits 4 n = [digit_char (n div 10 div 10 div 10 mod 10), digit_char (n div 10 div 10 mod 10),
     digit_char (n div 10 mod 10), digit_char (n mod 10)]"
  by (simp add: numeral_eq_Suc)

end
