(* ===== verification/GoTime.thy ===== *)
theory GoTime
  imports GoStrings
begin

text \<open>
  The parts of Go's \<open>time\<close> package that the services call: the calendar (proleptic
  Gregorian, UTC), \<open>time.Date\<close>, the fields of an instant, weekdays, and \<open>time.Parse\<close> and
  \<open>Format\<close> for the three layouts that occur in the program: \<open>15:04\<close>, \<open>2006-01-02\<close>
  and \<open>time.RFC3339\<close>.
\<close>

section \<open>Calendar\<close>

definition isLeap :: "int \<Rightarrow> bool" where
  "isLeap y \<longleftrightarrow> y mod 4 = 0 \<and> (y mod 100 \<noteq> 0 \<or> y mod 400 = 0)"

text \<open>Days before the first of each month in a common year; the last entry is the year.\<close>

definition daysBefore :: "int list" where
  "daysBefore = [0, 31, 59, 90, 120, 151, 181, 212, 243, 273, 304, 334, 365]"

definition daysBeforeMonth :: "bool \<Rightarrow> int \<Rightarrow> int" where
  "daysBeforeMonth leap m =
     daysBefore ! nat (m - 1) + (if leap \<and> 2 < m then 1 else 0)"

definition daysIn :: "int \<Rightarrow> int \<Rightarrow> int" where
  "daysIn m y = (if m = 2 \<and> isLeap y then 29
                 else daysBefore ! nat m - daysBefore ! nat (m - 1))"

text \<open>Days from 0001-01-01 to the first of January of a year.\<close>

definition daysBeforeYear :: "int \<Rightarrow> int" where
  "daysBeforeYear y = 365 * (y - 1) + (y - 1) div 4 - (y - 1) div 100 + (y - 1) div 400"

text \<open>Days from 1970-01-01.  The day of the month may overflow into the months that follow.\<close>

definition dateDays :: "int \<Rightarrow> int \<Rightarrow> int \<Rightarrow> int" where
  "dateDays y m d = daysBeforeYear y + daysBeforeMonth (isLeap y) m + (d - 1) - 719162"

definition validDate :: "int \<Rightarrow> int \<Rightarrow> int \<Rightarrow> bool" where
  "validDate y m d \<longleftrightarrow> 1 \<le> m \<and> m \<le> 12 \<and> 1 \<le> d \<and> d \<le> daysIn m y"

text \<open>
  The year and the day within it, by cutting cycles of 400, 100, 4 and 1 years off the day
  count; the last day of a cycle of 100 years (or of one year) belongs to the cycle before.
\<close>

definition yearDay :: "int \<Rightarrow> int \<times> int" where
  "yearDay z =
    (let d = z + 719162;
         n400 = d div 146097; d1 = d mod 146097;
         n100 = (if d1 div 36524 = 4 then 3 else d1 div 36524); d2 = d1 - 36524 * n100;
         n4 = d2 div 1461; d3 = d2 mod 1461;
         n1 = (if d3 div 365 = 4 then 3 else d3 div 365); d4 = d3 - 365 * n1
     in (400 * n400 + 100 * n100 + 4 * n4 + n1 + 1, d4))"

definition monthOf :: "bool \<Rightarrow> int \<Rightarrow> int" where
  "monthOf leap yd =
    (if yd < daysBeforeMonth leap 2 then 1
     else if yd < daysBeforeMonth leap 3 then 2
     else if yd < daysBeforeMonth leap 4 then 3
     else if yd < daysBeforeMonth leap 5 then 4
     else if yd < daysBeforeMonth leap 6 then 5
     else if yd < daysBeforeMonth leap 7 then 6
     else if yd < daysBeforeMonth leap 8 then 7
     else if yd < daysBeforeMonth leap 9 then 8
     else if yd < daysBeforeMonth leap 10 then 9
     else if yd < daysBeforeMonth leap 11 then 10
     else if yd < daysBeforeMonth leap 12 then 11
     else 12)"

definition civil :: "int \<Rightarrow> int \<times> int \<times> int" where
  "civil z = (let (y, yd) = yearDay z; m = monthOf (isLeap y) yd
              in (y, m, yd - daysBeforeMonth (isLeap y) m + 1))"

definition year :: "time \<Rightarrow> int" where "year t = fst (civil (t div DayLength))"
definition month :: "time \<Rightarrow> int" where "month t = fst (snd (civil (t div DayLength)))"
definition day :: "time \<Rightarrow> int" where "day t = snd (snd (civil (t div DayLength)))"
definition hour :: "time \<Rightarrow> int" where "hour t = t mod DayLength div Hour"
definition minute :: "time \<Rightarrow> int" where "minute t = t mod Hour div Minute"
definition second :: "time \<Rightarrow> int" where "second t = t mod Minute div Second"

text \<open>Sunday is 0; 1970-01-01 was a Thursday.\<close>

definition weekday :: "time \<Rightarrow> int" where
  "weekday t = (t div DayLength + 4) mod 7"

definition Date :: "int \<Rightarrow> int \<Rightarrow> int \<Rightarrow> int \<Rightarrow> int \<Rightarrow> time" where
  "Date y m d h mi = dateDays y m d * DayLength + h * Hour + mi * Minute"

text \<open>\<open>t.AddDate(0, 0, n)\<close> at midnight.\<close>

definition AddDays :: "time \<Rightarrow> int \<Rightarrow> time" where
  "AddDays t n = Date (year t) (month t) (day t + n) (hour t) (minute t)"

subsection \<open>The calendar is consistent\<close>

lemma month_cases:
  "1 \<le> m \<Longrightarrow> m \<le> 12 \<Longrightarrow>
   m = 1 \<or> m = 2 \<or> m = 3 \<or> m = 4 \<or> m = 5 \<or> m = 6 \<or> m = 7 \<or> m = 8 \<or> m = 9 \<or>
   m = 10 \<or> m = 11 \<or> m = (12::int)"
  by arith

lemma daysBeforeMonth_table [simp]:
  "daysBeforeMonth l 1 = 0"
  "daysBeforeMonth l 2 = 31"
  "daysBeforeMonth l 3 = 59 + (if l then 1 else 0)"
  "daysBeforeMonth l 4 = 90 + (if l then 1 else 0)"
  "daysBeforeMonth l 5 = 120 + (if l then 1 else 0)"
  "daysBeforeMonth l 6 = 151 + (if l then 1 else 0)"
  "daysBeforeMonth l 7 = 181 + (if l then 1 else 0)"
  "daysBeforeMonth l 8 = 212 + (if l then 1 else 0)"
  "daysBeforeMonth l 9 = 243 + (if l then 1 else 0)"
  "daysBeforeMonth l 10 = 273 + (if l then 1 else 0)"
  "daysBeforeMonth l 11 = 304 + (if l then 1 else 0)"
  "daysBeforeMonth l 12 = 334 + (if l then 1 else 0)"
  by (simp_all add: daysBeforeMonth_def daysBefore_def)

lemma daysIn_table [simp]:
  "daysIn 1 y = 31" "daysIn 2 y = (if isLeap y then 29 else 28)" "daysIn 3 y = 31"
  "daysIn 4 y = 30" "daysIn 5 y = 31" "daysIn 6 y = 30" "daysIn 7 y = 31" "daysIn 8 y = 31"
  "daysIn 9 y = 30" "daysIn 10 y = 31" "daysIn 11 y = 30" "daysIn 12 y = 31"
  by (simp_all add: daysIn_def daysBefore_def)

lemma cycle_year:
  assumes "0 \<le> b" "b \<le> 3" "0 \<le> c" "c \<le> 24" "0 \<le> e" "e \<le> (3::int)"
  shows "(400 * a + 100 * b + 4 * c + e) div 4 = 100 * a + 25 * b + c"
    and "(400 * a + 100 * b + 4 * c + e) div 100 = 4 * a + b"
    and "(400 * a + 100 * b + 4 * c + e) div 400 = a"
proof -
  show "(400 * a + 100 * b + 4 * c + e) div 4 = 100 * a + 25 * b + c"
    by (rule int_div_pos_eq [where r = e]) (use assms in auto)
  show "(400 * a + 100 * b + 4 * c + e) div 100 = 4 * a + b"
    by (rule int_div_pos_eq [where r = "4 * c + e"]) (use assms in auto)
  show "(400 * a + 100 * b + 4 * c + e) div 400 = a"
    by (rule int_div_pos_eq [where r = "100 * b + 4 * c + e"]) (use assms in auto)
qed

text \<open>Cutting up to three cycles of \<open>k\<close> days off at most \<open>4 * k\<close> days.\<close>

lemma cut_cycles:
  fixes d k :: int
  assumes k: "0 < k" and d: "0 \<le> d" "d \<le> 4 * k"
    and q: "q = (if d div k = 4 then 3 else d div k)"
  shows "0 \<le> q" "q \<le> 3" "0 \<le> d - k * q" "d - k * q \<le> k"
    "d - k * q = k \<longrightarrow> q = 3 \<and> d = 4 * k"
proof -
  define n r where "n = d div k" and "r = d mod k"
  have split: "d = k * n + r" and r: "0 \<le> r" "r < k" using k by (simp_all add: n_def r_def)
  have q: "q = (if n = 4 then 3 else n)" by (simp add: q n_def)
  have "0 \<le> n" unfolding n_def using k d by (simp add: pos_imp_zdiv_nonneg_iff)
  moreover have "n \<le> 4"
    unfolding n_def using zdiv_mono1 [OF d(2) k] k by simp
  ultimately consider "n = 0" | "n = 1" | "n = 2" | "n = 3" | "n = 4" by linarith
  then have "0 \<le> q \<and> q \<le> 3 \<and> 0 \<le> d - k * q \<and> d - k * q \<le> k \<and>
      (d - k * q = k \<longrightarrow> q = 3 \<and> d = 4 * k)"
    by cases (use split r q d in simp_all)
  then show "0 \<le> q" "q \<le> 3" "0 \<le> d - k * q" "d - k * q \<le> k"
    "d - k * q = k \<longrightarrow> q = 3 \<and> d = 4 * k" by blast+
qed

lemma yearDay_cycles:
  assumes "yearDay z = (y, yd)"
  obtains a b c e where "y = 400 * a + 100 * b + 4 * c + e + 1"
    and "z + 719162 = 146097 * a + 36524 * b + 1461 * c + 365 * e + yd"
    and "0 \<le> b" "b \<le> 3" "0 \<le> c" "c \<le> 24" "0 \<le> e" "e \<le> 3"
    and "0 \<le> yd" "yd \<le> 365" "yd = 365 \<longrightarrow> e = 3 \<and> (c = 24 \<longrightarrow> b = 3)"
proof -
  define d where "d = z + 719162"
  define d1 where "d1 = d mod 146097"
  define n100 where "n100 = (if d1 div 36524 = 4 then 3 else d1 div 36524)"
  define d2 where "d2 = d1 - 36524 * n100"
  define d3 where "d3 = d2 mod 1461"
  define n1 where "n1 = (if d3 div 365 = 4 then 3 else d3 div 365)"
  have y: "y = 400 * (d div 146097) + 100 * n100 + 4 * (d2 div 1461) + n1 + 1"
    and yd: "yd = d3 - 365 * n1"
    using assms by (simp_all only: yearDay_def Let_def d_def d1_def n100_def d2_def d3_def n1_def prod.inject)
  have d1: "0 \<le> d1" "d1 \<le> 4 * 36524" unfolding d1_def by simp_all
  note h = cut_cycles [OF _ d1 n100_def, folded d2_def, simplified]
  have d3: "0 \<le> d3" "d3 \<le> 4 * 365" unfolding d3_def by simp_all
  note q = cut_cycles [OF _ d3 n1_def, folded yd, simplified]
  have d2: "d2 = 1461 * (d2 div 1461) + d3" unfolding d3_def by simp
  have n4: "0 \<le> d2 div 1461" "d2 div 1461 \<le> 24" using h(3,4) by simp_all
  have "d = 146097 * (d div 146097) + d1" unfolding d1_def by simp
  then have "d = 146097 * (d div 146097) + 36524 * n100 + 1461 * (d2 div 1461) + 365 * n1 + yd"
    using d2 yd d2_def by linarith
  moreover have "z + 719162 = d" by (simp add: d_def)
  ultimately have total: "z + 719162 =
      146097 * (d div 146097) + 36524 * n100 + 1461 * (d2 div 1461) + 365 * n1 + yd" by simp
  have last: "yd = 365 \<longrightarrow> n1 = 3 \<and> (d2 div 1461 = 24 \<longrightarrow> n100 = 3)"
    using q(5) h(4,5) d2 by auto
  show thesis
    by (rule that [OF y total h(1,2) n4 q(1,2,3,4) last])
qed

lemma last_residue:
  fixes k q r y :: int
  assumes "y = k * q + r" "0 < r" "r \<le> k"
  shows "y mod k = 0 \<longleftrightarrow> r = k"
proof (cases "r = k")
  case True
  then show ?thesis using assms by simp
next
  case False
  then have "y mod k = r" using assms by (intro int_mod_pos_eq [where q = q]) auto
  then show ?thesis using assms False by simp
qed

lemma isLeap_cycle:
  assumes "0 \<le> b" "b \<le> 3" "0 \<le> c" "c \<le> 24" "0 \<le> e" "e \<le> (3::int)"
  shows "isLeap (400 * a + 100 * b + 4 * c + e + 1) \<longleftrightarrow> e = 3 \<and> (c = 24 \<longrightarrow> b = 3)"
proof -
  let ?y = "400 * a + 100 * b + 4 * c + e + 1"
  have "?y mod 4 = 0 \<longleftrightarrow> e + 1 = 4"
    by (rule last_residue [where q = "100 * a + 25 * b + c"]) (use assms in auto)
  moreover have "?y mod 100 = 0 \<longleftrightarrow> 4 * c + e + 1 = 100"
    by (rule last_residue [where q = "4 * a + b"]) (use assms in auto)
  moreover have "?y mod 400 = 0 \<longleftrightarrow> 100 * b + 4 * c + e + 1 = 400"
    by (rule last_residue [where q = a]) (use assms in auto)
  moreover have "e + 1 = 4 \<longleftrightarrow> e = 3" "4 * c + e + 1 = 100 \<longleftrightarrow> c = 24 \<and> e = 3"
    "100 * b + 4 * c + e + 1 = 400 \<longleftrightarrow> b = 3 \<and> c = 24 \<and> e = 3"
    by (intro iffI conjI; use assms in linarith)+
  ultimately show ?thesis by (auto simp: isLeap_def)
qed

lemma yearDay_correct:
  assumes "yearDay z = (y, yd)"
  shows "daysBeforeYear y + yd - 719162 = z" and "0 \<le> yd"
    and "yd < 365 + (if isLeap y then 1 else 0)"
proof -
  from yearDay_cycles [OF assms]
  obtain a b c e where y: "y = 400 * a + 100 * b + 4 * c + e + 1"
    and z: "z + 719162 = 146097 * a + 36524 * b + 1461 * c + 365 * e + yd"
    and r: "0 \<le> b" "b \<le> 3" "0 \<le> c" "c \<le> 24" "0 \<le> e" "e \<le> 3"
    and yd: "0 \<le> yd" "yd \<le> 365" "yd = 365 \<longrightarrow> e = 3 \<and> (c = 24 \<longrightarrow> b = 3)"
    by metis
  have "y - 1 = 400 * a + 100 * b + 4 * c + e" by (simp add: y)
  then have "daysBeforeYear y = 146097 * a + 36524 * b + 1461 * c + 365 * e"
    unfolding daysBeforeYear_def by (simp add: cycle_year [OF r])
  with z show "daysBeforeYear y + yd - 719162 = z" by simp
  show "0 \<le> yd" by (rule yd(1))
  show "yd < 365 + (if isLeap y then 1 else 0)"
    using yd isLeap_cycle [OF r, of a] by (auto simp: y)
qed

lemma monthOf_range: "1 \<le> monthOf l yd \<and> monthOf l yd \<le> 12"
  by (simp add: monthOf_def)

lemma monthOf_day:
  assumes "0 \<le> yd" and "yd < 365 + (if isLeap y then 1 else 0)"
  shows "1 \<le> yd - daysBeforeMonth (isLeap y) (monthOf (isLeap y) yd) + 1"
    and "yd - daysBeforeMonth (isLeap y) (monthOf (isLeap y) yd) + 1 \<le> daysIn (monthOf (isLeap y) yd) y"
  using assms by (auto simp: monthOf_def)

theorem civil_valid: "civil z = (y, m, d) \<Longrightarrow> validDate y m d"
  using yearDay_correct [of z] monthOf_range [of "isLeap y"] monthOf_day [of _ y]
  by (auto simp: civil_def validDate_def Let_def split: prod.splits)

theorem dateDays_civil: "civil z = (y, m, d) \<Longrightarrow> dateDays y m d = z"
  using yearDay_correct [of z]
  by (auto simp: civil_def dateDays_def Let_def split: prod.splits)


subsection \<open>A date is determined by its day number\<close>

lemma div_step:
  fixes y k :: int
  assumes "1 < k"
  shows "y div k = (y - 1) div k + (if y mod k = 0 then 1 else 0)"
proof (cases "y mod k = 0")
  case True
  then obtain q where y: "y = k * q" by (metis mod_0_imp_dvd dvdE)
  have "(y - 1) div k = q - 1"
    by (rule int_div_pos_eq [where r = "k - 1"]) (use assms in \<open>simp_all add: y algebra_simps\<close>)
  then show ?thesis using True assms by (simp add: y)
next
  case False
  have "0 \<le> y mod k" "y mod k < k" using assms by simp_all
  then have r: "0 \<le> y mod k - 1" "y mod k - 1 < k" using False by linarith+
  have "(y - 1) div k = y div k"
    by (rule int_div_pos_eq [where r = "y mod k - 1"]) (use r in simp_all)
  then show ?thesis using False by simp
qed

lemma daysBeforeYear_step:
  "daysBeforeYear (y + 1) = daysBeforeYear y + 365 + (if isLeap y then 1 else 0)"
proof -
  have four: "y mod 400 = 0 \<Longrightarrow> y mod 100 = 0" "y mod 100 = 0 \<Longrightarrow> y mod 4 = 0"
    using dvd_trans [of 100 400 y] dvd_trans [of 4 100 y] by (simp_all flip: dvd_eq_mod_eq_0)
  have "daysBeforeYear (y + 1) = daysBeforeYear y + 365 + (if y mod 4 = 0 then 1 else 0)
      - (if y mod 100 = 0 then 1 else 0) + (if y mod 400 = 0 then 1 else 0)"
  proof -
    have d: "y div 4 = (y - 1) div 4 + (if y mod 4 = 0 then 1 else 0)"
      "y div 100 = (y - 1) div 100 + (if y mod 100 = 0 then 1 else 0)"
      "y div 400 = (y - 1) div 400 + (if y mod 400 = 0 then 1 else 0)"
      by (rule div_step, simp)+
    show ?thesis unfolding daysBeforeYear_def add_diff_cancel_right' d by algebra
  qed
  moreover have "(if isLeap y then 1 else 0) = (if y mod 4 = 0 then 1 else 0)
      - (if y mod 100 = 0 then 1 else 0) + (if y mod 400 = 0 then 1 else (0::int))"
    unfolding isLeap_def
    using four by (cases "y mod 400 = 0"; cases "y mod 100 = 0"; cases "y mod 4 = 0") simp_all
  ultimately show ?thesis by linarith
qed

lemma daysBeforeYear_later:
  assumes "y < y'"
  shows "daysBeforeYear y + 365 + (if isLeap y then 1 else 0) \<le> daysBeforeYear y'"
proof -
  have "daysBeforeYear (y + 1) \<le> daysBeforeYear (y + 1 + int n)" for n
  proof (induction n)
    case 0
    then show ?case by simp
  next
    case (Suc n)
    then show ?case using daysBeforeYear_step [of "y + 1 + int n"] by (simp add: algebra_simps)
  qed
  from this [of "nat (y' - y - 1)"] assms show ?thesis
    by (simp add: daysBeforeYear_step)
qed

lemma monthOf_unique:
  assumes "validDate y m d"
  shows "monthOf (isLeap y) (daysBeforeMonth (isLeap y) m + d - 1) = m"
    and "0 \<le> daysBeforeMonth (isLeap y) m + d - 1"
    and "daysBeforeMonth (isLeap y) m + d - 1 < 365 + (if isLeap y then 1 else 0)"
proof -
  have m: "1 \<le> m" "m \<le> 12" and d: "1 \<le> d" "d \<le> daysIn m y"
    using assms by (simp_all add: validDate_def)
  note c = month_cases [OF m]
  show "monthOf (isLeap y) (daysBeforeMonth (isLeap y) m + d - 1) = m"
    using c by (elim disjE) (use d in \<open>simp_all add: monthOf_def split: if_splits\<close>)
  show "0 \<le> daysBeforeMonth (isLeap y) m + d - 1"
    using c by (elim disjE) (use d in \<open>simp_all split: if_splits\<close>)
  show "daysBeforeMonth (isLeap y) m + d - 1 < 365 + (if isLeap y then 1 else 0)"
    using c by (elim disjE) (use d in \<open>simp_all split: if_splits\<close>)
qed

lemma yearDay_unique:
  assumes z: "daysBeforeYear y + yd - 719162 = z"
    and yd: "0 \<le> yd" "yd < 365 + (if isLeap y then 1 else 0)"
  shows "yearDay z = (y, yd)"
proof -
  obtain y' yd' where eq: "yearDay z = (y', yd')" by fastforce
  note c = yearDay_correct [OF eq]
  have "\<not> y < y'" using daysBeforeYear_later [of y y'] c z yd by auto
  moreover have "\<not> y' < y" using daysBeforeYear_later [of y' y] c z yd by auto
  ultimately have "y' = y" by simp
  with c z have "yd' = yd" by simp
  with eq \<open>y' = y\<close> show ?thesis by simp
qed

lemma civil_dateDays: "validDate y m d \<Longrightarrow> civil (dateDays y m d) = (y, m, d)"
proof -
  assume v: "validDate y m d"
  have "yearDay (dateDays y m d) = (y, daysBeforeMonth (isLeap y) m + d - 1)"
    using monthOf_unique [OF v] by (intro yearDay_unique) (auto simp: dateDays_def)
  then show ?thesis using monthOf_unique [OF v] by (simp add: civil_def)
qed

subsection \<open>The fields of an instant\<close>

lemma Date_div [simp]:
  assumes "0 \<le> h" "h \<le> 23" "0 \<le> mi" "mi \<le> 59"
  shows "Date y m d h mi div DayLength = dateDays y m d"
    and "Date y m d h mi mod DayLength = h * Hour + mi * Minute"
proof -
  have r: "0 \<le> h * Hour + mi * Minute" "h * Hour + mi * Minute < DayLength"
    using assms by linarith+
  have e: "Date y m d h mi = DayLength * dateDays y m d + (h * Hour + mi * Minute)"
    by (simp add: Date_def)
  show "Date y m d h mi div DayLength = dateDays y m d"
    by (rule int_div_pos_eq [OF e r])
  show "Date y m d h mi mod DayLength = h * Hour + mi * Minute"
    by (rule int_mod_pos_eq [OF e r])
qed

lemma Date_fields:
  assumes "validDate y m d" "0 \<le> h" "h \<le> 23" "0 \<le> mi" "mi \<le> 59"
  shows "year (Date y m d h mi) = y" "month (Date y m d h mi) = m" "day (Date y m d h mi) = d"
    "hour (Date y m d h mi) = h" "minute (Date y m d h mi) = mi" "second (Date y m d h mi) = 0"
proof -
  note f = Date_div [OF assms(2-5), of y m d]
  show "year (Date y m d h mi) = y" "month (Date y m d h mi) = m" "day (Date y m d h mi) = d"
    by (simp_all add: year_def month_def day_def f civil_dateDays [OF assms(1)])
  show "hour (Date y m d h mi) = h"
    unfolding hour_def f by (rule int_div_pos_eq [where r = "mi * Minute"]) (use assms in auto)
  have e: "Date y m d h mi = Hour * (dateDays y m d * 24 + h) + mi * Minute"
    by (simp add: Date_def)
  have "Date y m d h mi mod Hour = mi * Minute"
    by (rule int_mod_pos_eq [OF e]) (use assms in auto)
  then show "minute (Date y m d h mi) = mi" by (simp add: minute_def)
  have "Date y m d h mi = Minute * (dateDays y m d * 1440 + h * 60 + mi) + 0"
    by (simp add: Date_def)
  then have "Date y m d h mi mod Minute = 0" by (rule int_mod_pos_eq) auto
  then show "second (Date y m d h mi) = 0" by (simp add: second_def)
qed

text \<open>Midnight of the day an instant lies in.\<close>

lemma Date_midnight: "Date (year t) (month t) (day t) 0 0 = t - t mod DayLength"
proof -
  obtain y m d where c: "civil (t div DayLength) = (y, m, d)" by (metis prod_cases3)
  then have "dateDays y m d = t div DayLength" by (rule dateDays_civil)
  then show ?thesis
    using c by (simp add: year_def month_def day_def Date_def minus_mod_eq_div_mult)
qed

lemma Date_in_day: "Date (year t) (month t) (day t) h mi = t - t mod DayLength + h * Hour + mi * Minute"
  using Date_midnight [of t] by (simp add: Date_def)

lemma Date_add_days: "Date y m (d + n) h mi = Date y m d h mi + n * DayLength"
  by (simp add: Date_def dateDays_def algebra_simps)

lemma midnight_fields [simp]:
  "(t - t mod DayLength) div DayLength = t div DayLength"
  "(t - t mod DayLength) mod DayLength = 0"
  by (simp_all add: minus_mod_eq_mult_div)

lemma AddDays_midnight: "AddDays (t - t mod DayLength) n = t - t mod DayLength + n * DayLength"
proof -
  let ?t = "t - t mod DayLength"
  have e: "?t = Hour * (24 * (t div DayLength)) + 0"
    by (simp add: minus_mod_eq_mult_div)
  have "?t mod Hour = 0" by (rule int_mod_pos_eq [OF e]) simp_all
  then have "hour ?t = 0" "minute ?t = 0" by (simp_all add: hour_def minute_def)
  then have "AddDays ?t n = Date (year ?t) (month ?t) (day ?t + n) 0 0" by (simp add: AddDays_def)
  also have "\<dots> = ?t - ?t mod DayLength + n * DayLength"
    by (simp only: Date_add_days Date_midnight)
  finally show ?thesis by simp
qed

section \<open>Parsing\<close>

text \<open>\<open>getnum\<close> of the package: one or two digits, exactly two when \<open>fixed\<close>.\<close>

fun getnum :: "bool \<Rightarrow> string \<Rightarrow> (int \<times> string) option" where
  "getnum fixed [] = None"
| "getnum fixed [c] =
     (if \<not> isDigit c then None else if fixed then None else Some (digit_val c, []))"
| "getnum fixed (c # c' # cs) =
     (if \<not> isDigit c then None
      else if \<not> isDigit c' then (if fixed then None else Some (digit_val c, c' # cs))
      else Some (digit_val c * 10 + digit_val c', cs))"

text \<open>A literal byte of the layout.\<close>

definition skip :: "char \<Rightarrow> string \<Rightarrow> string option" where
  "skip p s = (case s of [] \<Rightarrow> None | c # cs \<Rightarrow> if c = p then Some cs else None)"

text \<open>
  \<open>time.Parse("15:04", s)\<close>: an hour of one or two digits, a minute of two.  The date of
  the result is the first of January of year 0.
\<close>

definition Parse_15_04 :: "string \<Rightarrow> time option" where
  "Parse_15_04 s =
    Option.bind (getnum False s) (\<lambda>(h, s1).
      if h < 0 \<or> 24 \<le> h then None
      else Option.bind (skip (CHR '':'') s1) (\<lambda>s2.
        Option.bind (getnum True s2) (\<lambda>(mi, s3).
          if mi < 0 \<or> 60 \<le> mi then None
          else if s3 \<noteq> [] then None
          else Some (Date 0 1 1 h mi))))"

text \<open>\<open>time.Parse("2006-01-02", s)\<close>: midnight of the day.\<close>

definition Parse_2006_01_02 :: "string \<Rightarrow> time option" where
  "Parse_2006_01_02 s =
    (if length s < 4 \<or> \<not> list_all isDigit (take 4 s) then None
     else let y = digits_value (take 4 s) in
      Option.bind (skip (CHR ''-'') (drop 4 s)) (\<lambda>s1.
        Option.bind (getnum True s1) (\<lambda>(m, s2).
          if m \<le> 0 \<or> 12 < m then None
          else Option.bind (skip (CHR ''-'') s2) (\<lambda>s3.
            Option.bind (getnum True s3) (\<lambda>(d, s4).
              if s4 \<noteq> [] then None
              else if d < 1 \<or> daysIn m y < d then None
              else Some (Date y m d 0 0))))))"

section \<open>Formatting\<close>

definition Format_year :: "int \<Rightarrow> string" where
  "Format_year y = (if y < 0 then ''-'' else '''') @
     (if \<bar>y\<bar> < 10000 then pad_digits 4 \<bar>y\<bar> else Itoa_nat (nat \<bar>y\<bar>))"

definition Format_date :: "time \<Rightarrow> string" where
  "Format_date t = Format_year (year t) @ ''-'' @ pad_digits 2 (month t) @ ''-'' @ pad_digits 2 (day t)"

text \<open>\<open>t.UTC().Format(time.RFC3339)\<close>; fractions of a second are not printed.\<close>

definition Format_RFC3339 :: "time \<Rightarrow> string" where
  "Format_RFC3339 t = Format_date t @ ''T'' @ pad_digits 2 (hour t) @ '':'' @
     pad_digits 2 (minute t) @ '':'' @ pad_digits 2 (second t) @ ''Z''"

text \<open>\<open>TO_CHAR(t, 'HH24:MI')\<close> of the database, on a time of day.\<close>

definition to_char_HH24_MI :: "time \<Rightarrow> string" where
  "to_char_HH24_MI t = pad_digits 2 (hour t) @ '':'' @ pad_digits 2 (minute t)"


section \<open>Parsing and printing agree\<close>

lemma digit_range: "isDigit c \<Longrightarrow> 0 \<le> digit_val c \<and> digit_val c \<le> 9"
  by (simp add: isDigit_def)

lemma getnum_two_digits:
  "isDigit c \<Longrightarrow> isDigit c' \<Longrightarrow> getnum fixed (c # c' # s) = Some (digit_val c * 10 + digit_val c', s)"
  by simp

lemma getnum_pad [simp]:
  assumes "0 \<le> n" "n < 100"
  shows "getnum fixed (pad_digits 2 n @ s) = Some (n, s)"
proof -
  have "n div 10 mod 10 = n div 10" using assms by (simp add: pos_imp_zdiv_nonneg_iff)
  then show ?thesis using assms by (simp add: pad_digits_2)
qed

lemma pad_two_digits:
  "isDigit c \<Longrightarrow> isDigit c' \<Longrightarrow> pad_digits 2 (digit_val c * 10 + digit_val c') = [c, c']"
  using digit_range [of c] digit_range [of c'] by (simp add: pad_digits_2)

lemma getnum_fixed_SomeE:
  assumes "getnum True s = Some (n, r)"
  obtains "s = pad_digits 2 n @ r" "0 \<le> n" "n < 100"
proof -
  from assms obtain c c' where s: "s = c # c' # r" "isDigit c" "isDigit c'"
    "n = digit_val c * 10 + digit_val c'"
    by (cases "(True, s)" rule: getnum.cases) (auto split: if_splits)
  moreover have "0 \<le> n" "n < 100" using s digit_range [of c] digit_range [of c'] by auto
  ultimately show thesis by (intro that) (simp_all add: pad_two_digits)
qed

lemma getnum_SomeE:
  assumes "getnum False s = Some (n, r)"
  obtains "s = pad_digits 2 n @ r" "0 \<le> n" "n < 100"
  | "s = digit_char n # r" "0 \<le> n" "n < 10"
proof (cases "(False, s)" rule: getnum.cases)
  case (1 f)
  then show ?thesis using assms by simp
next
  case (2 f c)
  then have "s = digit_char n # r" "0 \<le> n" "n < 10"
    using assms digit_range [of c] by (auto split: if_splits)
  then show ?thesis by (rule that(2))
next
  case (3 f c c' cs)
  show ?thesis
  proof (cases "isDigit c'")
    case True
    then have "s = pad_digits 2 n @ r" "0 \<le> n" "n < 100"
      using 3 assms digit_range [of c] digit_range [of c'] by (auto simp: pad_two_digits split: if_splits)
    then show ?thesis by (rule that(1))
  next
    case False
    then have "s = digit_char n # r" "0 \<le> n" "n < 10"
      using 3 assms digit_range [of c] by (auto split: if_splits)
    then show ?thesis by (rule that(2))
  qed
qed

lemma skip_Cons [simp]: "skip p (c # s) = (if c = p then Some s else None)"
  by (simp add: skip_def)

lemma skip_SomeE: "skip p s = Some r \<Longrightarrow> s = p # r"
  by (auto simp: skip_def split: list.splits if_splits)

lemma Parse_15_04_pad:
  "0 \<le> h \<Longrightarrow> h \<le> 23 \<Longrightarrow> 0 \<le> mi \<Longrightarrow> mi \<le> 59 \<Longrightarrow>
   Parse_15_04 (pad_digits 2 h @ '':'' @ pad_digits 2 mi) = Some (Date 0 1 1 h mi)"
  using getnum_pad [of mi True "[]"] by (simp add: Parse_15_04_def)

lemma Parse_15_04_SomeE:
  assumes "Parse_15_04 s = Some t"
  obtains h mi where "t = Date 0 1 1 h mi" "0 \<le> h" "h \<le> 23" "0 \<le> mi" "mi \<le> 59"
    "s = pad_digits 2 h @ '':'' @ pad_digits 2 mi \<or> s = digit_char h # '':'' @ pad_digits 2 mi"
proof -
  from assms obtain h s1 s2 mi where p: "getnum False s = Some (h, s1)" "h < 24"
    "skip (CHR '':'') s1 = Some s2" "getnum True s2 = Some (mi, [])" "mi < 60"
    and t: "t = Date 0 1 1 h mi"
    unfolding Parse_15_04_def by (auto split: bind_splits if_splits)
  from p(4) have mi: "s2 = pad_digits 2 mi" "0 \<le> mi" by (auto elim: getnum_fixed_SomeE)
  have s1: "s1 = '':'' @ pad_digits 2 mi" using skip_SomeE [OF p(3)] mi by simp
  from p(1) show thesis
    by (rule getnum_SomeE) (use that t p mi s1 in auto)
qed

lemma validDate_01_01 [simp]: "validDate y 1 1"
  by (simp add: validDate_def)

lemma Parse_15_04_fields:
  assumes "Parse_15_04 s = Some t"
  shows "0 \<le> hour t" "hour t \<le> 23" "0 \<le> minute t" "minute t \<le> 59"
    "t = Date 0 1 1 (hour t) (minute t)"
  using assms by (auto elim!: Parse_15_04_SomeE simp: Date_fields)

text \<open>The database prints a time of day that parses back to the same time of day.\<close>

lemma Parse_to_char:
  assumes "Parse_15_04 s = Some t"
  shows "Parse_15_04 (to_char_HH24_MI t) = Some t"
  using Parse_15_04_fields [OF assms] Parse_15_04_pad [of "hour t" "minute t"]
  unfolding to_char_HH24_MI_def by simp

lemma pad_digits_value: "list_all isDigit s \<Longrightarrow> pad_digits (length s) (digits_value s) = s"
proof (induction s rule: rev_induct)
  case Nil
  then show ?case by simp
next
  case (snoc c s)
  then have "isDigit c" "list_all isDigit s" by simp_all
  with snoc.IH show ?case using digit_range [of c] by simp
qed

lemma digits_value_bounds: "list_all isDigit s \<Longrightarrow> 0 \<le> digits_value s \<and> digits_value s < 10 ^ length s"
proof (induction s rule: rev_induct)
  case Nil
  then show ?case by simp
next
  case (snoc c s)
  then have "isDigit c" "list_all isDigit s" by simp_all
  with snoc.IH show ?case using digit_range [of c] by simp
qed

lemma Format_year_4: "0 \<le> y \<Longrightarrow> y \<le> 9999 \<Longrightarrow> Format_year y = pad_digits 4 y"
  by (simp add: Format_year_def)

text \<open>A date that parses is printed as it was written, and the other way round.\<close>

lemma Parse_2006_01_02_SomeE:
  assumes "Parse_2006_01_02 s = Some t"
  obtains y m d where "t = Date y m d 0 0" "validDate y m d" "0 \<le> y" "y \<le> 9999"
    "s = pad_digits 4 y @ ''-'' @ pad_digits 2 m @ ''-'' @ pad_digits 2 d"
proof -
  let ?y = "digits_value (take 4 s)"
  have four: "\<not> length s < 4" "list_all isDigit (take 4 s)"
    using assms unfolding Parse_2006_01_02_def by (simp_all split: if_splits)
  from assms obtain s1 m s2 s3 d where p: "skip (CHR ''-'') (drop 4 s) = Some s1"
    "getnum True s1 = Some (m, s2)" "\<not> m \<le> 0" "\<not> 12 < m" "skip (CHR ''-'') s2 = Some s3"
    "getnum True s3 = Some (d, [])" "\<not> d < 1" "\<not> daysIn m ?y < d"
    and t: "t = Date ?y m d 0 0"
    unfolding Parse_2006_01_02_def Let_def by (auto split: bind_splits if_splits)
  have y: "take 4 s = pad_digits 4 ?y" "0 \<le> ?y" "?y < 10000"
    using pad_digits_value [OF four(2)] digits_value_bounds [OF four(2)] four(1) by simp_all
  have "drop 4 s = ''-'' @ pad_digits 2 m @ ''-'' @ pad_digits 2 d"
    using skip_SomeE [OF p(1)] skip_SomeE [OF p(5)] p(2,6) by (auto elim!: getnum_fixed_SomeE)
  then have "s = pad_digits 4 ?y @ ''-'' @ pad_digits 2 m @ ''-'' @ pad_digits 2 d"
    using y(1) append_take_drop_id [of 4 s] by metis
  moreover have "validDate ?y m d" using p by (simp add: validDate_def)
  moreover have "?y \<le> 9999" using y by linarith
  ultimately show thesis using t y(2) by (intro that)
qed

lemma Format_date_Date:
  assumes "validDate y m d" "0 \<le> y" "y \<le> 9999" "0 \<le> h" "h \<le> 23" "0 \<le> mi" "mi \<le> 59"
  shows "Format_date (Date y m d h mi) = pad_digits 4 y @ ''-'' @ pad_digits 2 m @ ''-'' @ pad_digits 2 d"
  using Date_fields [OF assms(1,4-7)] assms by (simp add: Format_date_def Format_year_4)

lemma daysIn_le: "1 \<le> m \<Longrightarrow> m \<le> 12 \<Longrightarrow> daysIn m y \<le> 31"
  using month_cases [of m] by auto

theorem Format_Parse_date:
  "Parse_2006_01_02 s = Some t \<Longrightarrow> Format_date t = s"
  by (erule Parse_2006_01_02_SomeE) (simp add: Format_date_Date)

theorem Parse_Format_date:
  assumes "validDate y m d" "0 \<le> y" "y \<le> 9999"
  shows "Parse_2006_01_02 (Format_date (Date y m d 0 0)) = Some (Date y m d 0 0)"
proof -
  have m: "1 \<le> m" "m \<le> 12" and d: "1 \<le> d" "d \<le> daysIn m y"
    using assms(1) by (simp_all add: validDate_def)
  have four: "take 4 (pad_digits 4 y @ s) = pad_digits 4 y" "drop 4 (pad_digits 4 y @ s) = s" for s
    by simp_all
  have "getnum True (pad_digits 2 d) = Some (d, [])"
    using getnum_pad [of d True "[]"] d daysIn_le [OF m, of y] by simp
  moreover have "digits_value (pad_digits 4 y) = y"
    using assms by (simp add: digits_value_pad)
  ultimately show ?thesis
    using m d pad_digits_all [of 4 y]
    unfolding Format_date_Date [OF assms order_refl _ order_refl, simplified] Parse_2006_01_02_def four
    by simp
qed

end
