(* ===== verification/BookingModel.thy ===== *)
theory BookingModel
  imports Prelude GoTime
begin

text \<open>
  The data of the booking service: the domain types of \<open>internal/model\<close>, the tables that the
  migrations create with their constraints, and the integrity of a database in which every
  constraint holds.
\<close>

section \<open>Domain types\<close>

datatype model_error =
    ErrRoomNotFound
  | ErrSlotNotFound
  | ErrBookingNotFound
  | ErrSlotAlreadyBooked
  | ErrScheduleExists
  | ErrScheduleNotFound
  | ErrForbidden
  | ErrSlotInPast
  | ErrEmailTaken
  | ErrInvalidCredentials

type_synonym berror = "model_error go_error"

datatype BookingStatus = BookingStatusActive | BookingStatusCancelled

record Booking =
  bk_ID :: uuid
  bk_SlotID :: uuid
  bk_UserID :: uuid
  bk_Status :: BookingStatus
  bk_ConferenceLink :: "string option"
  bk_CreatedAt :: time

record Room =
  rm_ID :: uuid
  rm_Name :: string
  rm_Description :: "string option"
  rm_Capacity :: "int option"
  rm_CreatedAt :: time

record Schedule =
  sc_ID :: uuid
  sc_RoomID :: uuid
  sc_DaysOfWeek :: "int list"
  sc_StartTime :: string
  sc_EndTime :: string
  sc_CreatedAt :: time

record Slot =
  sl_ID :: uuid
  sl_RoomID :: uuid
  sl_StartAt :: time
  sl_EndAt :: time

type_synonym Role = string

definition RoleAdmin :: Role where "RoleAdmin = ''admin''"
definition RoleUser :: Role where "RoleUser = ''user''"

definition Role_Valid :: "Role \<Rightarrow> bool" where
  "Role_Valid r \<longleftrightarrow> r = RoleAdmin \<or> r = RoleUser"

record User =
  us_ID :: uuid
  us_Email :: string
  us_Password :: "string option"
  us_Role :: Role
  us_CreatedAt :: time

lemma roles_differ [simp]: "RoleAdmin \<noteq> RoleUser" "RoleUser \<noteq> RoleAdmin"
  by (simp_all add: RoleAdmin_def RoleUser_def)

lemma Role_Valid_roles [simp]: "Role_Valid RoleAdmin" "Role_Valid RoleUser"
  by (simp_all add: Role_Valid_def)

section \<open>Tables\<close>

text \<open>
  A schedule row keeps its times of day in \<open>TIME\<close> columns, as instants of the first of
  January of year 0 (the form \<open>time.Parse\<close> gives a time of day).  The \<open>jsonb\<close> payload of an
  outbox row is an object of strings and timestamps.
\<close>

record ScheduleRow =
  sr_id :: uuid
  sr_room_id :: uuid
  sr_days_of_week :: "int list"
  sr_start_time :: time
  sr_end_time :: time
  sr_created_at :: time

datatype json = JString string | JTime time

type_synonym json_object = "(string \<times> json) list"

record OutboxRow =
  ob_id :: uuid
  ob_event_type :: string
  ob_payload :: json_object
  ob_created_at :: time
  ob_sent_at :: "time option"

record BookingDB =
  users :: "User list"
  rooms :: "Room list"
  schedules :: "ScheduleRow list"
  slots :: "Slot list"
  bookings :: "Booking list"
  outbox :: "OutboxRow list"

definition active :: "Booking \<Rightarrow> bool" where
  "active b \<longleftrightarrow> bk_Status b = BookingStatusActive"

text \<open>The database after the migrations: empty but for the two seeded users.\<close>

definition dummyAdminID :: uuid where "dummyAdminID = 1"
definition dummyUserID :: uuid where "dummyUserID = 2"

definition migrated :: "time \<Rightarrow> BookingDB" where
  "migrated now = \<lparr> users =
      [\<lparr> us_ID = dummyAdminID, us_Email = ''admin@test.com'', us_Password = None,
         us_Role = RoleAdmin, us_CreatedAt = now \<rparr>,
       \<lparr> us_ID = dummyUserID, us_Email = ''user@test.com'', us_Password = None,
         us_Role = RoleUser, us_CreatedAt = now \<rparr>],
     rooms = [], schedules = [], slots = [], bookings = [], outbox = [] \<rparr>"

section \<open>Integrity\<close>

text \<open>The constraints of the migrations, table by table.\<close>

definition users_ok :: "BookingDB \<Rightarrow> bool" where
  "users_ok db \<longleftrightarrow> distinct (map us_ID (users db)) \<and> distinct (map us_Email (users db)) \<and>
     list_all (\<lambda>u. Role_Valid (us_Role u)) (users db)"

definition rooms_ok :: "BookingDB \<Rightarrow> bool" where
  "rooms_ok db \<longleftrightarrow> distinct (map rm_ID (rooms db))"

definition schedules_ok :: "BookingDB \<Rightarrow> bool" where
  "schedules_ok db \<longleftrightarrow> distinct (map sr_id (schedules db)) \<and>
     distinct (map sr_room_id (schedules db)) \<and>
     list_all (\<lambda>s. sr_room_id s \<in> rm_ID ` set (rooms db) \<and> sr_days_of_week s \<noteq> [] \<and>
                   sr_start_time s < sr_end_time s) (schedules db)"

definition slots_ok :: "BookingDB \<Rightarrow> bool" where
  "slots_ok db \<longleftrightarrow> distinct (map sl_ID (slots db)) \<and>
     distinct (map (\<lambda>s. (sl_RoomID s, sl_StartAt s)) (slots db)) \<and>
     list_all (\<lambda>s. sl_RoomID s \<in> rm_ID ` set (rooms db) \<and> sl_StartAt s < sl_EndAt s) (slots db)"

definition bookings_ok :: "BookingDB \<Rightarrow> bool" where
  "bookings_ok db \<longleftrightarrow> distinct (map bk_ID (bookings db)) \<and>
     distinct (map bk_SlotID (filter active (bookings db))) \<and>
     list_all (\<lambda>b. bk_SlotID b \<in> sl_ID ` set (slots db) \<and> bk_UserID b \<in> us_ID ` set (users db))
       (bookings db)"

definition outbox_ok :: "BookingDB \<Rightarrow> bool" where
  "outbox_ok db \<longleftrightarrow> distinct (map ob_id (outbox db))"

definition db_ok :: "BookingDB \<Rightarrow> bool" where
  "db_ok db \<longleftrightarrow> users_ok db \<and> rooms_ok db \<and> schedules_ok db \<and> slots_ok db \<and> bookings_ok db \<and>
     outbox_ok db"

lemmas db_ok_defs = db_ok_def users_ok_def rooms_ok_def schedules_ok_def slots_ok_def
  bookings_ok_def outbox_ok_def

lemma db_ok_migrated: "db_ok (migrated now)"
  by (simp add: db_ok_defs migrated_def dummyAdminID_def dummyUserID_def)

text \<open>
  The booking that holds a slot: the active one, of which there is at most one.
\<close>

definition holder :: "BookingDB \<Rightarrow> uuid \<Rightarrow> Booking option" where
  "holder db slot = find_by bk_SlotID slot (filter active (bookings db))"

lemma holder_iff:
  "bookings_ok db \<Longrightarrow> holder db slot = Some b \<longleftrightarrow> b \<in> set (bookings db) \<and> active b \<and> bk_SlotID b = slot"
  by (auto simp: holder_def bookings_ok_def find_by_iff)

lemma holder_None:
  "holder db slot = None \<longleftrightarrow> (\<forall>b \<in> set (bookings db). active b \<longrightarrow> bk_SlotID b \<noteq> slot)"
  by (auto simp: holder_def find_by_None)

end
