(* ===== verification/MetricDefs.thy ===== *)
theory MetricDefs
  imports GoStrings
begin

text \<open>
  \<open>internal/metrics/metrics.go\<close> of both services: the metrics that the packages register when
  the process starts.  The client library of Prometheus is outside the repository; what its
  documentation says of \<open>promauto\<close> is that a registration succeeds for a metric whose names are
  valid, whose labels are distinct, whose buckets increase, and whose name is new, and that
  anything else panics.
\<close>

section \<open>Declarations\<close>

text \<open>The bounds of the buckets are given in thousandths.\<close>

datatype metric_kind = Counter | CounterVec | Gauge | Histogram | HistogramVec

record Metric =
  me_Kind :: metric_kind
  me_Name :: string
  me_Help :: string
  me_Buckets :: "int list"
  me_Labels :: "string list"

text \<open>The series that \<open>WithLabelValues\<close> selects; a metric without labels is its own series.\<close>

definition series :: "Metric \<Rightarrow> string list \<Rightarrow> string" where
  "series m values = me_Name m @ concat (map (\<lambda>v. '' '' @ v) values)"

lemma series_Nil [simp]: "series m [] = me_Name m"
  by (simp add: series_def)

subsection \<open>The booking service\<close>

definition HTTPRequestsTotal :: Metric where
  "HTTPRequestsTotal = \<lparr> me_Kind = CounterVec, me_Name = ''http_requests_total'',
     me_Help = ''Total HTTP requests by method, path and status code.'', me_Buckets = [],
     me_Labels = [''method'', ''path'', ''code''] \<rparr>"

definition HTTPRequestDuration :: Metric where
  "HTTPRequestDuration = \<lparr> me_Kind = HistogramVec, me_Name = ''http_request_duration_seconds'',
     me_Help = ''HTTP request duration in seconds.'',
     me_Buckets = [5, 10, 25, 50, 100, 200, 500, 1000],
     me_Labels = [''method'', ''path''] \<rparr>"

definition SlotConflictsTotal :: Metric where
  "SlotConflictsTotal = \<lparr> me_Kind = Counter, me_Name = ''booking_slot_conflicts_total'',
     me_Help = ''Booking attempts rejected due to slot conflict (partial unique index).'',
     me_Buckets = [], me_Labels = [] \<rparr>"

definition OutboxPublishedTotal :: Metric where
  "OutboxPublishedTotal = \<lparr> me_Kind = Counter, me_Name = ''booking_outbox_published_total'',
     me_Help = ''Outbox records successfully published to Kafka.'', me_Buckets = [], me_Labels = [] \<rparr>"

definition OutboxErrorsTotal :: Metric where
  "OutboxErrorsTotal = \<lparr> me_Kind = Counter, me_Name = ''booking_outbox_errors_total'',
     me_Help = ''Outbox publish errors.'', me_Buckets = [], me_Labels = [] \<rparr>"

definition booking_metrics :: "Metric list" where
  "booking_metrics =
    [HTTPRequestsTotal, HTTPRequestDuration, SlotConflictsTotal, OutboxPublishedTotal, OutboxErrorsTotal]"

subsection \<open>The notification service\<close>

definition notif_HTTPRequestsTotal :: Metric where
  "notif_HTTPRequestsTotal = \<lparr> me_Kind = CounterVec, me_Name = ''http_requests_total'',
     me_Help = ''Total HTTP requests by method, path and status code.'', me_Buckets = [],
     me_Labels = [''method'', ''path'', ''code''] \<rparr>"

definition notif_HTTPRequestDuration :: Metric where
  "notif_HTTPRequestDuration = \<lparr> me_Kind = HistogramVec, me_Name = ''http_request_duration_seconds'',
     me_Help = ''HTTP request duration in seconds.'',
     me_Buckets = [5, 10, 25, 50, 100, 200, 500, 1000],
     me_Labels = [''method'', ''path''] \<rparr>"

definition SSEConnectionsActive :: Metric where
  "SSEConnectionsActive = \<lparr> me_Kind = Gauge, me_Name = ''notification_sse_connections_active'',
     me_Help = ''Current number of active SSE connections.'', me_Buckets = [], me_Labels = [] \<rparr>"

definition DeliveryLatency :: Metric where
  "DeliveryLatency = \<lparr> me_Kind = Histogram, me_Name = ''notification_delivery_latency_seconds'',
     me_Help = ''E2E latency from booking event occurrence to SSE broadcast.'',
     me_Buckets = [100, 250, 500, 1000, 2000, 3000, 5000, 10000], me_Labels = [] \<rparr>"

definition KafkaConsumedTotal :: Metric where
  "KafkaConsumedTotal = \<lparr> me_Kind = Counter, me_Name = ''notification_kafka_messages_consumed_total'',
     me_Help = ''Kafka messages successfully processed.'', me_Buckets = [], me_Labels = [] \<rparr>"

definition KafkaConsumerErrorsTotal :: Metric where
  "KafkaConsumerErrorsTotal = \<lparr> me_Kind = Counter, me_Name = ''notification_kafka_consumer_errors_total'',
     me_Help = ''Kafka consumer processing errors.'', me_Buckets = [], me_Labels = [] \<rparr>"

definition notif_metrics :: "Metric list" where
  "notif_metrics =
    [notif_HTTPRequestsTotal, notif_HTTPRequestDuration, SSEConnectionsActive, DeliveryLatency,
     KafkaConsumedTotal, KafkaConsumerErrorsTotal]"

lemmas metric_defs = HTTPRequestsTotal_def HTTPRequestDuration_def SlotConflictsTotal_def OutboxPublishedTotal_def
  OutboxErrorsTotal_def notif_HTTPRequestsTotal_def notif_HTTPRequestDuration_def SSEConnectionsActive_def
  DeliveryLatency_def KafkaConsumedTotal_def KafkaConsumerErrorsTotal_def

section \<open>What a declaration must be\<close>

definition name_start :: "char \<Rightarrow> bool" where
  "name_start c \<longleftrightarrow> (let n = of_char c :: nat in 65 \<le> n \<and> n \<le> 90 \<or> 97 \<le> n \<and> n \<le> 122 \<or> n = 95)"

definition valid_name :: "string \<Rightarrow> bool" where
  "valid_name s \<longleftrightarrow> s \<noteq> [] \<and> name_start (hd s) \<and> list_all (\<lambda>c. name_start c \<or> isDigit c) s"

definition metric_ok :: "Metric \<Rightarrow> bool" where
  "metric_ok m \<longleftrightarrow> valid_name (me_Name m) \<and>
     list_all (\<lambda>l. valid_name l \<and> \<not> HasPrefix l ''__'') (me_Labels m) \<and> distinct (me_Labels m) \<and>
     (me_Kind m \<in> {CounterVec, HistogramVec} \<longleftrightarrow> me_Labels m \<noteq> []) \<and>
     (if me_Kind m \<in> {Histogram, HistogramVec}
      then me_Buckets m \<noteq> [] \<and> sorted_wrt (<) (me_Buckets m) \<and> ''le'' \<notin> set (me_Labels m)
      else me_Buckets m = [])"

section \<open>Registration\<close>

text \<open>
  The registry of the library as a parameter: whether it accepts a metric after those it holds.
  A refusal is a panic, which ends the process before \<open>main\<close>.
\<close>

type_synonym registry = "Metric list \<Rightarrow> Metric \<Rightarrow> bool"

definition promauto :: "registry \<Rightarrow> Metric list option \<Rightarrow> Metric \<Rightarrow> Metric list option" where
  "promauto accepts reg m =
    (case reg of None \<Rightarrow> None | Some ms \<Rightarrow> if accepts ms m then Some (ms @ [m]) else None)"

definition init_metrics :: "registry \<Rightarrow> Metric list \<Rightarrow> Metric list \<Rightarrow> Metric list option" where
  "init_metrics accepts before ms = foldl (promauto accepts) (Some before) ms"

definition registry_ok :: "registry \<Rightarrow> bool" where
  "registry_ok accepts \<longleftrightarrow>
     (\<forall>ms m. metric_ok m \<longrightarrow> me_Name m \<notin> me_Name ` set ms \<longrightarrow> accepts ms m)"

lemma init_metrics_accepts:
  "registry_ok accepts \<Longrightarrow> list_all metric_ok ms \<Longrightarrow> distinct (map me_Name ms) \<Longrightarrow>
   me_Name ` set before \<inter> me_Name ` set ms = {} \<Longrightarrow> init_metrics accepts before ms = Some (before @ ms)"
proof (induction ms arbitrary: before)
  case Nil
  then show ?case by (simp add: init_metrics_def)
next
  case (Cons m ms)
  then have "promauto accepts (Some before) m = Some (before @ [m])"
    unfolding registry_ok_def promauto_def by simp
  moreover have "init_metrics accepts (before @ [m]) ms = Some ((before @ [m]) @ ms)"
    by (rule Cons.IH) (use Cons.prems in auto)
  ultimately show ?case by (simp add: init_metrics_def)
qed

lemma booking_metrics_ok: "list_all metric_ok booking_metrics" "distinct (map me_Name booking_metrics)"
  by (simp_all add: booking_metrics_def metric_defs metric_ok_def valid_name_def name_start_def HasPrefix_def
      isDigit_def digit_val_def)

lemma notif_metrics_ok: "list_all metric_ok notif_metrics" "distinct (map me_Name notif_metrics)"
  by (simp_all add: notif_metrics_def metric_defs metric_ok_def valid_name_def name_start_def HasPrefix_def
      isDigit_def digit_val_def)

text \<open>The collectors of the runtime and of the process are registered by the library itself.\<close>

definition library_names :: "Metric list \<Rightarrow> bool" where
  "library_names ms \<longleftrightarrow> (\<forall>m \<in> set ms. HasPrefix (me_Name m) ''go_'' \<or> HasPrefix (me_Name m) ''process_'')"

lemma library_names_disjoint:
  assumes "library_names before" and "\<forall>n \<in> me_Name ` set ms. \<not> HasPrefix n ''go_'' \<and> \<not> HasPrefix n ''process_''"
  shows "me_Name ` set before \<inter> me_Name ` set ms = {}"
  using assms by (fastforce simp: library_names_def)

text \<open>Neither process panics over its metrics.\<close>

lemma booking_metrics_registered:
  assumes "registry_ok accepts" and "library_names before"
  shows "init_metrics accepts before booking_metrics = Some (before @ booking_metrics)"
  by (rule init_metrics_accepts [OF assms(1) booking_metrics_ok], rule library_names_disjoint [OF assms(2)])
    (simp add: booking_metrics_def metric_defs HasPrefix_def)

lemma notif_metrics_registered:
  assumes "registry_ok accepts" and "library_names before"
  shows "init_metrics accepts before notif_metrics = Some (before @ notif_metrics)"
  by (rule init_metrics_accepts [OF assms(1) notif_metrics_ok], rule library_names_disjoint [OF assms(2)])
    (simp add: notif_metrics_def metric_defs HasPrefix_def)

end
