(* ===== verification/Http.thy ===== *)
theory Http
  imports GoStrings MetricDefs
begin

text \<open>
  What the handlers of both services see of \<open>net/http\<close> and \<open>encoding/json\<close>: requests and
  responses, and decoding a JSON body into a struct.

  A body is the JSON value that the decoder reads from it (none if it is not JSON) and the
  number of bytes up to its end; the texts of JSON are not modelled.  What Go does with the
  value is: keys that match a field exactly or but for the folding of letters set that field, later ones win,
  unknown keys are skipped, \<open>null\<close> leaves a plain field alone and clears a pointer or slice,
  and a value of the wrong type is an error.  A null element of an array is the zero value; what
  Go keeps of an earlier array when a key is repeated is left out.
\<close>

section \<open>Decoding\<close>

datatype jvalue =
    JvNull
  | JvBool bool
  | JvNumber "int option"
  | JvText string
  | JvArray "jvalue list"
  | JvObject "(string \<times> jvalue) list"

type_synonym 'a field_decoder = "jvalue \<Rightarrow> 'a \<Rightarrow> 'a option"

text \<open>
  Names are compared after folding: case does not matter, and the two letters outside ASCII
  that fold to one in it are the long s (\<open>U+017F\<close>) and the Kelvin sign (\<open>U+212A\<close>), in UTF-8.
\<close>

fun fold_name :: "string \<Rightarrow> string" where
  "fold_name [] = []"
| "fold_name (c # s) =
    (if HasPrefix (c # s) [CHR 0xC5, CHR 0xBF] then CHR ''s'' # fold_name (drop 1 s)
     else if HasPrefix (c # s) [CHR 0xE2, CHR 0x84, CHR 0xAA] then CHR ''k'' # fold_name (drop 2 s)
     else lower_char c # fold_name s)"

definition lookup_field :: "(string \<times> 'a field_decoder) list \<Rightarrow> string \<Rightarrow> 'a field_decoder option" where
  "lookup_field fs k = (case map_of fs k of
      Some f \<Rightarrow> Some f
    | None \<Rightarrow> map_option snd (find (\<lambda>(n, f). fold_name n = fold_name k) fs))"

fun decode_members :: "(string \<times> 'a field_decoder) list \<Rightarrow> (string \<times> jvalue) list \<Rightarrow> 'a \<Rightarrow> 'a option" where
  "decode_members fs [] a = Some a"
| "decode_members fs ((k, v) # kvs) a =
    (case lookup_field fs k of
       None \<Rightarrow> decode_members fs kvs a
     | Some f \<Rightarrow> (case f v a of None \<Rightarrow> None | Some a' \<Rightarrow> decode_members fs kvs a'))"

definition decode_struct :: "(string \<times> 'a field_decoder) list \<Rightarrow> jvalue \<Rightarrow> 'a \<Rightarrow> 'a option" where
  "decode_struct fs v a = (case v of
      JvNull \<Rightarrow> Some a | JvObject kvs \<Rightarrow> decode_members fs kvs a | _ \<Rightarrow> None)"

text \<open>Fields of the types \<open>string\<close>, \<open>bool\<close>, \<open>*string\<close>, \<open>*int\<close> and \<open>[]int\<close>.\<close>

definition into_string :: "(string \<Rightarrow> 'a \<Rightarrow> 'a) \<Rightarrow> 'a field_decoder" where
  "into_string set_field v a = (case v of JvNull \<Rightarrow> Some a | JvText s \<Rightarrow> Some (set_field s a) | _ \<Rightarrow> None)"

definition into_bool :: "(bool \<Rightarrow> 'a \<Rightarrow> 'a) \<Rightarrow> 'a field_decoder" where
  "into_bool set_field v a = (case v of JvNull \<Rightarrow> Some a | JvBool b \<Rightarrow> Some (set_field b a) | _ \<Rightarrow> None)"

definition into_string_ptr :: "(string option \<Rightarrow> 'a \<Rightarrow> 'a) \<Rightarrow> 'a field_decoder" where
  "into_string_ptr set_field v a =
    (case v of JvNull \<Rightarrow> Some (set_field None a) | JvText s \<Rightarrow> Some (set_field (Some s) a) | _ \<Rightarrow> None)"

definition json_int :: "jvalue \<Rightarrow> int option" where
  "json_int v = (case v of JvNumber (Some n) \<Rightarrow> in_int_range n | _ \<Rightarrow> None)"

definition into_int_ptr :: "(int option \<Rightarrow> 'a \<Rightarrow> 'a) \<Rightarrow> 'a field_decoder" where
  "into_int_ptr set_field v a =
    (case v of JvNull \<Rightarrow> Some (set_field None a)
     | _ \<Rightarrow> map_option (\<lambda>n. set_field (Some n) a) (json_int v))"

definition into_int_list :: "(int list \<Rightarrow> 'a \<Rightarrow> 'a) \<Rightarrow> 'a field_decoder" where
  "into_int_list set_field v a =
    (case v of JvNull \<Rightarrow> Some (set_field [] a)
     | JvArray vs \<Rightarrow>
         map_option (\<lambda>ns. set_field ns a) (those (map (\<lambda>x. if x = JvNull then Some 0 else json_int x) vs))
     | _ \<Rightarrow> None)"

lemma json_int_range: "json_int v = Some n \<Longrightarrow> MinInt \<le> n \<and> n \<le> MaxInt"
  by (auto simp: json_int_def in_int_range_def split: jvalue.splits option.splits if_splits)

section \<open>Requests and responses\<close>

text \<open>
  The parts of a request that the handlers read; the last two are the values that the
  authorisation middleware puts into its context.
\<close>

record request =
  rq_Method :: string
  rq_Path :: string
  rq_Authorization :: string
  rq_Query :: "(string \<times> string) list"
  rq_Params :: "(string \<times> string) list"
  rq_Body :: "jvalue option"
  rq_BodyBytes :: nat
  rq_UserID :: "uuid option"
  rq_Role :: "string option"

record 'b response =
  rs_Status :: nat
  rs_Body :: 'b

definition get_param :: "(string \<times> string) list \<Rightarrow> string \<Rightarrow> string" where
  "get_param ps name = (case map_of ps name of None \<Rightarrow> '''' | Some v \<Rightarrow> v)"

definition decode_body ::
    "nat \<Rightarrow> (string \<times> 'a field_decoder) list \<Rightarrow> 'a \<Rightarrow> request \<Rightarrow> 'a option" where
  "decode_body limit fs zero r =
    (if limit < rq_BodyBytes r then None
     else case rq_Body r of None \<Rightarrow> None | Some v \<Rightarrow> decode_struct fs v zero)"

text \<open>A handler answers or panics (\<open>None\<close>).\<close>

type_synonym ('b, 'd) handler = "request \<Rightarrow> 'd world \<Rightarrow> 'b response option \<times> 'd world"

abbreviation answer :: "nat \<Rightarrow> 'b \<Rightarrow> 'd world \<Rightarrow> 'b response option \<times> 'd world" where
  "answer status b w \<equiv> (Some \<lparr> rs_Status = status, rs_Body = b \<rparr>, w)"

end
