(* ===== verification/BookingHandlers.thy ===== *)
theory BookingHandlers
  imports BookingModel Http
begin

text \<open>
  \<open>booking-service/internal/http/handlers\<close>: each handler validates its request in the order of
  the code, calls one method of a service, and turns the result into a status and a body.
\<close>

section \<open>Errors\<close>

datatype code =
    INVALID_REQUEST | UNAUTHORIZED | FORBIDDEN | NOT_FOUND | ROOM_NOT_FOUND | SLOT_NOT_FOUND
  | BOOKING_NOT_FOUND | SLOT_ALREADY_BOOKED | SCHEDULE_EXISTS | INTERNAL_ERROR

fun error_text :: "model_error \<Rightarrow> string" where
  "error_text ErrRoomNotFound = ''room not found''"
| "error_text ErrSlotNotFound = ''slot not found''"
| "error_text ErrBookingNotFound = ''booking not found''"
| "error_text ErrSlotAlreadyBooked = ''slot already booked''"
| "error_text ErrScheduleExists = ''schedule already exists''"
| "error_text ErrScheduleNotFound = ''schedule not found''"
| "error_text ErrForbidden = ''forbidden''"
| "error_text ErrSlotInPast = ''slot is in the past''"
| "error_text ErrEmailTaken = ''email already taken''"
| "error_text ErrInvalidCredentials = ''invalid credentials''"

definition mapError :: "berror \<Rightarrow> code \<times> string \<times> nat" where
  "mapError err =
    (if errors_Is err ErrRoomNotFound then (ROOM_NOT_FOUND, error_text ErrRoomNotFound, 404)
     else if errors_Is err ErrSlotNotFound then (SLOT_NOT_FOUND, error_text ErrSlotNotFound, 404)
     else if errors_Is err ErrBookingNotFound then (BOOKING_NOT_FOUND, error_text ErrBookingNotFound, 404)
     else if errors_Is err ErrSlotAlreadyBooked then (SLOT_ALREADY_BOOKED, error_text ErrSlotAlreadyBooked, 409)
     else if errors_Is err ErrScheduleNotFound then (NOT_FOUND, error_text ErrScheduleNotFound, 404)
     else if errors_Is err ErrScheduleExists then (SCHEDULE_EXISTS, error_text ErrScheduleExists, 409)
     else if errors_Is err ErrForbidden then (FORBIDDEN, error_text ErrForbidden, 403)
     else if errors_Is err ErrSlotInPast then (INVALID_REQUEST, error_text ErrSlotInPast, 400)
     else if errors_Is err ErrEmailTaken then (INVALID_REQUEST, error_text ErrEmailTaken, 400)
     else if errors_Is err ErrInvalidCredentials then (UNAUTHORIZED, error_text ErrInvalidCredentials, 401)
     else (INTERNAL_ERROR, ''internal server error'', 500))"

section \<open>Response bodies\<close>

record userResponse =
  ur_ID :: string
  ur_Email :: string
  ur_Role :: string
  ur_CreatedAt :: string

record roomResponse =
  rr_ID :: string
  rr_Name :: string
  rr_Description :: "string option"
  rr_Capacity :: "int option"
  rr_CreatedAt :: string

record scheduleResponse =
  cr_ID :: string
  cr_RoomID :: string
  cr_DaysOfWeek :: "int list"
  cr_StartTime :: string
  cr_EndTime :: string

record slotResponse =
  lr_ID :: string
  lr_RoomID :: string
  lr_Start :: string
  lr_End :: string

record bookingResponse =
  br_ID :: string
  br_SlotID :: string
  br_UserID :: string
  br_Status :: string
  br_ConferenceLink :: "string option"
  br_CreatedAt :: string

datatype payload =
    PEmpty
  | PText string
  | PError code string
  | PToken string
  | PUser userResponse
  | PRoom roomResponse
  | PRooms "roomResponse list"
  | PSchedule scheduleResponse
  | PSlots "slotResponse list"
  | PBooking bookingResponse
  | PBookings "bookingResponse list" int int int
  | PUserBookings "bookingResponse list"

definition toUserResponse :: "externals \<Rightarrow> User \<Rightarrow> userResponse" where
  "toUserResponse L u = \<lparr> ur_ID = uuid_String L (us_ID u), ur_Email = us_Email u, ur_Role = us_Role u,
     ur_CreatedAt = Format_RFC3339 (us_CreatedAt u) \<rparr>"

definition toRoomResponse :: "externals \<Rightarrow> Room \<Rightarrow> roomResponse" where
  "toRoomResponse L r = \<lparr> rr_ID = uuid_String L (rm_ID r), rr_Name = rm_Name r,
     rr_Description = rm_Description r, rr_Capacity = rm_Capacity r,
     rr_CreatedAt = Format_RFC3339 (rm_CreatedAt r) \<rparr>"

definition toScheduleResponse :: "externals \<Rightarrow> Schedule \<Rightarrow> scheduleResponse" where
  "toScheduleResponse L s = \<lparr> cr_ID = uuid_String L (sc_ID s), cr_RoomID = uuid_String L (sc_RoomID s),
     cr_DaysOfWeek = sc_DaysOfWeek s, cr_StartTime = sc_StartTime s, cr_EndTime = sc_EndTime s \<rparr>"

definition toSlotResponse :: "externals \<Rightarrow> Slot \<Rightarrow> slotResponse" where
  "toSlotResponse L s = \<lparr> lr_ID = uuid_String L (sl_ID s), lr_RoomID = uuid_String L (sl_RoomID s),
     lr_Start = Format_RFC3339 (sl_StartAt s), lr_End = Format_RFC3339 (sl_EndAt s) \<rparr>"

fun status_text :: "BookingStatus \<Rightarrow> string" where
  "status_text BookingStatusActive = ''active''"
| "status_text BookingStatusCancelled = ''cancelled''"

definition toBookingResponse :: "externals \<Rightarrow> Booking \<Rightarrow> bookingResponse" where
  "toBookingResponse L b = \<lparr> br_ID = uuid_String L (bk_ID b), br_SlotID = uuid_String L (bk_SlotID b),
     br_UserID = uuid_String L (bk_UserID b), br_Status = status_text (bk_Status b),
     br_ConferenceLink = bk_ConferenceLink b, br_CreatedAt = Format_RFC3339 (bk_CreatedAt b) \<rparr>"

section \<open>The services\<close>

record 'd Services =
  sv_DummyLogin :: "Role \<Rightarrow> 'd world \<Rightarrow> (model_error, string) result \<times> 'd world"
  sv_Register :: "string \<Rightarrow> string \<Rightarrow> Role \<Rightarrow> 'd world \<Rightarrow> (model_error, User) result \<times> 'd world"
  sv_Login :: "string \<Rightarrow> string \<Rightarrow> 'd world \<Rightarrow> (model_error, string) result \<times> 'd world"
  sv_CreateRoom :: "string \<Rightarrow> string option \<Rightarrow> int option \<Rightarrow> 'd world \<Rightarrow> (model_error, Room) result \<times> 'd world"
  sv_ListRooms :: "'d world \<Rightarrow> (model_error, Room list) result \<times> 'd world"
  sv_CreateSchedule ::
    "uuid \<Rightarrow> int list \<Rightarrow> string \<Rightarrow> string \<Rightarrow> 'd world \<Rightarrow> (model_error, Schedule) result \<times> 'd world"
  sv_ListAvailableSlots :: "uuid \<Rightarrow> time \<Rightarrow> 'd world \<Rightarrow> (model_error, Slot list) result \<times> 'd world"
  sv_CreateBooking :: "uuid \<Rightarrow> uuid \<Rightarrow> bool \<Rightarrow> 'd world \<Rightarrow> (model_error, Booking) result \<times> 'd world"
  sv_CancelBooking :: "uuid \<Rightarrow> uuid \<Rightarrow> 'd world \<Rightarrow> (model_error, Booking) result \<times> 'd world"
  sv_ListBookings :: "int \<Rightarrow> int \<Rightarrow> 'd world \<Rightarrow> (model_error, Booking list \<times> int) result \<times> 'd world"
  sv_ListUserBookings :: "uuid \<Rightarrow> 'd world \<Rightarrow> (model_error, Booking list) result \<times> 'd world"

section \<open>Helpers\<close>

definition maxBodyBytes :: nat where "maxBodyBytes = 2 ^ 20"

definition respondError :: "berror \<Rightarrow> 'd world \<Rightarrow> payload response option \<times> 'd world" where
  "respondError err w = (let (code, message, status) = mapError err in answer status (PError code message) w)"

definition bad_request :: "string \<Rightarrow> 'd world \<Rightarrow> payload response option \<times> 'd world" where
  "bad_request message w = answer 400 (PError INVALID_REQUEST message) w"

section \<open>Authentication\<close>

definition maxPasswordLen :: nat where "maxPasswordLen = 72"

record dummyLoginRequest =
  dq_Role :: string

record loginRequest =
  lg_Email :: string
  lg_Password :: string

record registerRequest =
  rg_Email :: string
  rg_Password :: string
  rg_Role :: string

definition role_fields :: "(string \<times> dummyLoginRequest field_decoder) list" where
  "role_fields = [(''role'', into_string (\<lambda>s a. a\<lparr>dq_Role := s\<rparr>))]"

definition register_fields :: "(string \<times> registerRequest field_decoder) list" where
  "register_fields = [(''email'', into_string (\<lambda>s a. a\<lparr>rg_Email := s\<rparr>)),
     (''password'', into_string (\<lambda>s a. a\<lparr>rg_Password := s\<rparr>)),
     (''role'', into_string (\<lambda>s a. a\<lparr>rg_Role := s\<rparr>))]"

definition login_fields :: "(string \<times> loginRequest field_decoder) list" where
  "login_fields = [(''email'', into_string (\<lambda>s a. a\<lparr>lg_Email := s\<rparr>)),
     (''password'', into_string (\<lambda>s a. a\<lparr>lg_Password := s\<rparr>))]"

definition dummyLogin_handler :: "'d Services \<Rightarrow> (payload, 'd) handler" where
  "dummyLogin_handler svc r w =
    (case decode_body maxBodyBytes role_fields \<lparr> dq_Role = '''' \<rparr> r of
       None \<Rightarrow> bad_request ''invalid request body'' w
     | Some req \<Rightarrow>
       (let role = dq_Role req in
        if \<not> Role_Valid role then bad_request ''role must be admin or user'' w
        else (case sv_DummyLogin svc role w of
                (Inl err, w1) \<Rightarrow> respondError err w1
              | (Inr token, w1) \<Rightarrow> answer 200 (PToken token) w1)))"

definition register_handler :: "externals \<Rightarrow> 'd Services \<Rightarrow> (payload, 'd) handler" where
  "register_handler L svc r w =
    (case decode_body maxBodyBytes register_fields \<lparr> rg_Email = '''', rg_Password = '''', rg_Role = '''' \<rparr> r of
       None \<Rightarrow> bad_request ''invalid request body'' w
     | Some req \<Rightarrow>
       (if \<not> mail_ParseAddress L (rg_Email req) then bad_request ''invalid email'' w
        else if rg_Password req = '''' then bad_request ''password is required'' w
        else if maxPasswordLen < length (rg_Password req)
          then bad_request ''password must not exceed 72 characters'' w
        else if \<not> Role_Valid (rg_Role req) then bad_request ''role must be admin or user'' w
        else (case sv_Register svc (rg_Email req) (rg_Password req) (rg_Role req) w of
                (Inl err, w1) \<Rightarrow> respondError err w1
              | (Inr user, w1) \<Rightarrow> answer 201 (PUser (toUserResponse L user)) w1)))"

definition login_handler :: "'d Services \<Rightarrow> (payload, 'd) handler" where
  "login_handler svc r w =
    (case decode_body maxBodyBytes login_fields \<lparr> lg_Email = '''', lg_Password = '''' \<rparr> r of
       None \<Rightarrow> bad_request ''invalid request body'' w
     | Some req \<Rightarrow>
       (if lg_Email req = '''' \<or> lg_Password req = ''''
          then bad_request ''email and password are required'' w
        else (case sv_Login svc (lg_Email req) (lg_Password req) w of
                (Inl err, w1) \<Rightarrow> respondError err w1
              | (Inr token, w1) \<Rightarrow> answer 200 (PToken token) w1)))"

section \<open>Rooms\<close>

definition minRoomCapacity :: int where "minRoomCapacity = 1"

record createRoomRequest =
  cq_Name :: string
  cq_Description :: "string option"
  cq_Capacity :: "int option"

definition room_fields :: "(string \<times> createRoomRequest field_decoder) list" where
  "room_fields = [(''name'', into_string (\<lambda>s a. a\<lparr>cq_Name := s\<rparr>)),
     (''description'', into_string_ptr (\<lambda>s a. a\<lparr>cq_Description := s\<rparr>)),
     (''capacity'', into_int_ptr (\<lambda>n a. a\<lparr>cq_Capacity := n\<rparr>))]"

definition createRoom_handler :: "externals \<Rightarrow> 'd Services \<Rightarrow> (payload, 'd) handler" where
  "createRoom_handler L svc r w =
    (case decode_body maxBodyBytes room_fields \<lparr> cq_Name = '''', cq_Description = None, cq_Capacity = None \<rparr> r of
       None \<Rightarrow> bad_request ''invalid request body'' w
     | Some req \<Rightarrow>
       (if cq_Name req = '''' then bad_request ''name is required'' w
        else if \<not> pred_option (\<lambda>n. minRoomCapacity \<le> n) (cq_Capacity req)
          then bad_request ''capacity must be at least 1'' w
        else (case sv_CreateRoom svc (cq_Name req) (cq_Description req) (cq_Capacity req) w of
                (Inl err, w1) \<Rightarrow> respondError err w1
              | (Inr room, w1) \<Rightarrow> answer 201 (PRoom (toRoomResponse L room)) w1)))"

definition listRooms_handler :: "externals \<Rightarrow> 'd Services \<Rightarrow> (payload, 'd) handler" where
  "listRooms_handler L svc r w =
    (case sv_ListRooms svc w of
       (Inl err, w1) \<Rightarrow> respondError err w1
     | (Inr rs, w1) \<Rightarrow> answer 200 (PRooms (map (toRoomResponse L) rs)) w1)"

section \<open>Schedules\<close>

definition minDayOfWeek :: int where "minDayOfWeek = 1"
definition maxDayOfWeek :: int where "maxDayOfWeek = 7"
definition scheduleTimeGranularity :: int where "scheduleTimeGranularity = 30"

record createScheduleRequest =
  sq_DaysOfWeek :: "int list"
  sq_StartTime :: string
  sq_EndTime :: string

definition schedule_fields :: "(string \<times> createScheduleRequest field_decoder) list" where
  "schedule_fields = [(''daysOfWeek'', into_int_list (\<lambda>ns a. a\<lparr>sq_DaysOfWeek := ns\<rparr>)),
     (''startTime'', into_string (\<lambda>s a. a\<lparr>sq_StartTime := s\<rparr>)),
     (''endTime'', into_string (\<lambda>s a. a\<lparr>sq_EndTime := s\<rparr>))]"

text \<open>The loop over the days, with the set of those seen; the message of the first bad one.\<close>

fun check_days :: "int list \<Rightarrow> int list \<Rightarrow> string option" where
  "check_days seen [] = None"
| "check_days seen (d # ds) =
    (if d < minDayOfWeek \<or> maxDayOfWeek < d then Some ''daysOfWeek values must be between 1 and 7''
     else if d \<in> set seen then Some ''daysOfWeek contains duplicate values''
     else check_days (d # seen) ds)"

definition createSchedule_handler :: "externals \<Rightarrow> 'd Services \<Rightarrow> (payload, 'd) handler" where
  "createSchedule_handler L svc r w =
    (case uuid_Parse L (get_param (rq_Params r) ''roomId'') of
       None \<Rightarrow> bad_request ''invalid roomId'' w
     | Some roomID \<Rightarrow>
       (case decode_body maxBodyBytes schedule_fields
               \<lparr> sq_DaysOfWeek = [], sq_StartTime = '''', sq_EndTime = '''' \<rparr> r of
          None \<Rightarrow> bad_request ''invalid request body'' w
        | Some req \<Rightarrow>
          (if length (sq_DaysOfWeek req) = 0 then bad_request ''daysOfWeek is required'' w
           else case check_days [] (sq_DaysOfWeek req) of
             Some message \<Rightarrow> bad_request message w
           | None \<Rightarrow>
             (case Parse_15_04 (sq_StartTime req) of
                None \<Rightarrow> bad_request ''startTime must be in HH:MM format'' w
              | Some startT \<Rightarrow>
                (case Parse_15_04 (sq_EndTime req) of
                   None \<Rightarrow> bad_request ''endTime must be in HH:MM format'' w
                 | Some endT \<Rightarrow>
                   (if minute startT mod scheduleTimeGranularity \<noteq> 0 \<or>
                       minute endT mod scheduleTimeGranularity \<noteq> 0
                    then bad_request ''startTime and endTime minutes must be 00 or 30'' w
                    else if \<not> startT < endT then bad_request ''endTime must be after startTime'' w
                    else (case sv_CreateSchedule svc roomID (sq_DaysOfWeek req) (sq_StartTime req) (sq_EndTime req) w of
                            (Inl err, w1) \<Rightarrow> respondError err w1
                          | (Inr schedule, w1) \<Rightarrow>
                              answer 201 (PSchedule (toScheduleResponse L schedule)) w1)))))))"

section \<open>Slots\<close>

definition listSlots_handler :: "externals \<Rightarrow> 'd Services \<Rightarrow> (payload, 'd) handler" where
  "listSlots_handler L svc r w =
    (case uuid_Parse L (get_param (rq_Params r) ''roomId'') of
       None \<Rightarrow> bad_request ''invalid roomId'' w
     | Some roomID \<Rightarrow>
       (let dateStr = get_param (rq_Query r) ''date'' in
        if dateStr = '''' then bad_request ''date query parameter is required'' w
        else (case Parse_2006_01_02 dateStr of
                None \<Rightarrow> bad_request ''date must be in YYYY-MM-DD format'' w
              | Some date \<Rightarrow>
                (case sv_ListAvailableSlots svc roomID date w of
                   (Inl err, w1) \<Rightarrow> respondError err w1
                 | (Inr ss, w1) \<Rightarrow> answer 200 (PSlots (map (toSlotResponse L) ss)) w1))))"

section \<open>Bookings\<close>

definition defaultPage :: int where "defaultPage = 1"
definition defaultPageSize :: int where "defaultPageSize = 20"
definition maxPageSize :: int where "maxPageSize = 100"
definition maxPage :: int where "maxPage = 10000"

record createBookingRequest =
  bq_SlotID :: string
  bq_CreateConferenceLink :: bool

definition booking_fields :: "(string \<times> createBookingRequest field_decoder) list" where
  "booking_fields = [(''slotId'', into_string (\<lambda>s a. a\<lparr>bq_SlotID := s\<rparr>)),
     (''createConferenceLink'', into_bool (\<lambda>b a. a\<lparr>bq_CreateConferenceLink := b\<rparr>))]"

text \<open>\<open>middleware.UserIDFromContext\<close> panics when the middleware is not in the chain (\<open>None\<close>).\<close>

definition booking_UserIDFromContext :: "request \<Rightarrow> uuid option" where
  [simp]: "booking_UserIDFromContext r = rq_UserID r"

definition createBooking_handler :: "externals \<Rightarrow> 'd Services \<Rightarrow> (payload, 'd) handler" where
  "createBooking_handler L svc r w =
    (case booking_UserIDFromContext r of
       None \<Rightarrow> (None, w)
     | Some userID \<Rightarrow>
       (case decode_body maxBodyBytes booking_fields
               \<lparr> bq_SlotID = '''', bq_CreateConferenceLink = False \<rparr> r of
          None \<Rightarrow> bad_request ''invalid request body'' w
        | Some req \<Rightarrow>
          (case uuid_Parse L (bq_SlotID req) of
             None \<Rightarrow> bad_request ''invalid slotId'' w
           | Some slotID \<Rightarrow>
             (case sv_CreateBooking svc slotID userID (bq_CreateConferenceLink req) w of
                (Inl err, w1) \<Rightarrow>
                  respondError err (if errors_Is err ErrSlotAlreadyBooked
                                    then counter_Add (me_Name SlotConflictsTotal) 1 w1 else w1)
              | (Inr booking, w1) \<Rightarrow> answer 201 (PBooking (toBookingResponse L booking)) w1))))"

definition cancelBooking_handler :: "externals \<Rightarrow> 'd Services \<Rightarrow> (payload, 'd) handler" where
  "cancelBooking_handler L svc r w =
    (case booking_UserIDFromContext r of
       None \<Rightarrow> (None, w)
     | Some userID \<Rightarrow>
       (case uuid_Parse L (get_param (rq_Params r) ''bookingId'') of
          None \<Rightarrow> bad_request ''invalid bookingId'' w
        | Some bookingID \<Rightarrow>
          (case sv_CancelBooking svc bookingID userID w of
             (Inl err, w1) \<Rightarrow> respondError err w1
           | (Inr booking, w1) \<Rightarrow> answer 200 (PBooking (toBookingResponse L booking)) w1)))"

definition parsePagination :: "request \<Rightarrow> string + (int \<times> int)" where
  "parsePagination r =
    (let v = get_param (rq_Query r) ''page'';
         page = (if v = '''' then Some defaultPage
                 else case Atoi v of None \<Rightarrow> None
                      | Some p \<Rightarrow> if p < 1 \<or> maxPage < p then None else Some p)
     in case page of
          None \<Rightarrow> Inl ''page must be a positive integer up to 10000''
        | Some page \<Rightarrow>
          (let v = get_param (rq_Query r) ''pageSize'';
               pageSize = (if v = '''' then Some defaultPageSize
                           else case Atoi v of None \<Rightarrow> None
                                | Some ps \<Rightarrow> if ps < 1 \<or> maxPageSize < ps then None else Some ps)
           in case pageSize of
                None \<Rightarrow> Inl ''pageSize must be between 1 and 100''
              | Some pageSize \<Rightarrow> Inr (page, pageSize)))"

definition listBookings_handler :: "externals \<Rightarrow> 'd Services \<Rightarrow> (payload, 'd) handler" where
  "listBookings_handler L svc r w =
    (case parsePagination r of
       Inl message \<Rightarrow> bad_request message w
     | Inr (page, pageSize) \<Rightarrow>
       (case sv_ListBookings svc page pageSize w of
          (Inl err, w1) \<Rightarrow> respondError err w1
        | (Inr (bs, n), w1) \<Rightarrow>
            answer 200 (PBookings (map (toBookingResponse L) bs) page pageSize n) w1))"

definition listUserBookings_handler :: "externals \<Rightarrow> 'd Services \<Rightarrow> (payload, 'd) handler" where
  "listUserBookings_handler L svc r w =
    (case booking_UserIDFromContext r of
       None \<Rightarrow> (None, w)
     | Some userID \<Rightarrow>
       (case sv_ListUserBookings svc userID w of
          (Inl err, w1) \<Rightarrow> respondError err w1
        | (Inr bs, w1) \<Rightarrow> answer 200 (PUserBookings (map (toBookingResponse L) bs)) w1))"

definition InfoHandler :: "(payload, 'd) handler" where
  "InfoHandler r w = answer 200 PEmpty w"

end
