(* ===== verification/CatalogRepo.thy ===== *)
theory CatalogRepo
  imports BookingModel
begin

text \<open>
  Rooms, schedules and users in PostgreSQL: \<open>internal/repo/room/room.go\<close>,
  \<open>internal/repo/schedule/schedule.go\<close> and \<open>internal/repo/auth/auth.go\<close> of the booking
  service.
\<close>

section \<open>Rooms\<close>

text \<open>
  The capacity is a Go \<open>int\<close>, its column an \<open>INTEGER\<close> of 32 bits: the driver refuses to
  encode a number that does not fit.
\<close>

definition fits_int4 :: "int \<Rightarrow> bool" where
  "fits_int4 n \<longleftrightarrow> - (2 ^ 31) \<le> n \<and> n < 2 ^ 31"

definition insert_room ::
    "time \<Rightarrow> uuid \<Rightarrow> string \<Rightarrow> string option \<Rightarrow> int option \<Rightarrow> BookingDB \<Rightarrow> db_error + (Room \<times> BookingDB)" where
  "insert_room now rid name description capacity db =
    (if \<not> pred_option fits_int4 capacity then Inl (ConnError ''unable to encode into int4'')
     else if rid \<in> rm_ID ` set (rooms db) then Inl (PgError UniqueViolation ''rooms_pkey'')
     else let r = \<lparr> rm_ID = rid, rm_Name = name, rm_Description = description,
                    rm_Capacity = capacity, rm_CreatedAt = now \<rparr>
          in Inr (r, db\<lparr>rooms := rooms db @ [r]\<rparr>))"

definition CreateRoom_repo ::
    "string \<Rightarrow> string option \<Rightarrow> int option \<Rightarrow> BookingDB world \<Rightarrow> (model_error, Room) result \<times> BookingDB world" where
  "CreateRoom_repo name description capacity w =
    (let (now, w1) = time_Now w; (rid, w2) = uuid_New w1 in
     case exec_stmt (insert_room now rid name description capacity) w2 of
       (Inl e, w3) \<Rightarrow> (Inl (Wrap ''create room'' (DbError e)), w3)
     | (Inr r, w3) \<Rightarrow> (Inr r, w3))"

definition room_exists :: "uuid \<Rightarrow> BookingDB \<Rightarrow> bool" where
  "room_exists roomID db \<longleftrightarrow> roomID \<in> rm_ID ` set (rooms db)"

definition RoomExists_repo ::
    "uuid \<Rightarrow> BookingDB world \<Rightarrow> (model_error, bool) result \<times> BookingDB world" where
  "RoomExists_repo roomID w =
    (case exec_stmt (query (\<lambda>db. Inr (room_exists roomID db))) w of
       (Inl e, w1) \<Rightarrow> (Inl (Wrap ''room exists'' (DbError e)), w1)
     | (Inr b, w1) \<Rightarrow> (Inr b, w1))"

definition select_rooms :: "BookingDB \<Rightarrow> db_error + Room list" where
  "select_rooms db = Inr (sort_key rm_CreatedAt (rooms db))"

definition ListRooms_repo :: "BookingDB world \<Rightarrow> (model_error, Room list) result \<times> BookingDB world" where
  "ListRooms_repo w = query_rows ''list rooms'' ''list rooms rows'' select_rooms w"

section \<open>Schedules\<close>

text \<open>
  The conversion \<open>int32(d)\<close> wraps around.  The cast \<open>$3::time\<close> is modelled on the times the
  handler lets through (\<open>time.Parse("15:04", _)\<close> accepts them); the server rejects a string
  that is not a time.
\<close>

definition int32 :: "int \<Rightarrow> int" where
  "int32 n = signed_take_bit 31 n"

definition insert_schedule ::
    "time \<Rightarrow> uuid \<Rightarrow> uuid \<Rightarrow> int list \<Rightarrow> string \<Rightarrow> string \<Rightarrow> BookingDB \<Rightarrow>
     db_error + (ScheduleRow \<times> BookingDB)" where
  "insert_schedule now sid roomID days startTime endTime db =
    (case (Parse_15_04 startTime, Parse_15_04 endTime) of
       (Some st, Some en) \<Rightarrow>
         (if days = [] then Inl (PgError CheckViolation ''schedules_days_of_week_check'')
          else if \<not> st < en then Inl (PgError CheckViolation ''schedules_check'')
          else if sid \<in> sr_id ` set (schedules db) then Inl (PgError UniqueViolation ''schedules_pkey'')
          else if roomID \<in> sr_room_id ` set (schedules db) then
            Inl (PgError UniqueViolation ''schedules_room_id_key'')
          else if roomID \<notin> rm_ID ` set (rooms db) then
            Inl (PgError ForeignKeyViolation ''schedules_room_id_fkey'')
          else let r = \<lparr> sr_id = sid, sr_room_id = roomID, sr_days_of_week = days,
                         sr_start_time = st, sr_end_time = en, sr_created_at = now \<rparr>
               in Inr (r, db\<lparr>schedules := schedules db @ [r]\<rparr>))
     | _ \<Rightarrow> Inl (PgError (OtherCode ''22007'') ''''))"

text \<open>A row as the queries return it, with \<open>TO_CHAR(_, 'HH24:MI')\<close> of the times.\<close>

definition scan_schedule :: "ScheduleRow \<Rightarrow> Schedule" where
  "scan_schedule r = \<lparr> sc_ID = sr_id r, sc_RoomID = sr_room_id r, sc_DaysOfWeek = sr_days_of_week r,
     sc_StartTime = to_char_HH24_MI (sr_start_time r), sc_EndTime = to_char_HH24_MI (sr_end_time r),
     sc_CreatedAt = sr_created_at r \<rparr>"

definition create_schedule_error :: "db_error \<Rightarrow> berror" where
  "create_schedule_error e =
    (case as_PgError (DbError e :: berror) of
       Some (ForeignKeyViolation, n) \<Rightarrow> Wrap ''create schedule'' (Sentinel ErrRoomNotFound)
     | Some (UniqueViolation, n) \<Rightarrow> Wrap ''create schedule'' (Sentinel ErrScheduleExists)
     | _ \<Rightarrow> Wrap ''create schedule'' (DbError e))"

definition CreateSchedule_repo ::
    "uuid \<Rightarrow> int list \<Rightarrow> string \<Rightarrow> string \<Rightarrow> BookingDB world \<Rightarrow>
     (model_error, Schedule) result \<times> BookingDB world" where
  "CreateSchedule_repo roomID daysOfWeek startTime endTime w =
    (let (now, w1) = time_Now w; (sid, w2) = uuid_New w1 in
     case exec_stmt (insert_schedule now sid roomID (map int32 daysOfWeek) startTime endTime) w2 of
       (Inl e, w3) \<Rightarrow> (Inl (create_schedule_error e), w3)
     | (Inr r, w3) \<Rightarrow> (Inr (scan_schedule r), w3))"

definition select_schedule :: "uuid \<Rightarrow> BookingDB \<Rightarrow> db_error + Schedule" where
  "select_schedule roomID db =
    (case find_by sr_room_id roomID (schedules db) of
       None \<Rightarrow> Inl ErrNoRows | Some r \<Rightarrow> Inr (scan_schedule r))"

definition GetScheduleByRoomID_repo ::
    "uuid \<Rightarrow> BookingDB world \<Rightarrow> (model_error, Schedule) result \<times> BookingDB world" where
  "GetScheduleByRoomID_repo roomID w =
    (case exec_stmt (query (select_schedule roomID)) w of
       (Inl e, w1) \<Rightarrow>
         (if is_ErrNoRows (DbError e :: berror)
          then (Inl (Wrap ''get schedule by room'' (Sentinel ErrScheduleNotFound)), w1)
          else (Inl (Wrap ''get schedule by room'' (DbError e)), w1))
     | (Inr s, w1) \<Rightarrow> (Inr s, w1))"

section \<open>Users\<close>

definition select_user :: "string \<Rightarrow> BookingDB \<Rightarrow> db_error + User" where
  "select_user email db =
    (case find_by us_Email email (users db) of None \<Rightarrow> Inl ErrNoRows | Some u \<Rightarrow> Inr u)"

definition GetUserByEmail_repo ::
    "string \<Rightarrow> BookingDB world \<Rightarrow> (model_error, User) result \<times> BookingDB world" where
  "GetUserByEmail_repo email w =
    (case exec_stmt (query (select_user email)) w of
       (Inl e, w1) \<Rightarrow>
         (if is_ErrNoRows (DbError e :: berror)
          then (Inl (Wrap ''get user by email'' (Sentinel ErrInvalidCredentials)), w1)
          else (Inl (Wrap ''get user by email'' (DbError e)), w1))
     | (Inr u, w1) \<Rightarrow> (Inr u, w1))"

definition insert_user ::
    "time \<Rightarrow> uuid \<Rightarrow> string \<Rightarrow> string \<Rightarrow> Role \<Rightarrow> BookingDB \<Rightarrow> db_error + (User \<times> BookingDB)" where
  "insert_user now uid email passwordHash role db =
    (if \<not> Role_Valid role then Inl (PgError CheckViolation ''users_role_check'')
     else if uid \<in> us_ID ` set (users db) then Inl (PgError UniqueViolation ''users_pkey'')
     else if email \<in> us_Email ` set (users db) then Inl (PgError UniqueViolation ''users_email_key'')
     else let u = \<lparr> us_ID = uid, us_Email = email, us_Password = Some passwordHash,
                    us_Role = role, us_CreatedAt = now \<rparr>
          in Inr (u, db\<lparr>users := users db @ [u]\<rparr>))"

definition create_user_error :: "db_error \<Rightarrow> berror" where
  "create_user_error e =
    (case as_PgError (DbError e :: berror) of
       Some (UniqueViolation, n) \<Rightarrow> Wrap ''create user'' (Sentinel ErrEmailTaken)
     | _ \<Rightarrow> Wrap ''create user'' (DbError e))"

definition CreateUser_repo ::
    "string \<Rightarrow> string \<Rightarrow> Role \<Rightarrow> BookingDB world \<Rightarrow> (model_error, User) result \<times> BookingDB world" where
  "CreateUser_repo email passwordHash role w =
    (let (now, w1) = time_Now w; (uid, w2) = uuid_New w1 in
     case exec_stmt (insert_user now uid email passwordHash role) w2 of
       (Inl e, w3) \<Rightarrow> (Inl (create_user_error e), w3)
     | (Inr u, w3) \<Rightarrow> (Inr u, w3))"

section \<open>Effects\<close>

lemma insert_room_InrE:
  assumes "insert_room now rid name d c db = Inr (r, db')"
  obtains "rid \<notin> rm_ID ` set (rooms db)" "db' = db\<lparr>rooms := rooms db @ [r]\<rparr>"
    "r = \<lparr> rm_ID = rid, rm_Name = name, rm_Description = d, rm_Capacity = c, rm_CreatedAt = now \<rparr>"
proof -
  have "rid \<notin> rm_ID ` set (rooms db)" using assms by (simp add: insert_room_def split: if_splits)
  moreover from assms have "db' = db\<lparr>rooms := rooms db @ [r]\<rparr>"
    by (auto simp add: insert_room_def Let_def split: if_splits)
  moreover from assms have
    "r = \<lparr> rm_ID = rid, rm_Name = name, rm_Description = d, rm_Capacity = c, rm_CreatedAt = now \<rparr>"
    by (simp add: insert_room_def Let_def split: if_splits)
  ultimately show thesis by (rule that)
qed

lemma insert_schedule_InrE:
  assumes "insert_schedule now sid roomID days st en db = Inr (r, db')"
  obtains t1 t2 where "Parse_15_04 st = Some t1" "Parse_15_04 en = Some t2" "t1 < t2" "days \<noteq> []"
    "sid \<notin> sr_id ` set (schedules db)" "roomID \<notin> sr_room_id ` set (schedules db)"
    "roomID \<in> rm_ID ` set (rooms db)" "db' = db\<lparr>schedules := schedules db @ [r]\<rparr>"
    "r = \<lparr> sr_id = sid, sr_room_id = roomID, sr_days_of_week = days,
           sr_start_time = t1, sr_end_time = t2, sr_created_at = now \<rparr>"
  using assms by (auto simp: insert_schedule_def Let_def split: option.splits if_splits)

lemma insert_user_InrE:
  assumes "insert_user now uid email h role db = Inr (u, db')"
  obtains "Role_Valid role" "uid \<notin> us_ID ` set (users db)" "email \<notin> us_Email ` set (users db)"
    "db' = db\<lparr>users := users db @ [u]\<rparr>"
    "u = \<lparr> us_ID = uid, us_Email = email, us_Password = Some h, us_Role = role, us_CreatedAt = now \<rparr>"
proof -
  have "Role_Valid role" "uid \<notin> us_ID ` set (users db)" "email \<notin> us_Email ` set (users db)"
    using assms by (simp_all add: insert_user_def split: if_splits)
  moreover from assms have "db' = db\<lparr>users := users db @ [u]\<rparr>"
    by (auto simp add: insert_user_def Let_def split: if_splits)
  moreover from assms have
    "u = \<lparr> us_ID = uid, us_Email = email, us_Password = Some h, us_Role = role, us_CreatedAt = now \<rparr>"
    by (simp add: insert_user_def Let_def split: if_splits)
  ultimately show thesis by (rule that)
qed

lemma insert_room_ok: "db_ok db \<Longrightarrow> insert_room now rid name d c db = Inr (r, db') \<Longrightarrow> db_ok db'"
  by (erule insert_room_InrE) (auto simp: db_ok_defs list_all_iff)

lemma insert_schedule_ok:
  "db_ok db \<Longrightarrow> insert_schedule now sid roomID days st en db = Inr (r, db') \<Longrightarrow> db_ok db'"
  by (erule insert_schedule_InrE) (auto simp: db_ok_defs list_all_iff)

lemma insert_user_ok:
  "db_ok db \<Longrightarrow> insert_user now uid email h role db = Inr (u, db') \<Longrightarrow> db_ok db'"
  by (erule insert_user_InrE) (auto simp: db_ok_defs list_all_iff)

text \<open>
  Each method that writes runs one statement; whatever the reply was, the tables are as they
  were or as the statement leaves them.
\<close>

lemma CreateRoom_repo_effect:
  "CreateRoom_repo name d c w = (r, w') \<Longrightarrow>
   store w' = store w \<or> (\<exists>now rid room. insert_room now rid name d c (store w) = Inr (room, store w'))"
  by (auto simp: CreateRoom_repo_def Let_def split: prod.splits sum.splits
      dest!: exec_stmt_effect time_Now_storeD uuid_New_storeD)

lemma CreateSchedule_repo_effect:
  "CreateSchedule_repo roomID days st en w = (r, w') \<Longrightarrow>
   store w' = store w \<or>
   (\<exists>now sid row. insert_schedule now sid roomID (map int32 days) st en (store w) = Inr (row, store w'))"
  by (auto simp: CreateSchedule_repo_def Let_def split: prod.splits sum.splits
      dest!: exec_stmt_effect time_Now_storeD uuid_New_storeD)

lemma CreateUser_repo_effect:
  "CreateUser_repo email h role w = (r, w') \<Longrightarrow>
   store w' = store w \<or> (\<exists>now uid u. insert_user now uid email h role (store w) = Inr (u, store w'))"
  by (auto simp: CreateUser_repo_def Let_def split: prod.splits sum.splits
      dest!: exec_stmt_effect time_Now_storeD uuid_New_storeD)

lemma catalog_reads_store:
  "RoomExists_repo roomID w = (r1, w') \<Longrightarrow> store w' = store w"
  "ListRooms_repo w = (r2, w') \<Longrightarrow> store w' = store w"
  "GetScheduleByRoomID_repo roomID w = (r3, w') \<Longrightarrow> store w' = store w"
  "GetUserByEmail_repo email w = (r4, w') \<Longrightarrow> store w' = store w"
  by (auto simp: RoomExists_repo_def ListRooms_repo_def GetScheduleByRoomID_repo_def
      GetUserByEmail_repo_def split: prod.splits sum.splits if_splits
      dest!: exec_query_store query_rows_store)

lemma CreateRoom_repo_ok: "CreateRoom_repo name d c w = (r, w') \<Longrightarrow> db_ok (store w) \<Longrightarrow> db_ok (store w')"
  by (auto dest!: CreateRoom_repo_effect intro: insert_room_ok)

lemma CreateSchedule_repo_ok:
  "CreateSchedule_repo roomID days st en w = (r, w') \<Longrightarrow> db_ok (store w) \<Longrightarrow> db_ok (store w')"
  by (auto dest!: CreateSchedule_repo_effect intro: insert_schedule_ok)

lemma CreateUser_repo_ok:
  "CreateUser_repo email h role w = (r, w') \<Longrightarrow> db_ok (store w) \<Longrightarrow> db_ok (store w')"
  by (auto dest!: CreateUser_repo_effect intro: insert_user_ok)

text \<open>The numbers the handler lets through survive \<open>int32\<close>.\<close>

lemma int32_small: "- (2 ^ 31) \<le> n \<Longrightarrow> n < 2 ^ 31 \<Longrightarrow> int32 n = n"
  by (simp add: int32_def signed_take_bit_int_eq_self)

end
