(* ===== verification/SlotContract.thy ===== *)
theory SlotContract
  imports BookingModel
begin

text \<open>
  What the slot service asks of its repositories (\<open>internal/service/slot/contract.go\<close>): the
  methods as a record of functions, and as a locale the laws that the service relies on.  The
  laws speak of the slot table and of the slots that are taken, whatever the store is.
\<close>

section \<open>The methods\<close>

record 'd SlotDeps =
  dep_RoomExists :: "uuid \<Rightarrow> 'd world \<Rightarrow> (model_error, bool) result \<times> 'd world"
  dep_GetScheduleByRoomID :: "uuid \<Rightarrow> 'd world \<Rightarrow> (model_error, Schedule) result \<times> 'd world"
  dep_EnsureSlots :: "Slot list \<Rightarrow> 'd world \<Rightarrow> (model_error, unit) result \<times> 'd world"
  dep_ListAvailableByRoomAndDate ::
    "uuid \<Rightarrow> time \<Rightarrow> time \<Rightarrow> 'd world \<Rightarrow> (model_error, Slot list) result \<times> 'd world"

definition slot_key :: "Slot \<Rightarrow> uuid \<times> time" where
  "slot_key s = (sl_RoomID s, sl_StartAt s)"

section \<open>The laws\<close>

locale slot_backend =
  fixes D :: "'d SlotDeps"
    and inv :: "'d \<Rightarrow> bool"
    and slot_table :: "'d \<Rightarrow> Slot list"
    and taken :: "'d \<Rightarrow> uuid \<Rightarrow> bool"
  assumes room_exists_reads: "dep_RoomExists D roomID w = (r1, w') \<Longrightarrow> store w' = store w"
    and get_schedule_reads: "dep_GetScheduleByRoomID D roomID w = (r2, w') \<Longrightarrow> store w' = store w"
    and list_reads: "dep_ListAvailableByRoomAndDate D roomID from to w = (r3, w') \<Longrightarrow> store w' = store w"
    and list_returns:
      "dep_ListAvailableByRoomAndDate D roomID from to w = (Inr ss, w') \<Longrightarrow> inv (store w) \<Longrightarrow>
       set ss = {s \<in> set (slot_table (store w)). sl_RoomID s = roomID \<and> from \<le> sl_StartAt s \<and>
                   sl_StartAt s < to \<and> \<not> taken (store w) (sl_ID s)} \<and>
       sorted (map sl_StartAt ss) \<and> distinct (map slot_key ss)"
    and ensure_keeps: "dep_EnsureSlots D ss w = (r4, w') \<Longrightarrow> inv (store w) \<Longrightarrow> inv (store w')"
    and ensure_adds:
      "dep_EnsureSlots D ss w = (Inr u, w') \<Longrightarrow> inv (store w) \<Longrightarrow>
       slot_key ` set (slot_table (store w')) = slot_key ` set (slot_table (store w)) \<union> slot_key ` set ss"
    and ensure_appends:
      "dep_EnsureSlots D ss w = (r4, w') \<Longrightarrow> inv (store w) \<Longrightarrow>
       \<exists>new. slot_table (store w') = slot_table (store w) @ new \<and> set new \<subseteq> set ss \<and>
             slot_key ` set new \<inter> slot_key ` set (slot_table (store w)) = {}"
    and ensure_taken: "dep_EnsureSlots D ss w = (r4, w') \<Longrightarrow> taken (store w') = taken (store w)"

end
