(* ===== verification/SlotRepo.thy ===== *)
theory SlotRepo
  imports CatalogRepo SlotContract
begin

text \<open>
  \<open>booking-service/internal/repo/slot/slot.go\<close>: slots in PostgreSQL, inserted in batches that
  skip the slots that exist, and read back without the booked ones.
\<close>

section \<open>Statements\<close>

definition select_slot :: "uuid \<Rightarrow> BookingDB \<Rightarrow> db_error + Slot" where
  "select_slot sid db =
    (case find_by sl_ID sid (slots db) of None \<Rightarrow> Inl ErrNoRows | Some s \<Rightarrow> Inr s)"

text \<open>
  \<open>INSERT ... SELECT * FROM unnest(...) ON CONFLICT (room_id, start_at) DO NOTHING\<close>: row by
  row, the check constraint, then the conflict target, then the primary key; the foreign
  keys of the new rows at the end.  A rejected row rejects the statement.
\<close>

fun insert_slots :: "Slot list \<Rightarrow> Slot list \<Rightarrow> db_error + Slot list" where
  "insert_slots table [] = Inr table"
| "insert_slots table (s # ss) =
    (if \<not> sl_StartAt s < sl_EndAt s then Inl (PgError CheckViolation ''slots_check'')
     else if slot_key s \<in> slot_key ` set table then insert_slots table ss
     else if sl_ID s \<in> sl_ID ` set table then Inl (PgError UniqueViolation ''slots_pkey'')
     else insert_slots (table @ [s]) ss)"

definition ensure_slots :: "Slot list \<Rightarrow> BookingDB \<Rightarrow> db_error + (unit \<times> BookingDB)" where
  "ensure_slots ss db =
    (case insert_slots (slots db) ss of
       Inl e \<Rightarrow> Inl e
     | Inr table \<Rightarrow>
         (if \<forall>s \<in> set (drop (length (slots db)) table). sl_RoomID s \<in> rm_ID ` set (rooms db)
          then Inr ((), db\<lparr>slots := table\<rparr>)
          else Inl (PgError ForeignKeyViolation ''slots_room_id_fkey'')))"

text \<open>The left join with the active bookings, keeping the slots without a partner.\<close>

definition select_available :: "uuid \<Rightarrow> time \<Rightarrow> time \<Rightarrow> BookingDB \<Rightarrow> db_error + Slot list" where
  "select_available roomID from to db =
    Inr (sort_key sl_StartAt
      (filter (\<lambda>s. sl_RoomID s = roomID \<and> from \<le> sl_StartAt s \<and> sl_StartAt s < to \<and>
                   \<not> list_ex (\<lambda>b. bk_SlotID b = sl_ID s \<and> active b) (bookings db))
        (slots db)))"

section \<open>Repository methods\<close>

definition GetSlotByID_repo ::
    "uuid \<Rightarrow> BookingDB world \<Rightarrow> (model_error, Slot) result \<times> BookingDB world" where
  "GetSlotByID_repo sid w =
    (case exec_stmt (query (select_slot sid)) w of
       (Inl e, w1) \<Rightarrow>
         (if is_ErrNoRows (DbError e :: berror) then (Inl (Wrap ''get slot by id'' (Sentinel ErrSlotNotFound)), w1)
          else (Inl (Wrap ''get slot by id'' (DbError e)), w1))
     | (Inr s, w1) \<Rightarrow> (Inr s, w1))"

definition EnsureSlots_repo ::
    "Slot list \<Rightarrow> BookingDB world \<Rightarrow> (model_error, unit) result \<times> BookingDB world" where
  "EnsureSlots_repo ss w =
    (if length ss = 0 then (Inr (), w)
     else (case exec_stmt (ensure_slots ss) w of
             (Inl e, w1) \<Rightarrow> (Inl (Wrap ''ensure slots'' (DbError e)), w1)
           | (Inr _, w1) \<Rightarrow> (Inr (), w1)))"

definition ListAvailableByRoomAndDate_repo ::
    "uuid \<Rightarrow> time \<Rightarrow> time \<Rightarrow> BookingDB world \<Rightarrow> (model_error, Slot list) result \<times> BookingDB world" where
  "ListAvailableByRoomAndDate_repo roomID from to w =
    query_rows ''list available slots'' ''list available slots rows'' (select_available roomID from to) w"

section \<open>Effects\<close>

lemma GetSlotByID_repo_store: "GetSlotByID_repo sid w = (r, w') \<Longrightarrow> store w' = store w"
  by (auto simp: GetSlotByID_repo_def split: prod.splits sum.splits if_splits dest!: exec_query_store)

lemma ListAvailable_repo_store:
  "ListAvailableByRoomAndDate_repo roomID from to w = (r, w') \<Longrightarrow> store w' = store w"
  by (auto simp: ListAvailableByRoomAndDate_repo_def dest!: query_rows_store)

lemma EnsureSlots_repo_effect:
  assumes "EnsureSlots_repo ss w = (r, w')"
  shows "store w' = store w \<or> ensure_slots ss (store w) = Inr ((), store w')"
    and "r = Inr u \<Longrightarrow> ss \<noteq> [] \<Longrightarrow> ensure_slots ss (store w) = Inr ((), store w')"
  using assms
  by (auto simp: EnsureSlots_repo_def split: prod.splits sum.splits if_splits
      elim!: exec_stmt_InrE exec_stmt_InlE)

text \<open>The new table: the old rows stay in front, every requested key is present, and a row is
  new only for a requested slot whose key was absent.\<close>

lemma insert_slots_append:
  "insert_slots table ss = Inr table' \<Longrightarrow> \<exists>new. table' = table @ new \<and> set new \<subseteq> set ss"
proof (induction table ss arbitrary: table' rule: insert_slots.induct)
  case (1 table)
  then show ?case by simp
next
  case (2 table s ss)
  show ?case
  proof (cases "slot_key s \<in> slot_key ` set table")
    case True
    with 2 show ?thesis by (auto split: if_splits)
  next
    case False
    with "2.prems" have "insert_slots (table @ [s]) ss = Inr table'" by (simp split: if_splits)
    moreover have "sl_StartAt s < sl_EndAt s" "sl_ID s \<notin> sl_ID ` set table"
      using False "2.prems" by (auto split: if_splits)
    ultimately obtain new where "table' = (table @ [s]) @ new" "set new \<subseteq> set ss"
      using "2.IH"(2) False by blast
    then show ?thesis by (intro exI [of _ "s # new"]) auto
  qed
qed

lemma insert_slots_keys:
  "insert_slots table ss = Inr table' \<Longrightarrow> slot_key ` set table' = slot_key ` set table \<union> slot_key ` set ss"
proof (induction table ss arbitrary: table' rule: insert_slots.induct)
  case (1 table)
  then show ?case by simp
next
  case (2 table s ss)
  from "2.prems" have span: "sl_StartAt s < sl_EndAt s" by (simp split: if_splits)
  show ?case
  proof (cases "slot_key s \<in> slot_key ` set table")
    case True
    then have "slot_key ` set table' = slot_key ` set table \<union> slot_key ` set ss"
      using "2.IH"(1) "2.prems" span by simp
    then show ?thesis using True by (simp add: insert_absorb)
  next
    case False
    with "2.prems" span have "sl_ID s \<notin> sl_ID ` set table" by (simp split: if_splits)
    then have "slot_key ` set table' = slot_key ` set (table @ [s]) \<union> slot_key ` set ss"
      using "2.IH"(2) "2.prems" span False by simp
    then show ?thesis by simp
  qed
qed

lemma insert_slots_distinct:
  "insert_slots table ss = Inr table' \<Longrightarrow> distinct (map sl_ID table) \<Longrightarrow> distinct (map slot_key table) \<Longrightarrow>
   distinct (map sl_ID table') \<and> distinct (map slot_key table')"
  by (induction table ss arbitrary: table' rule: insert_slots.induct) (auto split: if_splits)

lemma insert_slots_nonempty_spans:
  "insert_slots table ss = Inr table' \<Longrightarrow> s \<in> set ss \<Longrightarrow> sl_StartAt s < sl_EndAt s"
  by (induction table ss arbitrary: table' rule: insert_slots.induct) (auto split: if_splits)

lemma insert_slots_present:
  "(\<And>s. s \<in> set ss \<Longrightarrow> sl_StartAt s < sl_EndAt s) \<Longrightarrow>
   slot_key ` set ss \<subseteq> slot_key ` set table \<Longrightarrow> insert_slots table ss = Inr table"
  by (induction ss) auto

lemma insert_slots_fresh:
  assumes "\<And>s. s \<in> set ss \<Longrightarrow> sl_StartAt s < sl_EndAt s"
    and "distinct (map sl_ID ss)" and "sl_ID ` set ss \<inter> sl_ID ` set table = {}"
  shows "\<exists>table'. insert_slots table ss = Inr table'"
  using assms
proof (induction ss arbitrary: table)
  case Nil
  then show ?case by simp
next
  case (Cons s ss)
  show ?case
  proof (cases "slot_key s \<in> slot_key ` set table")
    case True
    moreover have "\<exists>table'. insert_slots table ss = Inr table'"
      by (rule Cons.IH) (use Cons.prems in auto)
    ultimately show ?thesis using Cons.prems(1) by simp
  next
    case False
    moreover have "\<exists>table'. insert_slots (table @ [s]) ss = Inr table'"
      by (rule Cons.IH) (use Cons.prems in auto)
    ultimately show ?thesis using Cons.prems by auto
  qed
qed

lemma ensure_slots_InrE:
  assumes "ensure_slots ss db = Inr (u, db')"
  obtains new where "insert_slots (slots db) ss = Inr (slots db @ new)" "set new \<subseteq> set ss"
    "db' = db\<lparr>slots := slots db @ new\<rparr>" "\<forall>s \<in> set new. sl_RoomID s \<in> rm_ID ` set (rooms db)"
  using assms
  by (auto simp: ensure_slots_def split: sum.splits if_splits dest!: insert_slots_append)

lemma ensure_slots_ok:
  assumes "db_ok db" "ensure_slots ss db = Inr (u, db')"
  shows "db_ok db'"
  using assms(2)
proof (rule ensure_slots_InrE)
  fix new
  assume i: "insert_slots (slots db) ss = Inr (slots db @ new)" "set new \<subseteq> set ss"
    and db': "db' = db\<lparr>slots := slots db @ new\<rparr>"
    and fk: "\<forall>s \<in> set new. sl_RoomID s \<in> rm_ID ` set (rooms db)"
  have d: "distinct (map sl_ID (slots db @ new)) \<and> distinct (map slot_key (slots db @ new))"
    by (rule insert_slots_distinct [OF i(1)]) (use assms(1) in \<open>simp_all add: db_ok_defs slot_key_def [abs_def]\<close>)
  have "slots_ok db'"
    using assms(1) d fk insert_slots_nonempty_spans [OF i(1)] i(2)
    unfolding db' slots_ok_def db_ok_def by (auto simp: list_all_iff slot_key_def [abs_def])
  moreover have "bookings_ok db'" using assms(1) by (auto simp: db' db_ok_defs list_all_iff)
  ultimately show ?thesis using assms(1) by (simp add: db' db_ok_defs)
qed

lemma EnsureSlots_repo_ok: "EnsureSlots_repo ss w = (r, w') \<Longrightarrow> db_ok (store w) \<Longrightarrow> db_ok (store w')"
  by (auto dest!: EnsureSlots_repo_effect(1) intro: ensure_slots_ok)

section \<open>The contract is met\<close>

lemma insert_slots_new_keys:
  "insert_slots table ss = Inr (table @ new) \<Longrightarrow> distinct (map sl_ID table) \<Longrightarrow> distinct (map slot_key table) \<Longrightarrow>
   slot_key ` set new \<inter> slot_key ` set table = {}"
  by (drule insert_slots_distinct) auto

definition pg_slot_deps :: "BookingDB SlotDeps" where
  "pg_slot_deps = \<lparr> dep_RoomExists = RoomExists_repo,
     dep_GetScheduleByRoomID = GetScheduleByRoomID_repo,
     dep_EnsureSlots = EnsureSlots_repo,
     dep_ListAvailableByRoomAndDate = ListAvailableByRoomAndDate_repo \<rparr>"

lemma pg_slot_deps_simps [simp]:
  "dep_RoomExists pg_slot_deps = RoomExists_repo"
  "dep_GetScheduleByRoomID pg_slot_deps = GetScheduleByRoomID_repo"
  "dep_EnsureSlots pg_slot_deps = EnsureSlots_repo"
  "dep_ListAvailableByRoomAndDate pg_slot_deps = ListAvailableByRoomAndDate_repo"
  by (simp_all add: pg_slot_deps_def)

definition booked :: "BookingDB \<Rightarrow> uuid \<Rightarrow> bool" where
  "booked db slotID \<longleftrightarrow> holder db slotID \<noteq> None"

lemma booked_iff: "booked db slotID \<longleftrightarrow> list_ex (\<lambda>b. bk_SlotID b = slotID \<and> active b) (bookings db)"
  by (auto simp: booked_def holder_None list_ex_iff)

lemma db_ok_slot_keys: "db_ok db \<Longrightarrow> distinct (map slot_key (slots db))"
  by (simp add: db_ok_defs slot_key_def [abs_def])

lemma ListAvailable_repo_returns:
  assumes "ListAvailableByRoomAndDate_repo roomID from to w = (Inr ss, w')" and "db_ok (store w)"
  shows "set ss = {s \<in> set (slots (store w)). sl_RoomID s = roomID \<and> from \<le> sl_StartAt s \<and>
           sl_StartAt s < to \<and> \<not> booked (store w) (sl_ID s)} \<and>
         sorted (map sl_StartAt ss) \<and> distinct (map slot_key ss)"
proof -
  let ?P = "\<lambda>s. sl_RoomID s = roomID \<and> from \<le> sl_StartAt s \<and> sl_StartAt s < to \<and> \<not> booked (store w) (sl_ID s)"
  have ss: "ss = sort_key sl_StartAt (filter ?P (slots (store w)))"
    using assms(1)
    by (auto simp: ListAvailableByRoomAndDate_repo_def select_available_def booked_iff dest!: query_rows_Inr)
  have "distinct (map slot_key (filter ?P (slots (store w))))"
    by (rule distinct_map_filter [OF db_ok_slot_keys [OF assms(2)]])
  then have "distinct (map slot_key ss)" unfolding ss by (simp add: distinct_map)
  then show ?thesis unfolding ss by auto
qed

lemma ensure_slots_bookings: "ensure_slots ss db = Inr (u, db') \<Longrightarrow> bookings db' = bookings db"
  by (auto simp: ensure_slots_def split: sum.splits if_splits)

lemma ensure_slots_appends:
  assumes "ensure_slots ss db = Inr (u, db')" "db_ok db"
  shows "\<exists>new. slots db' = slots db @ new \<and> set new \<subseteq> set ss \<and> slot_key ` set new \<inter> slot_key ` set (slots db) = {}"
    and "slot_key ` set (slots db') = slot_key ` set (slots db) \<union> slot_key ` set ss"
    and "booked db' = booked db"
proof -
  obtain new where n: "insert_slots (slots db) ss = Inr (slots db @ new)" "set new \<subseteq> set ss"
    "db' = db\<lparr>slots := slots db @ new\<rparr>"
    by (rule ensure_slots_InrE [OF assms(1)])
  have d: "distinct (map sl_ID (slots db))" using assms(2) by (simp add: db_ok_defs)
  show "\<exists>new. slots db' = slots db @ new \<and> set new \<subseteq> set ss \<and> slot_key ` set new \<inter> slot_key ` set (slots db) = {}"
    using n insert_slots_new_keys [OF n(1) d db_ok_slot_keys [OF assms(2)]] by auto
  show "slot_key ` set (slots db') = slot_key ` set (slots db) \<union> slot_key ` set ss"
    using insert_slots_keys [OF n(1)] n(3) by simp
  show "booked db' = booked db" by (rule ext) (simp add: n(3) booked_iff)
qed

interpretation pg_slots: slot_backend pg_slot_deps db_ok slots booked
proof (unfold_locales, goal_cases)
  case (4 roomID t0 t1 w ss w1)
  then show ?case by (simp add: ListAvailable_repo_returns)
next
  case (5 ss w r w')
  then show ?case by (simp add: EnsureSlots_repo_ok)
next
  case (6 ss w u w')
  show ?case
  proof (cases "ss = []")
    case True
    with 6 show ?thesis by (simp add: EnsureSlots_repo_def)
  next
    case False
    with 6 have "ensure_slots ss (store w) = Inr ((), store w')"
      using EnsureSlots_repo_effect(2) by auto
    with 6 show ?thesis using ensure_slots_appends(2) by blast
  qed
next
  case (7 ss w r w')
  then show ?case
    by (auto dest!: EnsureSlots_repo_effect(1) ensure_slots_appends(1))
next
  case (8 ss w r w')
  then show ?case
    by (auto dest!: EnsureSlots_repo_effect(1) ensure_slots_bookings simp: booked_iff)
qed (auto dest: catalog_reads_store ListAvailable_repo_store)

end
