(* ===== verification/SlotService.thy ===== *)
theory SlotService
  imports SlotRepo
begin

text \<open>
  \<open>booking-service/internal/service/slot/slot.go\<close>: the slots of a day are generated from the
  schedule of the room when they are first asked for, and the free ones are returned.
\<close>

definition slotDuration :: duration where "slotDuration = 30 * Minute"

section \<open>Generating the slots of a day\<close>

definition isDayInSchedule :: "time \<Rightarrow> int list \<Rightarrow> bool" where
  "isDayInSchedule date daysOfWeek =
    (let isoDay = weekday date; isoDay = (if isoDay = 0 then 7 else isoDay)
     in isoDay \<in> set daysOfWeek)"

text \<open>The loop \<open>for cur := windowStart; ; cur = cur.Add(slotDuration)\<close>.\<close>

function slot_loop :: "uuid \<Rightarrow> time \<Rightarrow> time \<Rightarrow> Slot list \<Rightarrow> 'd world \<Rightarrow> Slot list \<times> 'd world" where
  "slot_loop roomID windowEnd cur acc w =
    (let slotEnd = cur + slotDuration in
     if windowEnd < slotEnd then (acc, w)
     else (let (sid, w1) = uuid_New w in
           slot_loop roomID windowEnd slotEnd
             (acc @ [\<lparr> sl_ID = sid, sl_RoomID = roomID, sl_StartAt = cur, sl_EndAt = slotEnd \<rparr>]) w1))"
  by pat_completeness auto
termination
  by (relation "measure (\<lambda>(roomID, windowEnd, cur, acc, w). nat (windowEnd - cur))")
    (auto simp: slotDuration_def)

declare slot_loop.simps [simp del]

definition generateSlots ::
    "uuid \<Rightarrow> time \<Rightarrow> string \<Rightarrow> string \<Rightarrow> 'd world \<Rightarrow> (model_error, Slot list) result \<times> 'd world" where
  "generateSlots roomID date startTime endTime w =
    (case Parse_15_04 startTime of
       None \<Rightarrow> (Inl (Wrap (''parse start time '' @ startTime) (Opaque ''parse error'')), w)
     | Some startT \<Rightarrow>
       (case Parse_15_04 endTime of
          None \<Rightarrow> (Inl (Wrap (''parse end time '' @ endTime) (Opaque ''parse error'')), w)
        | Some endT \<Rightarrow>
          (let windowStart = Date (year date) (month date) (day date) (hour startT) (minute startT);
               windowEnd = Date (year date) (month date) (day date) (hour endT) (minute endT);
               (ss, w1) = slot_loop roomID windowEnd windowStart [] w
           in (Inr ss, w1))))"

section \<open>The service method\<close>

definition ListAvailableSlots ::
    "'d SlotDeps \<Rightarrow> uuid \<Rightarrow> time \<Rightarrow> 'd world \<Rightarrow> (model_error, Slot list) result \<times> 'd world" where
  "ListAvailableSlots D roomID date w =
    (case dep_RoomExists D roomID w of
       (Inl e, w1) \<Rightarrow> (Inl (Wrap ''slot service: check room'' e), w1)
     | (Inr exists, w1) \<Rightarrow>
       (if \<not> exists then (Inl (Wrap ''slot service'' (Sentinel ErrRoomNotFound)), w1)
        else
          (case dep_GetScheduleByRoomID D roomID w1 of
             (Inl e, w2) \<Rightarrow>
               (if errors_Is e ErrScheduleNotFound then (Inr [], w2)
                else (Inl (Wrap ''slot service: get schedule'' e), w2))
           | (Inr schedule, w2) \<Rightarrow>
             (if \<not> isDayInSchedule date (sc_DaysOfWeek schedule) then (Inr [], w2)
              else
                (case generateSlots roomID date (sc_StartTime schedule) (sc_EndTime schedule) w2 of
                   (Inl e, w3) \<Rightarrow> (Inl (Wrap ''slot service: generate slots'' e), w3)
                 | (Inr ss, w3) \<Rightarrow>
                   (case dep_EnsureSlots D ss w3 of
                      (Inl e, w4) \<Rightarrow> (Inl (Wrap ''slot service: ensure slots'' e), w4)
                    | (Inr _, w4) \<Rightarrow>
                      (let dayStart = Date (year date) (month date) (day date) 0 0;
                           dayEnd = AddDays dayStart 1
                       in case dep_ListAvailableByRoomAndDate D roomID dayStart dayEnd w4 of
                            (Inl e, w5) \<Rightarrow> (Inl (Wrap ''slot service: list available'' e), w5)
                          | (Inr available, w5) \<Rightarrow> (Inr available, w5))))))))"

section \<open>The loop computes the grid\<close>

text \<open>The grid of a window, and the slots on it with the identifiers drawn in order.\<close>

definition grid :: "time \<Rightarrow> time \<Rightarrow> time list" where
  "grid windowStart windowEnd =
     map (\<lambda>i. windowStart + int i * slotDuration) [0..<nat ((windowEnd - windowStart) div slotDuration)]"

definition slot_at :: "uuid \<Rightarrow> (nat \<Rightarrow> uuid) \<Rightarrow> time \<Rightarrow> nat \<Rightarrow> Slot" where
  "slot_at roomID ids windowStart i = \<lparr> sl_ID = ids i, sl_RoomID = roomID,
     sl_StartAt = windowStart + int i * slotDuration,
     sl_EndAt = windowStart + int i * slotDuration + slotDuration \<rparr>"

abbreviation slot_count :: "time \<Rightarrow> time \<Rightarrow> nat" where
  "slot_count windowStart windowEnd \<equiv> nat ((windowEnd - windowStart) div slotDuration)"

lemma slotDuration_pos: "0 < slotDuration"
  by (simp add: slotDuration_def)

lemma slot_count_step:
  assumes "a + slotDuration \<le> b"
  shows "slot_count a b = Suc (slot_count (a + slotDuration) b)"
proof -
  have "(b - a) div slotDuration = (b - (a + slotDuration)) div slotDuration + 1"
    using div_add_self2 [of slotDuration "b - (a + slotDuration)"] slotDuration_pos by simp
  moreover have "0 \<le> (b - (a + slotDuration)) div slotDuration"
    using assms slotDuration_pos by (simp add: pos_imp_zdiv_nonneg_iff)
  ultimately show ?thesis by simp
qed

lemma slot_count_none: "b < a + slotDuration \<Longrightarrow> slot_count a b = 0"
proof -
  assume "b < a + slotDuration"
  then have "(b - a) div slotDuration \<le> (slotDuration - 1) div slotDuration"
    using slotDuration_pos by (intro zdiv_mono1) simp_all
  also have "\<dots> = 0" using slotDuration_pos by simp
  finally show ?thesis by simp
qed

lemma slot_at_shift:
  "slot_at roomID (\<lambda>i. ids (Suc i)) (c + slotDuration) i = slot_at roomID ids c (Suc i)"
  by (simp add: slot_at_def algebra_simps)

lemma slot_loop_eq:
  "slot_loop roomID e c acc w =
     (acc @ map (slot_at roomID (\<lambda>i. gen w (gen_pos w + i)) c) [0..<slot_count c e],
      w\<lparr>gen_pos := gen_pos w + slot_count c e\<rparr>)"
proof (induction roomID e c acc w rule: slot_loop.induct)
  case (1 roomID e c acc w)
  show ?case
  proof (cases "e < c + slotDuration")
    case True
    then show ?thesis by (subst slot_loop.simps) (simp add: slot_count_none)
  next
    case False
    let ?w1 = "w\<lparr>gen_pos := Suc (gen_pos w)\<rparr>" and ?n = "slot_count (c + slotDuration) e"
    let ?s = "slot_at roomID (\<lambda>i. gen w (gen_pos w + i)) c 0"
    have u: "uuid_New w = (gen w (gen_pos w), ?w1)" by (simp add: uuid_New_def)
    have s: "?s = \<lparr> sl_ID = gen w (gen_pos w), sl_RoomID = roomID, sl_StartAt = c, sl_EndAt = c + slotDuration \<rparr>"
      by (simp add: slot_at_def)
    have "slot_loop roomID e c acc w = slot_loop roomID e (c + slotDuration) (acc @ [?s]) ?w1"
      using False by (subst slot_loop.simps) (simp add: u s Let_def)
    also have "\<dots> = ((acc @ [?s]) @ map (slot_at roomID (\<lambda>i. gen w (Suc (gen_pos w) + i)) (c + slotDuration)) [0..<?n],
        ?w1\<lparr>gen_pos := Suc (gen_pos w) + ?n\<rparr>)"
      using "1.IH" [of "c + slotDuration" "(gen w (gen_pos w), ?w1)" "gen w (gen_pos w)" ?w1] False u
      by (simp add: s)
    also have "slot_at roomID (\<lambda>i. gen w (Suc (gen_pos w) + i)) (c + slotDuration) =
        (\<lambda>i. slot_at roomID (\<lambda>i. gen w (gen_pos w + i)) c (Suc i))"
      using slot_at_shift [of roomID "\<lambda>i. gen w (gen_pos w + i)" c] by (intro ext) simp
    finally show ?thesis
      using slot_count_step [of c e] False by (simp add: map_upt_Suc del: upt_Suc)
  qed
qed

lemma generateSlots_Inr:
  fixes date :: time
  assumes "Parse_15_04 startTime = Some st" "Parse_15_04 endTime = Some en"
  defines "a \<equiv> Date (year date) (month date) (day date) (hour st) (minute st)"
    and "b \<equiv> Date (year date) (month date) (day date) (hour en) (minute en)"
  shows "generateSlots roomID date startTime endTime w =
    (Inr (map (slot_at roomID (\<lambda>i. gen w (gen_pos w + i)) a) [0..<slot_count a b]),
     w\<lparr>gen_pos := gen_pos w + slot_count a b\<rparr>)"
  using assms(1,2) by (simp add: generateSlots_def slot_loop_eq Let_def a_def b_def)

lemma generateSlots_InrE:
  assumes "generateSlots roomID date startTime endTime w = (Inr ss, w')"
  obtains st en where "Parse_15_04 startTime = Some st" "Parse_15_04 endTime = Some en"
  using assms by (auto simp: generateSlots_def split: option.splits)

lemma generateSlots_store: "generateSlots roomID date startTime endTime w = (r, w') \<Longrightarrow> store w' = store w"
  by (auto simp: generateSlots_def slot_loop_eq Let_def split: option.splits)

lemma map_slot_at_starts: "map sl_StartAt (map (slot_at roomID ids a) [0..<slot_count a b]) = grid a b"
  by (simp add: grid_def slot_at_def)

text \<open>The grid is inside its window, in steps of one slot, and does not leave room for another.\<close>

lemma grid_bounds: "t \<in> set (grid a b) \<Longrightarrow> a \<le> t \<and> t + slotDuration \<le> b"
proof -
  assume "t \<in> set (grid a b)"
  then obtain i where t: "t = a + int i * slotDuration" and i: "i < slot_count a b"
    using slotDuration_pos by (auto simp: grid_def)
  have "(int i + 1) * slotDuration \<le> (b - a) div slotDuration * slotDuration"
    using i slotDuration_pos by (intro mult_right_mono) auto
  also have "\<dots> \<le> b - a" using slotDuration_pos by (simp add: minus_mod_eq_div_mult [symmetric])
  finally show ?thesis using slotDuration_pos by (simp add: t algebra_simps)
qed

lemma grid_complete:
  assumes "a \<le> b"
  shows "b - (a + int (length (grid a b)) * slotDuration) < slotDuration"
proof -
  have "0 \<le> (b - a) div slotDuration" using assms slotDuration_pos by (simp add: pos_imp_zdiv_nonneg_iff)
  then have "a + int (length (grid a b)) * slotDuration = a + (b - a - (b - a) mod slotDuration)"
    by (simp add: grid_def minus_mod_eq_div_mult)
  then show ?thesis using slotDuration_pos by simp
qed

lemma sorted_grid: "sorted (grid a b)"
  using slotDuration_pos by (auto simp: grid_def sorted_iff_nth_mono)

lemma distinct_grid: "distinct (grid a b)"
  using slotDuration_pos by (auto simp: grid_def distinct_map inj_on_def)

section \<open>What the service promises\<close>

text \<open>
  Proved once from the contract of the repositories.  The first lemma is the answer: the free
  slots of the day, in order.  The second says that the schedule's slots are all there: each
  start on the grid is offered, or its slot is taken.  The third says that asking again adds
  nothing.
\<close>

definition on_day :: "time \<Rightarrow> time \<Rightarrow> bool" where
  "on_day date t \<longleftrightarrow> t div DayLength = date div DayLength"

lemma day_range: "date - date mod DayLength \<le> t \<and> t < date - date mod DayLength + DayLength \<longleftrightarrow> on_day date t"
proof
  assume h: "date - date mod DayLength \<le> t \<and> t < date - date mod DayLength + DayLength"
  have "t div DayLength = date div DayLength"
    by (rule int_div_pos_eq [where r = "t - DayLength * (date div DayLength)"])
      (use h in \<open>simp_all add: minus_mod_eq_mult_div\<close>)
  then show "on_day date t" by (simp add: on_day_def)
next
  assume "on_day date t"
  then have "t = DayLength * (date div DayLength) + t mod DayLength"
    using mult_div_mod_eq [of DayLength t] by (simp only: on_day_def)
  moreover have "0 \<le> t mod DayLength" "t mod DayLength < DayLength" by simp_all
  ultimately show "date - date mod DayLength \<le> t \<and> t < date - date mod DayLength + DayLength"
    unfolding minus_mod_eq_mult_div by linarith
qed

text \<open>The three ways an answer is reached.\<close>

lemma ListAvailableSlots_InrE:
  assumes "ListAvailableSlots D roomID date w = (Inr ss, w')"
  obtains (no_schedule) e w1 where "dep_RoomExists D roomID w = (Inr True, w1)"
      "dep_GetScheduleByRoomID D roomID w1 = (Inl e, w')" "errors_Is e ErrScheduleNotFound" "ss = []"
  | (day_off) sch w1 where "dep_RoomExists D roomID w = (Inr True, w1)"
      "dep_GetScheduleByRoomID D roomID w1 = (Inr sch, w')"
      "\<not> isDayInSchedule date (sc_DaysOfWeek sch)" "ss = []"
  | (working_day) sch w1 w2 gs w3 u w4 where "dep_RoomExists D roomID w = (Inr True, w1)"
      "dep_GetScheduleByRoomID D roomID w1 = (Inr sch, w2)"
      "isDayInSchedule date (sc_DaysOfWeek sch)"
      "generateSlots roomID date (sc_StartTime sch) (sc_EndTime sch) w2 = (Inr gs, w3)"
      "dep_EnsureSlots D gs w3 = (Inr u, w4)"
      "dep_ListAvailableByRoomAndDate D roomID (date - date mod DayLength)
         (date - date mod DayLength + DayLength) w4 = (Inr ss, w')"
  using assms
  by (auto simp: ListAvailableSlots_def Let_def Date_midnight AddDays_midnight
      split: prod.splits sum.splits if_splits)

lemma generateSlots_spans:
  assumes "generateSlots roomID date startTime endTime w = (Inr gs, w')" and "s \<in> set gs"
  shows "sl_RoomID s = roomID" and "sl_EndAt s = sl_StartAt s + slotDuration" and "on_day date (sl_StartAt s)"
proof -
  obtain st en where p: "Parse_15_04 startTime = Some st" "Parse_15_04 endTime = Some en"
    using assms(1) by (rule generateSlots_InrE)
  let ?a = "Date (year date) (month date) (day date) (hour st) (minute st)"
  let ?b = "Date (year date) (month date) (day date) (hour en) (minute en)"
  have gs: "gs = map (slot_at roomID (\<lambda>i. gen w (gen_pos w + i)) ?a) [0..<slot_count ?a ?b]"
    using assms(1) generateSlots_Inr [OF p, of roomID date w] by simp
  from assms(2) show "sl_RoomID s = roomID" "sl_EndAt s = sl_StartAt s + slotDuration"
    by (auto simp: gs slot_at_def)
  have "sl_StartAt s \<in> set (grid ?a ?b)"
    using assms(2) unfolding gs map_slot_at_starts [of roomID "\<lambda>i. gen w (gen_pos w + i)", symmetric] set_map
    by (rule imageI)
  from grid_bounds [OF this] show "on_day date (sl_StartAt s)"
    using Parse_15_04_fields [OF p(1)] Parse_15_04_fields [OF p(2)]
    by (simp add: Date_in_day slotDuration_def flip: day_range)
qed

context slot_backend begin

lemma answer_is_free_slots:
  assumes run: "ListAvailableSlots D roomID date w = (Inr ss, w')" and inv: "inv (store w)"
  shows "sorted (map sl_StartAt ss) \<and> distinct (map slot_key ss) \<and>
    (\<forall>s \<in> set ss. s \<in> set (slot_table (store w')) \<and> sl_RoomID s = roomID \<and>
       on_day date (sl_StartAt s) \<and> \<not> taken (store w') (sl_ID s))"
  using run
proof (cases rule: ListAvailableSlots_InrE)
  case (working_day sch w1 w2 gs w3 u w4)
  have "inv (store w4)"
    using ensure_keeps [OF working_day(5)] inv room_exists_reads [OF working_day(1)]
      get_schedule_reads [OF working_day(2)] generateSlots_store [OF working_day(4)] by simp
  from list_returns [OF working_day(6) this] list_reads [OF working_day(6)] show ?thesis
    by (auto simp flip: day_range)
qed simp_all

lemma grid_is_offered:
  assumes run: "ListAvailableSlots D roomID date w = (Inr ss, w')" and inv: "inv (store w)"
    and sch: "dep_RoomExists D roomID w = (Inr True, w1)" "dep_GetScheduleByRoomID D roomID w1 = (Inr sch, w2)"
      "isDayInSchedule date (sc_DaysOfWeek sch)"
    and p: "Parse_15_04 (sc_StartTime sch) = Some st" "Parse_15_04 (sc_EndTime sch) = Some en"
    and t: "t \<in> set (grid (Date (year date) (month date) (day date) (hour st) (minute st))
                        (Date (year date) (month date) (day date) (hour en) (minute en)))"
  shows "\<exists>s \<in> set (slot_table (store w')). sl_RoomID s = roomID \<and> sl_StartAt s = t \<and>
           (s \<in> set ss \<or> taken (store w') (sl_ID s))"
  using run
proof (cases rule: ListAvailableSlots_InrE)
  case (working_day sch' w1' w2' gs w3 u w4)
  have e: "sch' = sch" "w2' = w2" using working_day(1,2) sch(1,2) by simp_all
  have inv3: "inv (store w3)"
    using inv room_exists_reads [OF working_day(1)] get_schedule_reads [OF working_day(2)]
      generateSlots_store [OF working_day(4)] by simp
  have "t \<in> sl_StartAt ` set gs"
    using t working_day(4) generateSlots_Inr [OF p, of roomID date w2]
    unfolding e set_map [symmetric] by (auto simp only: prod.inject sum.inject map_slot_at_starts)
  then obtain g where g: "g \<in> set gs" "sl_StartAt g = t" by blast
  have "slot_key g \<in> slot_key ` set (slot_table (store w4))"
    using ensure_adds [OF working_day(5) inv3] g(1) by blast
  then obtain s where s: "s \<in> set (slot_table (store w4))" "slot_key s = slot_key g"
    by (elim imageE) simp
  have ks: "sl_RoomID s = roomID" "sl_StartAt s = t"
    using s(2) g(2) generateSlots_spans(1) [OF working_day(4) g(1)] by (simp_all add: slot_key_def)
  have "on_day date t" using generateSlots_spans(3) [OF working_day(4) g(1)] g(2) by simp
  then have "s \<in> set ss \<or> taken (store w4) (sl_ID s)"
    using list_returns [OF working_day(6) ensure_keeps [OF working_day(5) inv3]] s(1) ks day_range by blast
  then show ?thesis using s(1) ks list_reads [OF working_day(6)] by auto
qed (use sch in auto)

text \<open>What a call may do to the slot table, also when it fails: add slots of this room and day.\<close>

lemma ListAvailableSlots_storeE:
  assumes "ListAvailableSlots D roomID date w = (r, w')"
  obtains (same) "store w' = store w"
  | (ensured) sch w1 w2 gs w3 u w4 where
      "dep_RoomExists D roomID w = (Inr True, w1)" "dep_GetScheduleByRoomID D roomID w1 = (Inr sch, w2)"
      "generateSlots roomID date (sc_StartTime sch) (sc_EndTime sch) w2 = (Inr gs, w3)"
      "dep_EnsureSlots D gs w3 = (u, w4)" "store w' = store w4" "isDayInSchedule date (sc_DaysOfWeek sch)"
proof -
  obtain x w1 where 1: "dep_RoomExists D roomID w = (x, w1)" by fastforce
  obtain y w2 where 2: "dep_GetScheduleByRoomID D roomID w1 = (y, w2)" by fastforce
  note reads = room_exists_reads [OF 1] get_schedule_reads [OF 2]
  consider "store w' = store w" | sch gs w3 u w4 where "x = Inr True" "y = Inr sch"
      "generateSlots roomID date (sc_StartTime sch) (sc_EndTime sch) w2 = (Inr gs, w3)"
      "dep_EnsureSlots D gs w3 = (u, w4)" "store w' = store w4" "isDayInSchedule date (sc_DaysOfWeek sch)"
  proof (cases x)
    case (Inl e)
    with assms 1 reads that(1) show thesis by (simp add: ListAvailableSlots_def)
  next
    case x: (Inr ex)
    show thesis
    proof (cases "ex \<and> (\<exists>sch. y = Inr sch \<and> isDayInSchedule date (sc_DaysOfWeek sch))")
      case False
      with assms 1 2 x reads that(1) show thesis
        by (auto simp: ListAvailableSlots_def split: sum.splits if_splits)
    next
      case True
      then obtain sch where y: "ex" "y = Inr sch" "isDayInSchedule date (sc_DaysOfWeek sch)" by blast
      obtain g w3 where g: "generateSlots roomID date (sc_StartTime sch) (sc_EndTime sch) w2 = (g, w3)" by fastforce
      note s3 = generateSlots_store [OF g]
      show thesis
      proof (cases g)
        case (Inl e)
        with assms 1 2 x y g s3 reads that(1) show thesis by (simp add: ListAvailableSlots_def)
      next
        case gs: (Inr gs)
        obtain u w4 where u: "dep_EnsureSlots D gs w3 = (u, w4)" by fastforce
        have "store w' = store w4"
          using assms 1 2 x y g gs u list_reads
          by (auto simp: ListAvailableSlots_def Let_def split: prod.splits sum.splits)
        with x y g gs u that(2) show thesis by simp
      qed
    qed
  qed
  then show thesis using 1 2 that by cases auto
qed

lemma table_grows:
  assumes "ListAvailableSlots D roomID date w = (r, w')" and inv: "inv (store w)"
  shows "inv (store w') \<and> taken (store w') = taken (store w) \<and>
    (\<exists>new. slot_table (store w') = slot_table (store w) @ new \<and>
       slot_key ` set new \<inter> slot_key ` set (slot_table (store w)) = {} \<and>
       (\<forall>s \<in> set new. sl_RoomID s = roomID \<and> on_day date (sl_StartAt s) \<and>
                       sl_EndAt s = sl_StartAt s + slotDuration))"
  using assms(1)
proof (cases rule: ListAvailableSlots_storeE)
  case same
  then show ?thesis using inv by simp
next
  case (ensured sch w1 w2 gs w3 u w4)
  note r = ensured(1,2) and gs = ensured(3) and en = ensured(4) and s4 = ensured(5)
  have st: "store w3 = store w"
    using room_exists_reads [OF r(1)] get_schedule_reads [OF r(2)] generateSlots_store [OF gs] by simp
  show ?thesis
    using ensure_keeps [OF en] ensure_appends [OF en] ensure_taken [OF en] generateSlots_spans [OF gs] inv
    unfolding st s4 by blast
qed

end

end
