(* ===== verification/BookingRepo.thy ===== *)
theory BookingRepo
  imports BookingModel
begin

text \<open>
  \<open>booking-service/internal/repo/booking/booking.go\<close>: bookings in PostgreSQL.  The
  statements are functions on the tables, named after what they do; the methods of \<open>Repo\<close>
  send them, inside a transaction where the code does.  The two methods that write a booking
  write an outbox row in the same transaction.
\<close>

section \<open>Statements\<close>

text \<open>
  \<open>INSERT INTO bookings ... RETURNING\<close>.  A new row is rejected by the primary key, the
  partial unique index on active bookings, or a foreign key, in this order.
\<close>

definition insert_booking ::
    "time \<Rightarrow> uuid \<Rightarrow> uuid \<Rightarrow> uuid \<Rightarrow> BookingDB \<Rightarrow> db_error + (Booking \<times> BookingDB)" where
  "insert_booking now bid slotID userID db =
    (if bid \<in> bk_ID ` set (bookings db) then Inl (PgError UniqueViolation ''bookings_pkey'')
     else if holder db slotID \<noteq> None then Inl (PgError UniqueViolation ''idx_bookings_slot_active'')
     else if slotID \<notin> sl_ID ` set (slots db) then
       Inl (PgError ForeignKeyViolation ''bookings_slot_id_fkey'')
     else if userID \<notin> us_ID ` set (users db) then
       Inl (PgError ForeignKeyViolation ''bookings_user_id_fkey'')
     else let b = \<lparr> bk_ID = bid, bk_SlotID = slotID, bk_UserID = userID,
                    bk_Status = BookingStatusActive, bk_ConferenceLink = None, bk_CreatedAt = now \<rparr>
          in Inr (b, db\<lparr>bookings := bookings db @ [b]\<rparr>))"

text \<open>The payload built by \<open>jsonb_build_object\<close>.\<close>

definition booking_event ::
    "externals \<Rightarrow> string \<Rightarrow> uuid \<Rightarrow> time \<Rightarrow> Booking \<Rightarrow> Room \<Rightarrow> Slot \<Rightarrow> json_object" where
  "booking_event L event_type outboxID now b r s =
    [(''event_id'', JString (uuid_String L outboxID)),
     (''event_type'', JString event_type),
     (''occurred_at'', JTime now),
     (''booking_id'', JString (uuid_String L (bk_ID b))),
     (''user_id'', JString (uuid_String L (bk_UserID b))),
     (''room_id'', JString (uuid_String L (rm_ID r))),
     (''room_name'', JString (rm_Name r)),
     (''slot_start'', JTime (sl_StartAt s)),
     (''slot_end'', JTime (sl_EndAt s))]"

text \<open>
  \<open>INSERT INTO outbox ... SELECT ... FROM slots s JOIN rooms r ON r.id = s.room_id WHERE s.id = $3\<close>.
\<close>

definition event_rows ::
    "externals \<Rightarrow> string \<Rightarrow> uuid \<Rightarrow> time \<Rightarrow> Booking \<Rightarrow> uuid \<Rightarrow> BookingDB \<Rightarrow> OutboxRow list" where
  "event_rows L event_type outboxID now b slotID db =
    [\<lparr> ob_id = outboxID, ob_event_type = event_type,
       ob_payload = booking_event L event_type outboxID now b r s,
       ob_created_at = now, ob_sent_at = None \<rparr> .
       s \<leftarrow> slots db, sl_ID s = slotID, r \<leftarrow> rooms db, rm_ID r = sl_RoomID s]"

definition insert_event ::
    "externals \<Rightarrow> string \<Rightarrow> uuid \<Rightarrow> time \<Rightarrow> Booking \<Rightarrow> uuid \<Rightarrow> BookingDB \<Rightarrow> db_error + (unit \<times> BookingDB)" where
  "insert_event L event_type outboxID now b slotID db =
    (let rows = event_rows L event_type outboxID now b slotID db
     in if rows \<noteq> [] \<and> outboxID \<in> ob_id ` set (outbox db)
        then Inl (PgError UniqueViolation ''outbox_pkey'')
        else Inr ((), db\<lparr>outbox := outbox db @ rows\<rparr>))"

text \<open>\<open>UPDATE bookings SET status = 'cancelled' WHERE ... RETURNING\<close>, read by \<open>QueryRow\<close>.\<close>

definition cancellable :: "uuid \<Rightarrow> uuid \<Rightarrow> Booking \<Rightarrow> bool" where
  "cancellable bid userID b \<longleftrightarrow> bk_ID b = bid \<and> active b \<and> bk_UserID b = userID"

definition cancelled :: "Booking \<Rightarrow> Booking" where
  "cancelled b = b\<lparr>bk_Status := BookingStatusCancelled\<rparr>"

definition update_cancelled :: "uuid \<Rightarrow> uuid \<Rightarrow> BookingDB \<Rightarrow> db_error + (Booking \<times> BookingDB)" where
  "update_cancelled bid userID db =
    (case find (cancellable bid userID) (bookings db) of
       None \<Rightarrow> Inl ErrNoRows
     | Some b \<Rightarrow> Inr (cancelled b,
         db\<lparr>bookings := update_where (cancellable bid userID) cancelled (bookings db)\<rparr>))"

definition select_booking :: "uuid \<Rightarrow> BookingDB \<Rightarrow> db_error + Booking" where
  "select_booking bid db =
    (case find_by bk_ID bid (bookings db) of None \<Rightarrow> Inl ErrNoRows | Some b \<Rightarrow> Inr b)"

text \<open>
  One page in the order of creation, newest first, each row with the window count of all
  rows.  The server rejects a negative limit or offset.
\<close>

definition by_created_desc :: "Booking list \<Rightarrow> Booking list" where
  "by_created_desc bs = sort_key (\<lambda>b. - bk_CreatedAt b) bs"

definition select_page :: "int \<Rightarrow> int \<Rightarrow> BookingDB \<Rightarrow> db_error + ((Booking \<times> int) list)" where
  "select_page limit offset db =
    (if limit < 0 then Inl (PgError (OtherCode ''2201W'') '''')
     else if offset < 0 then Inl (PgError (OtherCode ''2201X'') '''')
     else Inr (map (\<lambda>b. (b, int (length (bookings db))))
                 (page_of (nat limit) (nat offset) (by_created_desc (bookings db)))))"

definition select_user_bookings :: "time \<Rightarrow> uuid \<Rightarrow> BookingDB \<Rightarrow> db_error + Booking list" where
  "select_user_bookings now userID db =
    Inr (map fst (sort_key (\<lambda>(b, s). sl_StartAt s)
      [(b, s). b \<leftarrow> bookings db, s \<leftarrow> slots db,
         sl_ID s = bk_SlotID b \<and> bk_UserID b = userID \<and> active b \<and> now \<le> sl_StartAt s]))"

definition update_conference_link :: "uuid \<Rightarrow> string \<Rightarrow> BookingDB \<Rightarrow> db_error + (unit \<times> BookingDB)" where
  "update_conference_link bookingID link db =
    Inr ((), db\<lparr>bookings := update_where (\<lambda>b. bk_ID b = bookingID)
                             (\<lambda>b. b\<lparr>bk_ConferenceLink := Some link\<rparr>) (bookings db)\<rparr>)"

section \<open>Repository methods\<close>

text \<open>The error a rejected \<open>INSERT\<close> is turned into.\<close>

definition create_booking_error :: "db_error \<Rightarrow> berror" where
  "create_booking_error e =
    (case as_PgError (DbError e :: berror) of
       Some (UniqueViolation, n) \<Rightarrow> Wrap ''create booking'' (Sentinel ErrSlotAlreadyBooked)
     | Some (ForeignKeyViolation, n) \<Rightarrow>
         (if n = ''bookings_slot_id_fkey'' then Wrap ''create booking'' (Sentinel ErrSlotNotFound)
          else Wrap (''create booking: unexpected fk violation '' @ n) (DbError e))
     | _ \<Rightarrow> Wrap ''create booking'' (DbError e))"

definition CreateBooking_repo ::
    "externals \<Rightarrow> uuid \<Rightarrow> uuid \<Rightarrow> BookingDB world \<Rightarrow> (model_error, Booking) result \<times> BookingDB world" where
  "CreateBooking_repo L slotID userID w =
    (case begin_tx w of
       (Inl e, w1) \<Rightarrow> (Inl (Wrap ''create booking begin tx'' (DbError e)), w1)
     | (Inr now, w1) \<Rightarrow>
       (let (bid, w2) = uuid_New w1 in
        case exec_stmt (insert_booking now bid slotID userID) w2 of
          (Inl e, w3) \<Rightarrow> (Inl (create_booking_error e), rollback w w3)
        | (Inr b, w3) \<Rightarrow>
          (let (outboxID, w4) = uuid_New w3 in
           case exec_stmt (insert_event L ''booking.created'' outboxID now b slotID) w4 of
             (Inl e, w5) \<Rightarrow> (Inl (Wrap ''create booking outbox'' (DbError e)), rollback w w5)
           | (Inr _, w5) \<Rightarrow>
             (case commit_tx w w5 of
                (Inl e, w6) \<Rightarrow> (Inl (Wrap ''create booking commit'' (DbError e)), w6)
              | (Inr _, w6) \<Rightarrow> (Inr b, w6)))))"

definition GetBookingByID_repo ::
    "uuid \<Rightarrow> BookingDB world \<Rightarrow> (model_error, Booking) result \<times> BookingDB world" where
  "GetBookingByID_repo bid w =
    (case exec_stmt (query (select_booking bid)) w of
       (Inl e, w1) \<Rightarrow>
         (if is_ErrNoRows (DbError e :: berror) then (Inl (Wrap ''get booking'' (Sentinel ErrBookingNotFound)), w1)
          else (Inl (Wrap ''get booking'' (DbError e)), w1))
     | (Inr b, w1) \<Rightarrow> (Inr b, w1))"

definition diagnoseCancelFailure ::
    "uuid \<Rightarrow> uuid \<Rightarrow> BookingDB world \<Rightarrow> (model_error, Booking) result \<times> BookingDB world" where
  "diagnoseCancelFailure bid userID w =
    (case GetBookingByID_repo bid w of
       (Inl e, w1) \<Rightarrow> (Inl e, w1)
     | (Inr existing, w1) \<Rightarrow>
         (if bk_UserID existing \<noteq> userID
          then (Inl (Wrap ''cancel booking'' (Sentinel ErrBookingNotFound)), w1)
          else (Inr existing, w1)))"

definition CancelBooking_repo ::
    "externals \<Rightarrow> uuid \<Rightarrow> uuid \<Rightarrow> BookingDB world \<Rightarrow> (model_error, Booking) result \<times> BookingDB world" where
  "CancelBooking_repo L bid userID w =
    (case begin_tx w of
       (Inl e, w1) \<Rightarrow> (Inl (Wrap ''cancel booking begin tx'' (DbError e)), w1)
     | (Inr now, w1) \<Rightarrow>
       (case exec_stmt (update_cancelled bid userID) w1 of
          (Inl e, w2) \<Rightarrow>
            (if \<not> is_ErrNoRows (DbError e :: berror)
             then (Inl (Wrap ''cancel booking'' (DbError e)), rollback w w2)
             else diagnoseCancelFailure bid userID (rollback w w2))
        | (Inr b, w2) \<Rightarrow>
          (let (outboxID, w3) = uuid_New w2 in
           case exec_stmt (insert_event L ''booking.cancelled'' outboxID now b (bk_SlotID b)) w3 of
             (Inl e, w4) \<Rightarrow> (Inl (Wrap ''cancel booking outbox'' (DbError e)), rollback w w4)
           | (Inr _, w4) \<Rightarrow>
             (case commit_tx w w4 of
                (Inl e, w5) \<Rightarrow> (Inl (Wrap ''cancel booking commit'' (DbError e)), w5)
              | (Inr _, w5) \<Rightarrow> (Inr b, w5)))))"

text \<open>The total is read from the last row scanned: it stays 0 when the page has no rows.\<close>

definition ListBookings_repo ::
    "int \<Rightarrow> int \<Rightarrow> BookingDB world \<Rightarrow> (model_error, Booking list \<times> int) result \<times> BookingDB world" where
  "ListBookings_repo page pageSize w =
    (case query_rows ''list bookings'' ''list bookings rows''
            (select_page pageSize (wrap_int ((page - 1) * pageSize))) w of
       (Inl e, w1) \<Rightarrow> (Inl e, w1)
     | (Inr rows, w1) \<Rightarrow> (Inr (map fst rows, foldl (\<lambda>total row. snd row) 0 rows), w1))"

definition ListUserBookings_repo ::
    "uuid \<Rightarrow> BookingDB world \<Rightarrow> (model_error, Booking list) result \<times> BookingDB world" where
  "ListUserBookings_repo userID w =
    (let (now, w1) = time_Now w in
     query_rows ''list user bookings'' ''list user bookings rows'' (select_user_bookings now userID) w1)"

definition UpdateConferenceLink_repo ::
    "uuid \<Rightarrow> string \<Rightarrow> BookingDB world \<Rightarrow> (model_error, unit) result \<times> BookingDB world" where
  "UpdateConferenceLink_repo bookingID link w =
    (case exec_stmt (update_conference_link bookingID link) w of
       (Inl e, w1) \<Rightarrow> (Inl (Wrap ''update conference link'' (DbError e)), w1)
     | (Inr _, w1) \<Rightarrow> (Inr (), w1))"


section \<open>What the statements do to the tables\<close>

lemma insert_booking_InrE:
  assumes "insert_booking now bid slotID userID db = Inr (b, db')"
  obtains "b = \<lparr> bk_ID = bid, bk_SlotID = slotID, bk_UserID = userID,
      bk_Status = BookingStatusActive, bk_ConferenceLink = None, bk_CreatedAt = now \<rparr>"
    "db' = db\<lparr>bookings := bookings db @ [b]\<rparr>"
    "bid \<notin> bk_ID ` set (bookings db)" "holder db slotID = None"
    "slotID \<in> sl_ID ` set (slots db)" "userID \<in> us_ID ` set (users db)"
  using assms by (auto simp: insert_booking_def Let_def split: if_splits)

lemma insert_booking_ok:
  "db_ok db \<Longrightarrow> insert_booking now bid slotID userID db = Inr (b, db') \<Longrightarrow> db_ok db'"
  by (erule insert_booking_InrE) (auto simp: db_ok_defs holder_None active_def)

lemma event_rows_single:
  assumes "db_ok db" and s: "s \<in> set (slots db)"
  obtains r where "r \<in> set (rooms db)" "rm_ID r = sl_RoomID s"
    "event_rows L k oid now b (sl_ID s) db =
       [\<lparr> ob_id = oid, ob_event_type = k, ob_payload = booking_event L k oid now b r s,
          ob_created_at = now, ob_sent_at = None \<rparr>]"
proof -
  from assms obtain r where r: "r \<in> set (rooms db)" "rm_ID r = sl_RoomID s"
    by (auto simp: db_ok_defs list_all_iff)
  have "distinct (map sl_ID (slots db))" "distinct (map rm_ID (rooms db))"
    using assms(1) by (simp_all add: db_ok_defs)
  then have "event_rows L k oid now b (sl_ID s) db =
       [\<lparr> ob_id = oid, ob_event_type = k, ob_payload = booking_event L k oid now b r s,
          ob_created_at = now, ob_sent_at = None \<rparr>]"
    unfolding event_rows_def
    by (subst concat_map_key [of sl_ID "slots db" s, OF _ s], simp)
       (subst r(2) [symmetric], subst concat_map_key [of rm_ID "rooms db" r, OF _ r(1)], simp_all)
  with r show thesis by (rule that)
qed

lemma event_rows_cong:
  "slots db' = slots db \<Longrightarrow> rooms db' = rooms db \<Longrightarrow>
   event_rows L k oid now b slotID db' = event_rows L k oid now b slotID db"
  by (simp add: event_rows_def cong: if_cong)

lemma insert_event_InrE:
  assumes "insert_event L k oid now b slotID db = Inr (u, db')"
    and "db_ok db" and "slotID \<in> sl_ID ` set (slots db)"
  obtains r s where "r \<in> set (rooms db)" "s \<in> set (slots db)" "sl_ID s = slotID" "rm_ID r = sl_RoomID s"
    "oid \<notin> ob_id ` set (outbox db)"
    "db' = db\<lparr>outbox := outbox db @ [\<lparr> ob_id = oid, ob_event_type = k,
       ob_payload = booking_event L k oid now b r s, ob_created_at = now, ob_sent_at = None \<rparr>]\<rparr>"
proof -
  from assms(3) obtain s where s: "s \<in> set (slots db)" "slotID = sl_ID s" by auto
  from event_rows_single [OF assms(2) s(1)] obtain r where r: "r \<in> set (rooms db)"
    "rm_ID r = sl_RoomID s" "event_rows L k oid now b (sl_ID s) db =
       [\<lparr> ob_id = oid, ob_event_type = k, ob_payload = booking_event L k oid now b r s,
          ob_created_at = now, ob_sent_at = None \<rparr>]" by metis
  show thesis
    using assms(1) s r by (intro that [of r s]) (auto simp: insert_event_def Let_def split: if_splits)
qed

lemma insert_event_ok:
  "db_ok db \<Longrightarrow> insert_event L k oid now b slotID db = Inr (u, db') \<Longrightarrow>
   slotID \<in> sl_ID ` set (slots db) \<Longrightarrow> db_ok db'"
  by (erule insert_event_InrE) (auto simp: db_ok_defs)

lemma cancelled_simps [simp]:
  "bk_ID (cancelled b) = bk_ID b" "bk_SlotID (cancelled b) = bk_SlotID b"
  "bk_UserID (cancelled b) = bk_UserID b" "bk_CreatedAt (cancelled b) = bk_CreatedAt b"
  "bk_Status (cancelled b) = BookingStatusCancelled" "\<not> active (cancelled b)"
  by (simp_all add: cancelled_def active_def)

lemma update_cancelled_InrE:
  assumes "update_cancelled bid userID db = Inr (b, db')"
  obtains b0 where "b0 \<in> set (bookings db)" "cancellable bid userID b0" "b = cancelled b0"
    "db' = db\<lparr>bookings := update_where (cancellable bid userID) cancelled (bookings db)\<rparr>"
  using assms by (auto simp: update_cancelled_def dest!: find_Some_in split: option.splits)

lemma update_cancelled_Inl: "update_cancelled bid userID db = Inl e \<Longrightarrow>
    e = ErrNoRows \<and> (\<forall>b \<in> set (bookings db). \<not> cancellable bid userID b)"
  by (auto simp: update_cancelled_def find_None_all split: option.splits)

lemma update_cancelled_ok:
  assumes "db_ok db" "update_cancelled bid userID db = Inr (b, db')"
  shows "db_ok db'"
  using assms(2)
proof (rule update_cancelled_InrE)
  fix b0
  assume "db' = db\<lparr>bookings := update_where (cancellable bid userID) cancelled (bookings db)\<rparr>"
  then show ?thesis
    using assms(1)
    by (auto simp: db_ok_defs map_update_where filter_update_where_out distinct_map_filter_and
        list_all_iff set_update_where)
qed

lemma update_conference_link_ok:
  "db_ok db \<Longrightarrow> update_conference_link bid link db = Inr (u, db') \<Longrightarrow> db_ok db'"
  by (auto simp: update_conference_link_def db_ok_defs map_update_where filter_update_where_same
      active_def list_all_iff set_update_where)

section \<open>What the methods do to the tables\<close>

text \<open>The two transactions that write: the booking together with its outbox row.\<close>

definition creates :: "externals \<Rightarrow> uuid \<Rightarrow> uuid \<Rightarrow> BookingDB \<Rightarrow> Booking \<Rightarrow> BookingDB \<Rightarrow> bool" where
  "creates L slotID userID db b db' \<longleftrightarrow> (\<exists>now bid oid db1.
     insert_booking now bid slotID userID db = Inr (b, db1) \<and>
     insert_event L ''booking.created'' oid now b slotID db1 = Inr ((), db'))"

definition cancels :: "externals \<Rightarrow> uuid \<Rightarrow> uuid \<Rightarrow> BookingDB \<Rightarrow> Booking \<Rightarrow> BookingDB \<Rightarrow> bool" where
  "cancels L bid userID db b db' \<longleftrightarrow> (\<exists>now oid db1.
     update_cancelled bid userID db = Inr (b, db1) \<and>
     insert_event L ''booking.cancelled'' oid now b (bk_SlotID b) db1 = Inr ((), db'))"

lemma CreateBooking_repo_Inr:
  "CreateBooking_repo L slotID userID w = (Inr b, w') \<Longrightarrow> creates L slotID userID (store w) b (store w')"
  unfolding CreateBooking_repo_def creates_def
  by (auto split: prod.splits sum.splits simp: Let_def
      elim!: exec_stmt_InrE dest!: begin_tx_store uuid_New_storeD commit_tx_Inr) blast

lemma CreateBooking_repo_Inl:
  "CreateBooking_repo L slotID userID w = (Inl e, w') \<Longrightarrow>
   store w' = store w \<or> (\<exists>b m. e = Wrap ''create booking commit'' (DbError (ConnError m)) \<and>
                              creates L slotID userID (store w) b (store w'))"
  unfolding CreateBooking_repo_def creates_def
  by (auto split: prod.splits sum.splits simp: Let_def
      elim!: exec_stmt_InrE commit_tx_InlE dest!: begin_tx_store uuid_New_storeD) blast

lemma diagnoseCancelFailure_store: "diagnoseCancelFailure bid userID w = (r, w') \<Longrightarrow> store w' = store w"
  by (auto simp: diagnoseCancelFailure_def GetBookingByID_repo_def
      split: prod.splits sum.splits if_splits dest!: exec_query_store)

lemma CancelBooking_repo_Inl:
  "CancelBooking_repo L bid userID w = (Inl e, w') \<Longrightarrow>
   store w' = store w \<or> (\<exists>b m. e = Wrap ''cancel booking commit'' (DbError (ConnError m)) \<and>
                              cancels L bid userID (store w) b (store w'))"
  unfolding CancelBooking_repo_def cancels_def
  by (auto split: prod.splits sum.splits if_splits simp: Let_def
      elim!: exec_stmt_InrE commit_tx_InlE
      dest!: begin_tx_store uuid_New_storeD diagnoseCancelFailure_store) blast

text \<open>
  A booking is returned by \<open>CancelBooking\<close> either because this call cancelled it, or, without
  any change, because the user already owns it under this identifier.
\<close>

lemma diagnoseCancelFailure_Inr:
  "diagnoseCancelFailure bid userID w = (Inr b, w') \<Longrightarrow>
   b \<in> set (bookings (store w)) \<and> bk_ID b = bid \<and> bk_UserID b = userID"
  by (auto simp: diagnoseCancelFailure_def GetBookingByID_repo_def select_booking_def
      split: prod.splits sum.splits if_splits option.splits elim!: exec_stmt_InrE dest!: find_by_Some)

lemma exec_update_cancelled_NoRows:
  assumes "exec_stmt (update_cancelled bid userID) w = (Inl e, w')" and "is_ErrNoRows (DbError e :: berror)"
  shows "\<forall>b \<in> set (bookings (store w)). \<not> cancellable bid userID b"
  using assms(1) by (rule exec_stmt_InlE) (use assms(2) update_cancelled_Inl in auto)

lemma CancelBooking_repo_Inr:
  assumes "CancelBooking_repo L bid userID w = (Inr b, w')"
  shows "cancels L bid userID (store w) b (store w') \<or>
    (store w' = store w \<and> b \<in> set (bookings (store w)) \<and> bk_ID b = bid \<and> bk_UserID b = userID \<and> \<not> active b)"
proof -
  obtain now w1 where w1: "begin_tx w = (Inr now, w1)"
    using assms by (auto simp: CancelBooking_repo_def split: prod.splits sum.splits)
  note s1 = begin_tx_store [OF w1]
  obtain r w2 where w2: "exec_stmt (update_cancelled bid userID) w1 = (r, w2)" by fastforce
  show ?thesis
  proof (cases r)
    case (Inl e)
    then have nr: "is_ErrNoRows (DbError e :: berror)"
      and d: "diagnoseCancelFailure bid userID (rollback w w2) = (Inr b, w')"
      using assms w1 w2 by (auto simp: CancelBooking_repo_def split: if_splits)
    have "b \<in> set (bookings (store w))" "bk_ID b = bid" "bk_UserID b = userID"
      using diagnoseCancelFailure_Inr [OF d] by simp_all
    moreover have "\<not> cancellable bid userID b"
      using exec_update_cancelled_NoRows [OF w2 [unfolded Inl] nr] s1 calculation(1) by auto
    moreover have "store w' = store w" using diagnoseCancelFailure_store [OF d] by simp
    ultimately show ?thesis by (simp add: cancellable_def)
  next
    case (Inr b1)
    have "cancels L bid userID (store w) b (store w')"
      using assms w1 w2 s1 unfolding Inr CancelBooking_repo_def cancels_def
      by (auto split: prod.splits sum.splits simp: Let_def
          elim!: exec_stmt_InrE dest!: uuid_New_storeD commit_tx_Inr) blast
    then show ?thesis ..
  qed
qed

lemma GetBookingByID_repo_store: "GetBookingByID_repo bid w = (r, w') \<Longrightarrow> store w' = store w"
  by (auto simp: GetBookingByID_repo_def split: prod.splits sum.splits if_splits dest!: exec_query_store)

lemma ListBookings_repo_store: "ListBookings_repo page pageSize w = (r, w') \<Longrightarrow> store w' = store w"
  by (auto simp: ListBookings_repo_def split: prod.splits sum.splits dest!: query_rows_store)

lemma ListUserBookings_repo_store: "ListUserBookings_repo userID w = (r, w') \<Longrightarrow> store w' = store w"
  using time_Now_store [of w]
  by (auto simp: ListUserBookings_repo_def split: prod.splits dest!: query_rows_store)

lemma UpdateConferenceLink_repo_effect:
  assumes "UpdateConferenceLink_repo bid link w = (r, w')"
  shows "store w' = store w \<or> update_conference_link bid link (store w) = Inr ((), store w')"
    and "r = Inr () \<Longrightarrow> update_conference_link bid link (store w) = Inr ((), store w')"
  using assms
  by (auto simp: UpdateConferenceLink_repo_def split: prod.splits sum.splits
      elim!: exec_stmt_InrE exec_stmt_InlE)

section \<open>Integrity is kept\<close>

lemma creates_slot: "insert_booking now bid slotID userID db = Inr (b, db1) \<Longrightarrow>
    slotID \<in> sl_ID ` set (slots db1)"
  by (erule insert_booking_InrE) simp

lemma creates_ok: "creates L slotID userID db b db' \<Longrightarrow> db_ok db \<Longrightarrow> db_ok db'"
  unfolding creates_def using insert_event_ok insert_booking_ok creates_slot by metis

lemma cancels_slot: "update_cancelled bid userID db = Inr (b, db1) \<Longrightarrow> db_ok db \<Longrightarrow>
    bk_SlotID b \<in> sl_ID ` set (slots db1)"
  by (erule update_cancelled_InrE) (auto simp: db_ok_defs list_all_iff)

lemma cancels_ok: "cancels L bid userID db b db' \<Longrightarrow> db_ok db \<Longrightarrow> db_ok db'"
  unfolding cancels_def using insert_event_ok update_cancelled_ok cancels_slot by metis

lemma CreateBooking_repo_ok:
  "CreateBooking_repo L slotID userID w = (r, w') \<Longrightarrow> db_ok (store w) \<Longrightarrow> db_ok (store w')"
  by (cases r) (auto dest!: CreateBooking_repo_Inl CreateBooking_repo_Inr intro: creates_ok)

lemma CancelBooking_repo_ok:
  "CancelBooking_repo L bid userID w = (r, w') \<Longrightarrow> db_ok (store w) \<Longrightarrow> db_ok (store w')"
  by (cases r) (auto dest!: CancelBooking_repo_Inl CancelBooking_repo_Inr intro: cancels_ok)

lemma UpdateConferenceLink_repo_ok:
  "UpdateConferenceLink_repo bid link w = (r, w') \<Longrightarrow> db_ok (store w) \<Longrightarrow> db_ok (store w')"
  by (auto dest!: UpdateConferenceLink_repo_effect(1) intro: update_conference_link_ok)

end
