(* ===== verification/BookingContract.thy ===== *)
theory BookingContract
  imports BookingModel
begin

text \<open>
  What the booking service asks of its repositories and of the conference client
  (\<open>internal/service/booking/contract.go\<close>): the methods as a record of functions, and as a
  locale the laws that the service relies on, whatever the store is.
\<close>

section \<open>The methods\<close>

record 'd BookingDeps =
  dep_CreateBooking :: "uuid \<Rightarrow> uuid \<Rightarrow> 'd world \<Rightarrow> (model_error, Booking) result \<times> 'd world"
  dep_GetBookingByID :: "uuid \<Rightarrow> 'd world \<Rightarrow> (model_error, Booking) result \<times> 'd world"
  dep_CancelBooking :: "uuid \<Rightarrow> uuid \<Rightarrow> 'd world \<Rightarrow> (model_error, Booking) result \<times> 'd world"
  dep_ListBookings :: "int \<Rightarrow> int \<Rightarrow> 'd world \<Rightarrow> (model_error, Booking list \<times> int) result \<times> 'd world"
  dep_ListUserBookings :: "uuid \<Rightarrow> 'd world \<Rightarrow> (model_error, Booking list) result \<times> 'd world"
  dep_UpdateConferenceLink :: "uuid \<Rightarrow> string \<Rightarrow> 'd world \<Rightarrow> (model_error, unit) result \<times> 'd world"
  dep_GetSlotByID :: "uuid \<Rightarrow> 'd world \<Rightarrow> (model_error, Slot) result \<times> 'd world"
  dep_CreateLink :: "uuid \<Rightarrow> 'd world \<Rightarrow> (model_error, string) result \<times> 'd world"

text \<open>The table with the link of one booking set.\<close>

definition set_link :: "uuid \<Rightarrow> string \<Rightarrow> Booking list \<Rightarrow> Booking list" where
  "set_link bid link table = update_where (\<lambda>b. bk_ID b = bid) (\<lambda>b. b\<lparr>bk_ConferenceLink := Some link\<rparr>) table"

text \<open>The table with one booking cancelled.\<close>

definition set_cancelled :: "uuid \<Rightarrow> Booking list \<Rightarrow> Booking list" where
  "set_cancelled bid table = update_where (\<lambda>b. bk_ID b = bid) (\<lambda>b. b\<lparr>bk_Status := BookingStatusCancelled\<rparr>) table"

section \<open>The laws\<close>

locale booking_backend =
  fixes D :: "'d BookingDeps"
    and inv :: "'d \<Rightarrow> bool"
    and booking_table :: "'d \<Rightarrow> Booking list"
    and slot_table :: "'d \<Rightarrow> Slot list"
  assumes inv_distinct: "inv d \<Longrightarrow> distinct (map bk_ID (booking_table d))"
    and get_slot_reads: "dep_GetSlotByID D sid w = (r1, w') \<Longrightarrow> store w' = store w \<and> clock w \<le> clock w'"
    and get_slot_returns: "dep_GetSlotByID D sid w = (Inr s, w') \<Longrightarrow> s \<in> set (slot_table (store w)) \<and> sl_ID s = sid"
    and link_reads: "dep_CreateLink D bid w = (r2, w') \<Longrightarrow> store w' = store w"
    and create_keeps: "dep_CreateBooking D sid uid w = (r3, w') \<Longrightarrow> inv (store w) \<Longrightarrow> inv (store w')"
    and create_returns:
      "dep_CreateBooking D sid uid w = (Inr b, w') \<Longrightarrow> inv (store w) \<Longrightarrow>
       booking_table (store w') = booking_table (store w) @ [b] \<and>
       bk_SlotID b = sid \<and> bk_UserID b = uid \<and> active b \<and> bk_ConferenceLink b = None \<and>
       (\<forall>x \<in> set (booking_table (store w)). active x \<longrightarrow> bk_SlotID x \<noteq> sid)"
    and create_slots: "dep_CreateBooking D sid uid w = (r4, w') \<Longrightarrow> slot_table (store w') = slot_table (store w)"
    and update_keeps: "dep_UpdateConferenceLink D bid link w = (r5, w') \<Longrightarrow> inv (store w) \<Longrightarrow> inv (store w')"
    and update_effect:
      "dep_UpdateConferenceLink D bid link w = (r6, w') \<Longrightarrow>
       slot_table (store w') = slot_table (store w) \<and>
       (booking_table (store w') = booking_table (store w) \<or>
        booking_table (store w') = set_link bid link (booking_table (store w)))"
    and update_returns:
      "dep_UpdateConferenceLink D bid link w = (Inr u, w') \<Longrightarrow>
       booking_table (store w') = set_link bid link (booking_table (store w))"
    and cancel_keeps: "dep_CancelBooking D bid uid w = (r7, w') \<Longrightarrow> inv (store w) \<Longrightarrow> inv (store w')"
    and cancel_returns:
      "dep_CancelBooking D bid uid w = (Inr b, w') \<Longrightarrow> inv (store w) \<Longrightarrow>
       booking_table (store w') = set_cancelled bid (booking_table (store w)) \<and>
       b \<in> set (booking_table (store w')) \<and> bk_ID b = bid \<and> bk_UserID b = uid \<and> \<not> active b"

end
