(* ===== verification/BookingService.thy ===== *)
theory BookingService
  imports BookingRepo SlotRepo BookingContract
begin

text \<open>
  \<open>booking-service/internal/service/booking/booking.go\<close> and the conference client
  \<open>internal/client/conference/conference.go\<close>: a booking is created by the repository after a
  look at the slot's start, and its conference link is added on a best-effort basis.
\<close>

section \<open>The conference client\<close>

definition CreateLink :: "externals \<Rightarrow> uuid \<Rightarrow> 'd world \<Rightarrow> (model_error, string) result \<times> 'd world" where
  "CreateLink L bookingID w = (Inr (''https://conference.example/meeting/'' @ uuid_String L bookingID), w)"

section \<open>The service methods\<close>

definition CreateBooking ::
    "'d BookingDeps \<Rightarrow> uuid \<Rightarrow> uuid \<Rightarrow> bool \<Rightarrow> 'd world \<Rightarrow> (model_error, Booking) result \<times> 'd world" where
  "CreateBooking D slotID userID createConferenceLink w =
    (case dep_GetSlotByID D slotID w of
       (Inl e, w1) \<Rightarrow> (Inl (Wrap ''booking service: get slot'' e), w1)
     | (Inr slot, w1) \<Rightarrow>
       (let (now, w2) = time_Now w1 in
        if sl_StartAt slot < now then (Inl (Wrap ''booking service'' (Sentinel ErrSlotInPast)), w2)
        else
          (case dep_CreateBooking D slotID userID w2 of
             (Inl e, w3) \<Rightarrow> (Inl (Wrap ''booking service: create'' e), w3)
           | (Inr booking, w3) \<Rightarrow>
             (if createConferenceLink then
                (case dep_CreateLink D (bk_ID booking) w3 of
                   (Inl e, w4) \<Rightarrow> (Inr booking, w4)
                 | (Inr link, w4) \<Rightarrow>
                   (case dep_UpdateConferenceLink D (bk_ID booking) link w4 of
                      (Inl e, w5) \<Rightarrow> (Inr booking, w5)
                    | (Inr _, w5) \<Rightarrow> (Inr (booking\<lparr>bk_ConferenceLink := Some link\<rparr>), w5)))
              else (Inr booking, w3)))))"

definition CancelBooking ::
    "'d BookingDeps \<Rightarrow> uuid \<Rightarrow> uuid \<Rightarrow> 'd world \<Rightarrow> (model_error, Booking) result \<times> 'd world" where
  "CancelBooking D bookingID userID w =
    (case dep_CancelBooking D bookingID userID w of
       (Inl e, w1) \<Rightarrow> (Inl (Wrap ''booking service: cancel'' e), w1)
     | (Inr booking, w1) \<Rightarrow> (Inr booking, w1))"

definition ListBookings ::
    "'d BookingDeps \<Rightarrow> int \<Rightarrow> int \<Rightarrow> 'd world \<Rightarrow> (model_error, Booking list \<times> int) result \<times> 'd world" where
  "ListBookings D page pageSize w =
    (case dep_ListBookings D page pageSize w of
       (Inl e, w1) \<Rightarrow> (Inl (Wrap ''booking service: list'' e), w1)
     | (Inr (bs, n), w1) \<Rightarrow> (Inr (bs, n), w1))"

definition ListUserBookings ::
    "'d BookingDeps \<Rightarrow> uuid \<Rightarrow> 'd world \<Rightarrow> (model_error, Booking list) result \<times> 'd world" where
  "ListUserBookings D userID w =
    (case dep_ListUserBookings D userID w of
       (Inl e, w1) \<Rightarrow> (Inl (Wrap ''booking service: list user'' e), w1)
     | (Inr bs, w1) \<Rightarrow> (Inr bs, w1))"

section \<open>What the service promises\<close>

lemma set_link_append [simp]:
  "set_link bid link (table @ [b]) = set_link bid link table @ (if bk_ID b = bid then [b\<lparr>bk_ConferenceLink := Some link\<rparr>] else [b])"
  by (simp add: set_link_def update_where_def)

lemma set_link_other: "bid \<notin> bk_ID ` set table \<Longrightarrow> set_link bid link table = table"
  unfolding set_link_def by (rule update_where_none) auto

text \<open>The stored booking is the returned one, up to a link whose write was not acknowledged.\<close>

definition same_booking :: "Booking \<Rightarrow> Booking \<Rightarrow> bool" where
  "same_booking b b' \<longleftrightarrow> b\<lparr>bk_ConferenceLink := None\<rparr> = b'\<lparr>bk_ConferenceLink := None\<rparr> \<and>
     (bk_ConferenceLink b \<noteq> None \<longrightarrow> bk_ConferenceLink b' = bk_ConferenceLink b)"

lemma same_booking_simps:
  assumes "same_booking b b'"
  shows "bk_ID b' = bk_ID b" "bk_SlotID b' = bk_SlotID b" "bk_UserID b' = bk_UserID b"
    "active b' = active b" "bk_CreatedAt b' = bk_CreatedAt b"
  using assms by (cases b; cases b'; simp add: same_booking_def active_def)+

lemma same_booking_refl [simp]: "same_booking b b"
  by (simp add: same_booking_def)

lemma same_booking_link [simp]: "bk_ConferenceLink b = None \<Longrightarrow> same_booking b (b\<lparr>bk_ConferenceLink := l\<rparr>)"
  by (simp add: same_booking_def)

text \<open>How a booking comes to be returned.\<close>

lemma CreateBooking_InrE:
  assumes "CreateBooking D slotID userID link w = (Inr b, w')"
  obtains slot w1 now w2 b0 w3 where
    "dep_GetSlotByID D slotID w = (Inr slot, w1)" "time_Now w1 = (now, w2)" "now \<le> sl_StartAt slot"
    "dep_CreateBooking D slotID userID w2 = (Inr b0, w3)"
    "b = b0 \<and> w' = w3 \<or>
     (\<exists>e. dep_CreateLink D (bk_ID b0) w3 = (Inl e, w') \<and> b = b0) \<or>
     (\<exists>l w4 e. dep_CreateLink D (bk_ID b0) w3 = (Inr l, w4) \<and>
        dep_UpdateConferenceLink D (bk_ID b0) l w4 = (Inl e, w') \<and> b = b0) \<or>
     (\<exists>l w4 u. dep_CreateLink D (bk_ID b0) w3 = (Inr l, w4) \<and>
        dep_UpdateConferenceLink D (bk_ID b0) l w4 = (Inr u, w') \<and> b = b0\<lparr>bk_ConferenceLink := Some l\<rparr>)"
  using assms
  by (auto simp: CreateBooking_def Let_def not_less split: prod.splits sum.splits if_splits)

lemma CreateBooking_InlE:
  assumes "CreateBooking D slotID userID link w = (Inl e, w')"
  obtains (no_slot) e1 where "dep_GetSlotByID D slotID w = (Inl e1, w')" "e = Wrap ''booking service: get slot'' e1"
  | (past) slot w1 now where "dep_GetSlotByID D slotID w = (Inr slot, w1)" "time_Now w1 = (now, w')"
      "sl_StartAt slot < now" "e = Wrap ''booking service'' (Sentinel ErrSlotInPast)"
  | (refused) slot w1 now w2 e1 where "dep_GetSlotByID D slotID w = (Inr slot, w1)" "time_Now w1 = (now, w2)"
      "now \<le> sl_StartAt slot" "dep_CreateBooking D slotID userID w2 = (Inl e1, w')"
      "e = Wrap ''booking service: create'' e1"
  using assms
  by (auto simp: CreateBooking_def Let_def not_less split: prod.splits sum.splits if_splits)

context booking_backend begin

text \<open>
  A returned booking is in the table, is held by nobody else, and its slot has not begun; all
  other bookings are as they were.
\<close>

lemma create_promise:
  assumes run: "CreateBooking D slotID userID link w = (Inr b, w')" and inv: "inv (store w)"
  shows "\<exists>b'. booking_table (store w') = booking_table (store w) @ [b'] \<and> same_booking b b' \<and>
      bk_SlotID b' = slotID \<and> bk_UserID b' = userID \<and> active b' \<and>
      (\<forall>x \<in> set (booking_table (store w)). active x \<longrightarrow> bk_SlotID x \<noteq> slotID) \<and>
      (\<exists>s \<in> set (slot_table (store w')). sl_ID s = slotID \<and> clock w \<le> sl_StartAt s)"
proof -
  from run obtain slot w1 now w2 b0 w3 where g: "dep_GetSlotByID D slotID w = (Inr slot, w1)"
    and t: "time_Now w1 = (now, w2)" "now \<le> sl_StartAt slot"
    and c: "dep_CreateBooking D slotID userID w2 = (Inr b0, w3)"
    and tail: "b = b0 \<and> w' = w3 \<or>
       (\<exists>e. dep_CreateLink D (bk_ID b0) w3 = (Inl e, w') \<and> b = b0) \<or>
       (\<exists>l w4 e. dep_CreateLink D (bk_ID b0) w3 = (Inr l, w4) \<and>
          dep_UpdateConferenceLink D (bk_ID b0) l w4 = (Inl e, w') \<and> b = b0) \<or>
       (\<exists>l w4 u. dep_CreateLink D (bk_ID b0) w3 = (Inr l, w4) \<and>
          dep_UpdateConferenceLink D (bk_ID b0) l w4 = (Inr u, w') \<and> b = b0\<lparr>bk_ConferenceLink := Some l\<rparr>)"
    by (rule CreateBooking_InrE)
  note reads = get_slot_reads [OF g] time_Now_storeD [OF t(1)]
  have inv2: "inv (store w2)" using inv reads by simp
  note ret = create_returns [OF c inv2]
  have table: "booking_table (store w3) = booking_table (store w) @ [b0]" using ret reads by simp
  have own: "bk_ID b0 \<notin> bk_ID ` set (booking_table (store w))"
    using inv_distinct [OF create_keeps [OF c inv2]] by (simp add: table)
  have sl: "slot_table (store w3) = slot_table (store w)" using create_slots [OF c] reads by simp
  have now: "clock w \<le> sl_StartAt slot"
    using t time_Now_monotone [of w1] reads by simp
  have result: "\<exists>b'. booking_table (store w') = booking_table (store w) @ [b'] \<and> same_booking b b' \<and> same_booking b0 b' \<and>
      slot_table (store w') = slot_table (store w3)"
    using tail
  proof (elim disjE exE conjE)
    fix l w4 e
    assume h: "dep_CreateLink D (bk_ID b0) w3 = (Inr l, w4)"
      "dep_UpdateConferenceLink D (bk_ID b0) l w4 = (Inl e, w')" "b = b0"
    from update_effect [OF h(2)] show ?thesis
      using link_reads [OF h(1)] table ret h(3) by (auto simp: set_link_other [OF own])
  next
    fix l w4 u
    assume h: "dep_CreateLink D (bk_ID b0) w3 = (Inr l, w4)"
      "dep_UpdateConferenceLink D (bk_ID b0) l w4 = (Inr u, w')" "b = b0\<lparr>bk_ConferenceLink := Some l\<rparr>"
    from update_returns [OF h(2)] update_effect [OF h(2)] show ?thesis
      using link_reads [OF h(1)] table ret h(3) by (auto simp: set_link_other [OF own])
  qed (use table link_reads in auto)
  then obtain b' where b': "booking_table (store w') = booking_table (store w) @ [b']" "same_booking b b'"
    "same_booking b0 b'" "slot_table (store w') = slot_table (store w3)" by blast
  have s: "slot \<in> set (slot_table (store w'))" "sl_ID slot = slotID"
    using get_slot_returns [OF g] b'(4) sl by simp_all
  have "bk_SlotID b' = slotID" "bk_UserID b' = userID" "active b'"
    using ret same_booking_simps [OF b'(3)] by simp_all
  then show ?thesis using b'(1,2) ret reads now s by auto
qed

lemma create_keeps_inv:
  assumes run: "CreateBooking D slotID userID link w = (r, w')" and inv: "inv (store w)"
  shows "inv (store w')"
proof (cases r)
  case (Inl e)
  with run have "CreateBooking D slotID userID link w = (Inl e, w')" by simp
  then show ?thesis
    by (cases rule: CreateBooking_InlE)
      (use inv in \<open>auto dest!: get_slot_reads time_Now_storeD create_keeps\<close>)
next
  case (Inr b)
  with run have "CreateBooking D slotID userID link w = (Inr b, w')" by simp
  then show ?thesis
    by (rule CreateBooking_InrE)
      (use inv in \<open>auto dest!: get_slot_reads time_Now_storeD create_keeps link_reads update_keeps\<close>)
qed

text \<open>A cancellation that is answered holds, however often it is repeated.\<close>

lemma cancel_promise:
  assumes run: "CancelBooking D bookingID userID w = (Inr b, w')" and inv: "inv (store w)"
  shows "b \<in> set (booking_table (store w')) \<and> bk_ID b = bookingID \<and> bk_UserID b = userID \<and> \<not> active b \<and>
    booking_table (store w') = set_cancelled bookingID (booking_table (store w))"
proof -
  have "dep_CancelBooking D bookingID userID w = (Inr b, w')"
    using run by (auto simp: CancelBooking_def split: prod.splits sum.splits)
  from cancel_returns [OF this inv] show ?thesis by blast
qed

lemma cancel_again:
  assumes "CancelBooking D bookingID userID w = (Inr b, w')" and inv: "inv (store w)"
    and "store v = store w'" and "CancelBooking D bookingID userID v = (Inr b2, v')"
  shows "b2 = b \<and> booking_table (store v') = booking_table (store v)"
proof -
  have inv': "inv (store w')"
    using assms(1) cancel_keeps [OF _ inv] by (auto simp: CancelBooking_def split: prod.splits sum.splits)
  note p = cancel_promise [OF assms(1) inv]
  from inv' assms(3) have "inv (store v)" by simp
  note q = cancel_promise [OF assms(4) this]
  have same: "booking_table (store v') = booking_table (store v)"
    using q p by (auto simp: assms(3) set_cancelled_def update_where_def)
  with p q inv_distinct [OF inv'] assms(3) have "b2 = b"
    by (auto simp: distinct_map dest: inj_onD)
  with same show ?thesis by simp
qed

end

section \<open>The contract is met\<close>

definition pg_booking_deps :: "externals \<Rightarrow> BookingDB BookingDeps" where
  "pg_booking_deps L = \<lparr> dep_CreateBooking = CreateBooking_repo L, dep_GetBookingByID = GetBookingByID_repo,
     dep_CancelBooking = CancelBooking_repo L, dep_ListBookings = ListBookings_repo,
     dep_ListUserBookings = ListUserBookings_repo, dep_UpdateConferenceLink = UpdateConferenceLink_repo,
     dep_GetSlotByID = GetSlotByID_repo, dep_CreateLink = CreateLink L \<rparr>"

lemma pg_booking_deps_simps [simp]:
  "dep_CreateBooking (pg_booking_deps L) = CreateBooking_repo L"
  "dep_GetBookingByID (pg_booking_deps L) = GetBookingByID_repo"
  "dep_CancelBooking (pg_booking_deps L) = CancelBooking_repo L"
  "dep_ListBookings (pg_booking_deps L) = ListBookings_repo"
  "dep_ListUserBookings (pg_booking_deps L) = ListUserBookings_repo"
  "dep_UpdateConferenceLink (pg_booking_deps L) = UpdateConferenceLink_repo"
  "dep_GetSlotByID (pg_booking_deps L) = GetSlotByID_repo"
  "dep_CreateLink (pg_booking_deps L) = CreateLink L"
  by (simp_all add: pg_booking_deps_def)

lemma GetSlotByID_repo_returns:
  "GetSlotByID_repo sid w = (Inr s, w') \<Longrightarrow> s \<in> set (slots (store w)) \<and> sl_ID s = sid"
  by (auto simp: GetSlotByID_repo_def select_slot_def split: prod.splits sum.splits if_splits option.splits
      elim!: exec_stmt_InrE dest!: find_by_Some)

lemma GetSlotByID_repo_clock: "GetSlotByID_repo sid w = (r, w') \<Longrightarrow> clock w' = clock w"
  by (auto simp: GetSlotByID_repo_def split: prod.splits sum.splits if_splits dest!: exec_stmt_clock)

lemma creates_slots: "creates L slotID userID db b db' \<Longrightarrow> slots db' = slots db"
  by (auto simp: creates_def insert_event_def Let_def split: if_splits elim!: insert_booking_InrE)

lemma creates_table:
  assumes "creates L slotID userID db b db'" and "db_ok db"
  shows "bookings db' = bookings db @ [b]" "slots db' = slots db" "bk_SlotID b = slotID" "bk_UserID b = userID"
    "active b" "bk_ConferenceLink b = None" "holder db slotID = None"
proof -
  from assms(1) obtain now bid oid db1 where i: "insert_booking now bid slotID userID db = Inr (b, db1)"
    and e: "insert_event L ''booking.created'' oid now b slotID db1 = Inr ((), db')"
    unfolding creates_def by blast
  have o: "bookings db' = bookings db1" "slots db' = slots db1"
    using e by (auto simp: insert_event_def Let_def split: if_splits)
  show "bookings db' = bookings db @ [b]" "slots db' = slots db" "bk_SlotID b = slotID" "bk_UserID b = userID"
    "active b" "bk_ConferenceLink b = None" "holder db slotID = None"
    using i by (auto elim!: insert_booking_InrE simp: o active_def)
qed

lemma cancels_table:
  assumes "cancels L bid userID db b db'" and "db_ok db"
  shows "bookings db' = set_cancelled bid (bookings db)" "b \<in> set (bookings db')" "bk_ID b = bid"
    "bk_UserID b = userID" "\<not> active b" "slots db' = slots db"
    "\<exists>b0 \<in> set (bookings db). cancellable bid userID b0 \<and> b = cancelled b0"
proof -
  from assms(1) obtain now oid db1 where i: "update_cancelled bid userID db = Inr (b, db1)"
    and e: "insert_event L ''booking.cancelled'' oid now b (bk_SlotID b) db1 = Inr ((), db')"
    unfolding cancels_def by blast
  have o: "bookings db' = bookings db1" "slots db' = slots db1"
    using e by (auto simp: insert_event_def Let_def split: if_splits)
  obtain b0 where b0: "b0 \<in> set (bookings db)" "cancellable bid userID b0" "b = cancelled b0"
    and db1: "db1 = db\<lparr>bookings := update_where (cancellable bid userID) cancelled (bookings db)\<rparr>"
    by (rule update_cancelled_InrE [OF i])
  have "cancellable bid userID x \<longleftrightarrow> bk_ID x = bid" if "x \<in> set (bookings db)" for x
    using that b0(1,2) assms(2) inj_onD [of bk_ID "set (bookings db)" x b0]
    by (auto simp: db_ok_defs distinct_map cancellable_def)
  then show "bookings db' = set_cancelled bid (bookings db)"
    by (auto simp: o db1 set_cancelled_def update_where_def cancelled_def)
  show "b \<in> set (bookings db')" using b0 by (auto simp: o db1 set_update_where)
  show "bk_ID b = bid" "bk_UserID b = userID" "\<not> active b" "slots db' = slots db"
    "\<exists>b0 \<in> set (bookings db). cancellable bid userID b0 \<and> b = cancelled b0"
    using b0 by (auto simp: o db1 cancellable_def)
qed

lemma set_cancelled_id:
  assumes "distinct (map bk_ID table)" "b \<in> set table" "bk_ID b = bid" "\<not> active b"
  shows "set_cancelled bid table = table"
proof -
  have "x\<lparr>bk_Status := BookingStatusCancelled\<rparr> = x" if "x \<in> set table" "bk_ID x = bid" for x
  proof -
    have "x = b" using assms that by (auto simp: distinct_map dest: inj_onD)
    then show ?thesis using assms(4) by (cases b; cases "bk_Status b") (simp_all add: active_def)
  qed
  then show ?thesis by (auto simp: set_cancelled_def update_where_def intro: map_idI)
qed

lemma update_conference_link_table:
  "update_conference_link bid link db = Inr (u, db') \<Longrightarrow>
   bookings db' = set_link bid link (bookings db) \<and> slots db' = slots db"
  by (auto simp: update_conference_link_def set_link_def)

interpretation pg_bookings: booking_backend "pg_booking_deps L" db_ok bookings slots for L
proof (unfold_locales, goal_cases)
  case (1 d)
  then show ?case by (simp add: db_ok_defs)
next
  case (2 sid w r1 w')
  then show ?case by (simp add: GetSlotByID_repo_store GetSlotByID_repo_clock)
next
  case (3 sid w s w')
  then show ?case by (simp add: GetSlotByID_repo_returns)
next
  case (4 bid w r2 w')
  then show ?case by (simp add: CreateLink_def)
next
  case (5 sid uid w r3 w')
  then show ?case by (simp add: CreateBooking_repo_ok)
next
  case (6 sid uid w b w')
  then have "creates L sid uid (store w) b (store w')" by (simp add: CreateBooking_repo_Inr)
  from creates_table [OF this 6(2)] show ?case by (auto simp: holder_None)
next
  case (7 sid uid w r4 w')
  then show ?case
    by (cases r4) (auto dest!: CreateBooking_repo_Inl CreateBooking_repo_Inr creates_slots)
next
  case (8 bid link w r5 w')
  then show ?case by (simp add: UpdateConferenceLink_repo_ok)
next
  case (9 bid link w r6 w')
  then show ?case
    by (auto dest!: UpdateConferenceLink_repo_effect(1) dest: update_conference_link_table)
next
  case (10 bid link w u w')
  then show ?case
    by (auto dest!: UpdateConferenceLink_repo_effect(2) dest: update_conference_link_table)
next
  case (11 bid uid w r7 w')
  then show ?case by (simp add: CancelBooking_repo_ok)
next
  case (12 bid uid w b w')
  then have "CancelBooking_repo L bid uid w = (Inr b, w')" by simp
  from CancelBooking_repo_Inr [OF this] show ?case
  proof
    assume "cancels L bid uid (store w) b (store w')"
    from cancels_table [OF this 12(2)] show ?case by simp
  next
    assume "store w' = store w \<and> b \<in> set (bookings (store w)) \<and> bk_ID b = bid \<and> bk_UserID b = uid \<and> \<not> active b"
    then show ?case using 12(2) set_cancelled_id [of "bookings (store w)" b bid] by (simp add: db_ok_defs)
  qed
qed

section \<open>Every branch, when the database answers\<close>

lemma insert_event_fresh:
  "oid \<notin> ob_id ` set (outbox db) \<Longrightarrow>
   insert_event L k oid now b slotID db = Inr ((), db\<lparr>outbox := outbox db @ event_rows L k oid now b slotID db\<rparr>)"
  by (simp add: insert_event_def)

text \<open>The answer that a request for a booking gets from a state, at a time, with an identifier.\<close>

definition create_answer ::
    "BookingDB \<Rightarrow> uuid \<Rightarrow> uuid \<Rightarrow> string option \<Rightarrow> time \<Rightarrow> uuid \<Rightarrow> time \<Rightarrow> model_error option + Booking" where
  "create_answer db slotID userID link now bid created =
    (case find_by sl_ID slotID (slots db) of
       None \<Rightarrow> Inl (Some ErrSlotNotFound)
     | Some s \<Rightarrow>
       (if sl_StartAt s < now then Inl (Some ErrSlotInPast)
        else if holder db slotID \<noteq> None then Inl (Some ErrSlotAlreadyBooked)
        else if userID \<notin> us_ID ` set (users db) then Inl None
        else Inr \<lparr> bk_ID = bid, bk_SlotID = slotID, bk_UserID = userID, bk_Status = BookingStatusActive,
                   bk_ConferenceLink = link, bk_CreatedAt = created \<rparr>))"

lemma calm_CreateBooking_repo:
  assumes "calm w" and "bid = gen w (gen_pos w)" and "oid = gen w (Suc (gen_pos w))"
    and "bid \<notin> bk_ID ` set (bookings (store w))" and "oid \<notin> ob_id ` set (outbox (store w))"
    and "slotID \<in> sl_ID ` set (slots (store w))"
  shows "outcome (fst (CreateBooking_repo L slotID userID w)) =
      (if holder (store w) slotID \<noteq> None then Inl (Some ErrSlotAlreadyBooked)
       else if userID \<notin> us_ID ` set (users (store w)) then Inl None
       else Inr \<lparr> bk_ID = bid, bk_SlotID = slotID, bk_UserID = userID, bk_Status = BookingStatusActive,
                  bk_ConferenceLink = None, bk_CreatedAt = fst (time_Now w) \<rparr>)"
    and "calm (snd (CreateBooking_repo L slotID userID w))"
  using assms
  by (simp_all add: CreateBooking_repo_def calm_db uuid_New_def time_Now_store insert_booking_def
      insert_event_fresh create_booking_error_def Let_def)

lemma calm_GetSlotByID_repo:
  "calm w \<Longrightarrow> GetSlotByID_repo sid w =
     (case find_by sl_ID sid (slots (store w)) of
        None \<Rightarrow> (Inl (Wrap ''get slot by id'' (Sentinel ErrSlotNotFound)), w)
      | Some s \<Rightarrow> (Inr s, w))"
  by (simp add: GetSlotByID_repo_def calm_exec_stmt query_def select_slot_def split: option.split)

lemma CreateBooking_decides:
  assumes c: "calm w" and ok: "db_ok (store w)"
    and fresh: "gen w (gen_pos w) \<notin> bk_ID ` set (bookings (store w))"
      "gen w (Suc (gen_pos w)) \<notin> ob_id ` set (outbox (store w))"
  shows "outcome (fst (CreateBooking (pg_booking_deps L) slotID userID link w)) =
     create_answer (store w) slotID userID
       (if link then Some (''https://conference.example/meeting/'' @ uuid_String L (gen w (gen_pos w))) else None)
       (fst (time_Now w)) (gen w (gen_pos w)) (fst (time_Now (snd (time_Now w))))"
proof (cases "find_by sl_ID slotID (slots (store w))")
  case None
  then show ?thesis by (simp add: CreateBooking_def calm_GetSlotByID_repo c create_answer_def)
next
  case (Some s)
  let ?w = "snd (time_Now w)"
  have gen: "gen ?w = gen w" "gen_pos ?w = gen_pos w" "store ?w = store w"
    by (simp_all add: time_Now_store)
  have in_table: "slotID \<in> sl_ID ` set (slots (store w))" using find_by_Some [OF Some] by auto
  obtain r w3 where r: "CreateBooking_repo L slotID userID ?w = (r, w3)" by fastforce
  have repo: "outcome r = (if holder (store w) slotID \<noteq> None then Inl (Some ErrSlotAlreadyBooked)
       else if userID \<notin> us_ID ` set (users (store w)) then Inl None
       else Inr \<lparr> bk_ID = gen w (gen_pos w), bk_SlotID = slotID, bk_UserID = userID, bk_Status = BookingStatusActive,
                  bk_ConferenceLink = None, bk_CreatedAt = fst (time_Now ?w) \<rparr>)" "calm w3"
    using calm_CreateBooking_repo [of ?w "gen w (gen_pos w)" "gen w (Suc (gen_pos w))" slotID L userID]
      c fresh in_table r gen by auto
  show ?thesis
  proof (cases "sl_StartAt s < fst (time_Now w)")
    case True
    then show ?thesis
      using Some by (cases "time_Now w") (simp add: CreateBooking_def calm_GetSlotByID_repo c create_answer_def)
  next
    case False
    then show ?thesis
      using Some repo r
      by (cases "time_Now w"; cases r) (auto simp: CreateBooking_def calm_GetSlotByID_repo c create_answer_def
          CreateLink_def UpdateConferenceLink_repo_def calm_exec_stmt update_conference_link_def split: if_splits)
  qed
qed

text \<open>Cancelling: by the owner always, by anybody else as if the booking did not exist.\<close>

lemma find_cancellable:
  assumes "distinct (map bk_ID bs)" "find_by bk_ID bid bs = Some b"
  shows "find (cancellable bid userID) bs = (if active b \<and> bk_UserID b = userID then Some b else None)"
proof (cases "active b \<and> bk_UserID b = userID")
  case True
  then have "cancellable bid userID b" "b \<in> set bs" using find_by_Some [OF assms(2)] by (auto simp: cancellable_def)
  moreover have "x = b" if "x \<in> set bs" "cancellable bid userID x" for x
    using assms that find_by_Some [OF assms(2)] by (auto simp: cancellable_def distinct_map dest: inj_onD)
  ultimately have "find (cancellable bid userID) bs = Some b"
    by (metis find_None_all find_Some_in option.exhaust)
  then show ?thesis using True by simp
next
  case False
  have "\<not> cancellable bid userID x" if "x \<in> set bs" for x
    using assms that False by (auto simp: cancellable_def dest: find_by_distinct)
  then have "find (cancellable bid userID) bs = None" by (simp add: find_None_all)
  then show ?thesis using False by simp
qed

lemma CancelBooking_decides:
  assumes c: "calm w" and ok: "db_ok (store w)" and fresh: "gen w (gen_pos w) \<notin> ob_id ` set (outbox (store w))"
  shows "outcome (fst (CancelBooking (pg_booking_deps L) bookingID userID w)) =
    (case find_by bk_ID bookingID (bookings (store w)) of
       None \<Rightarrow> Inl (Some ErrBookingNotFound)
     | Some b \<Rightarrow> if bk_UserID b = userID then Inr (cancelled b) else Inl (Some ErrBookingNotFound))"
proof (cases "find_by bk_ID bookingID (bookings (store w))")
  case None
  then have "find (cancellable bookingID userID) (bookings (store w)) = None"
    by (auto simp: find_by_None find_None_all cancellable_def)
  with None show ?thesis
    by (simp add: CancelBooking_def CancelBooking_repo_def calm_db c update_cancelled_def time_Now_store
        diagnoseCancelFailure_def GetBookingByID_repo_def query_def select_booking_def)
next
  case (Some b)
  have d: "distinct (map bk_ID (bookings (store w)))" using ok by (simp add: db_ok_defs)
  note f = find_cancellable [OF d Some, of userID]
  have same: "\<not> active b \<Longrightarrow> cancelled b = b" by (cases b; cases "bk_Status b") (simp_all add: active_def cancelled_def)
  show ?thesis
  proof (cases "active b \<and> bk_UserID b = userID")
    case True
    with Some f fresh show ?thesis
      by (simp add: CancelBooking_def CancelBooking_repo_def calm_db c update_cancelled_def time_Now_store
          uuid_New_def insert_event_def Let_def)
  next
    case False
    with Some f same show ?thesis
      by (auto simp: CancelBooking_def CancelBooking_repo_def calm_db c update_cancelled_def time_Now_store
          diagnoseCancelFailure_def GetBookingByID_repo_def query_def select_booking_def)
  qed
qed

end
