(* ===== verification/AuthContract.thy ===== *)
theory AuthContract
  imports BookingModel
begin

text \<open>
  What the authentication service asks of the users repository
  (\<open>internal/service/auth/contract.go\<close>), as a record of methods and the laws about them.
\<close>

record 'd UserDeps =
  dep_GetUserByEmail :: "string \<Rightarrow> 'd world \<Rightarrow> (model_error, User) result \<times> 'd world"
  dep_CreateUser :: "string \<Rightarrow> string \<Rightarrow> Role \<Rightarrow> 'd world \<Rightarrow> (model_error, User) result \<times> 'd world"

locale user_backend =
  fixes D :: "'d UserDeps"
    and inv :: "'d \<Rightarrow> bool"
    and user_table :: "'d \<Rightarrow> User list"
  assumes emails_distinct: "inv d \<Longrightarrow> distinct (map us_Email (user_table d))"
    and get_reads: "dep_GetUserByEmail D email w = (r1, w') \<Longrightarrow> store w' = store w"
    and get_returns:
      "dep_GetUserByEmail D email w = (Inr u, w') \<Longrightarrow> u \<in> set (user_table (store w)) \<and> us_Email u = email"
    and get_misses:
      "dep_GetUserByEmail D email w = (Inl e, w') \<Longrightarrow> errors_Is e ErrInvalidCredentials \<Longrightarrow>
       email \<notin> us_Email ` set (user_table (store w))"
    and create_keeps: "dep_CreateUser D email h role w = (r2, w') \<Longrightarrow> inv (store w) \<Longrightarrow> inv (store w')"
    and create_returns:
      "dep_CreateUser D email h role w = (Inr u, w') \<Longrightarrow>
       user_table (store w') = user_table (store w) @ [u] \<and>
       us_Email u = email \<and> us_Password u = Some h \<and> us_Role u = role"

end
