(* ===== verification/AuthService.thy ===== *)
theory AuthService
  imports CatalogRepo AuthContract
begin

text \<open>
  \<open>booking-service/internal/service/auth/auth.go\<close> and \<open>internal/pkg/jwt/jwt.go\<close>:
  registration, login, and the tokens that both services accept.
\<close>

section \<open>Tokens\<close>

definition tokenTTL :: duration where "tokenTTL = 24 * Hour"

definition GenerateToken ::
    "externals \<Rightarrow> uuid \<Rightarrow> string \<Rightarrow> string \<Rightarrow> 'd world \<Rightarrow> (model_error, string) result \<times> 'd world" where
  "GenerateToken L userID role secret w =
    (let (t1, w1) = time_Now w; (t2, w2) = time_Now w1;
         claims = \<lparr> ExpiresAt = jwt_NewNumericDate L (t1 + tokenTTL), IssuedAt = jwt_NewNumericDate L t2,
                    cl_UserID = userID, cl_Role = role \<rparr>
     in case jwt_SignedString L ''HS256'' claims secret of
          None \<Rightarrow> (Inl (Wrap ''signing token'' (Opaque ''sign'')), w2)
        | Some tokenString \<Rightarrow> (Inr tokenString, w2))"

text \<open>The key function: the secret for an algorithm of the HMAC family, an error for any other.\<close>

definition hmac_key :: "string \<Rightarrow> string \<Rightarrow> string option" where
  "hmac_key secret alg = (if alg \<in> {''HS256'', ''HS384'', ''HS512''} then Some secret else None)"

definition ParseToken ::
    "externals \<Rightarrow> string \<Rightarrow> string \<Rightarrow> 'd world \<Rightarrow> (model_error, uuid \<times> string) result \<times> 'd world" where
  "ParseToken L tokenString secret w =
    (let (now, w1) = time_Now w in
     case jwt_ParseWithClaims L tokenString (hmac_key secret) now of
       None \<Rightarrow> (Inl (Wrap ''parsing token'' (Opaque ''parse'')), w1)
     | Some c \<Rightarrow> (Inr (cl_UserID c, cl_Role c), w1))"

text \<open>
  What is used of \<open>golang-jwt\<close>: a numeric date is the time cut to seconds, and a signed token
  is accepted exactly until it expires by whoever looks up its key, and by nobody who refuses
  its algorithm.
\<close>

definition jwt_ok :: "externals \<Rightarrow> bool" where
  "jwt_ok L \<longleftrightarrow>
     (\<forall>t. t - Second < jwt_NewNumericDate L t \<and> jwt_NewNumericDate L t \<le> t) \<and>
     (\<forall>alg c key tok kf now e i.
        jwt_SignedString L alg c key = Some tok \<longrightarrow>
        ExpiresAt c = jwt_NewNumericDate L e \<longrightarrow> IssuedAt c = jwt_NewNumericDate L i \<longrightarrow>
        (kf alg = Some key \<longrightarrow>
           jwt_ParseWithClaims L tok kf now = (if now < ExpiresAt c then Some c else None)) \<and>
        (kf alg = None \<longrightarrow> jwt_ParseWithClaims L tok kf now = None))"

text \<open>What is used of \<open>bcrypt\<close>: a password matches the hashes made of it.\<close>

definition bcrypt_ok :: "externals \<Rightarrow> bool" where
  "bcrypt_ok L \<longleftrightarrow> (\<forall>salt pw h. bcrypt_GenerateFromPassword L salt pw = Some h \<longrightarrow>
     bcrypt_CompareHashAndPassword L h pw = BcryptMatch)"

section \<open>The service methods\<close>

definition DummyLogin ::
    "externals \<Rightarrow> string \<Rightarrow> Role \<Rightarrow> 'd world \<Rightarrow> (model_error, string) result \<times> 'd world" where
  "DummyLogin L jwtSecret role w =
    (case (if role = RoleAdmin then Some dummyAdminID
           else if role = RoleUser then Some dummyUserID else None) of
       None \<Rightarrow> (Inl (Opaque (''dummy login: unknown role '' @ role)), w)
     | Some userID \<Rightarrow>
         (case GenerateToken L userID role jwtSecret w of
            (Inl e, w1) \<Rightarrow> (Inl (Wrap ''dummy login'' e), w1)
          | (Inr token, w1) \<Rightarrow> (Inr token, w1)))"

definition Register ::
    "'d UserDeps \<Rightarrow> externals \<Rightarrow> string \<Rightarrow> string \<Rightarrow> Role \<Rightarrow> 'd world \<Rightarrow> (model_error, User) result \<times> 'd world" where
  "Register D L email password role w =
    (let (salt, w1) = uuid_New w in
     case bcrypt_GenerateFromPassword L salt password of
       None \<Rightarrow> (Inl (Wrap ''register'' (Opaque ''bcrypt'')), w1)
     | Some hash \<Rightarrow>
         (case dep_CreateUser D email hash role w1 of
            (Inl e, w2) \<Rightarrow> (Inl (Wrap ''register'' e), w2)
          | (Inr user, w2) \<Rightarrow> (Inr user, w2)))"

text \<open>The package makes its constant hash when the process starts, and panics if it cannot.\<close>

definition auth_init :: "externals \<Rightarrow> uuid \<Rightarrow> string option" where
  "auth_init L salt = bcrypt_GenerateFromPassword L salt ''sentinel''"

text \<open>
  For an unknown email the code also compares the password with that hash and drops the
  answer; that spends time and changes nothing.
\<close>

definition Login ::
    "'d UserDeps \<Rightarrow> externals \<Rightarrow> string \<Rightarrow> string \<Rightarrow> string \<Rightarrow> 'd world \<Rightarrow>
     (model_error, string) result \<times> 'd world" where
  "Login D L jwtSecret email password w =
    (case dep_GetUserByEmail D email w of
       (Inl e, w1) \<Rightarrow>
         (if errors_Is e ErrInvalidCredentials then (Inl (Wrap ''login'' (Sentinel ErrInvalidCredentials)), w1)
          else (Inl (Wrap ''login'' e), w1))
     | (Inr user, w1) \<Rightarrow>
         (case us_Password user of
            None \<Rightarrow> (Inl (Wrap ''login'' (Sentinel ErrInvalidCredentials)), w1)
          | Some hash \<Rightarrow>
              (case bcrypt_CompareHashAndPassword L hash password of
                 BcryptError m \<Rightarrow> (Inl (Wrap ''login: bcrypt'' (Opaque m)), w1)
               | BcryptMismatch \<Rightarrow> (Inl (Wrap ''login'' (Sentinel ErrInvalidCredentials)), w1)
               | BcryptMatch \<Rightarrow>
                   (case GenerateToken L (us_ID user) (us_Role user) jwtSecret w1 of
                      (Inl e, w2) \<Rightarrow> (Inl (Wrap ''login'' e), w2)
                    | (Inr token, w2) \<Rightarrow> (Inr token, w2)))))"

section \<open>A token says who it was made for, for a day\<close>

lemma GenerateToken_store: "GenerateToken L u role secret w = (r, w') \<Longrightarrow> store w' = store w"
  by (auto simp: GenerateToken_def Let_def split: prod.splits option.splits dest!: time_Now_storeD)

lemma ParseToken_store: "ParseToken L tok secret w = (r, w') \<Longrightarrow> store w' = store w"
  by (auto simp: ParseToken_def Let_def split: prod.splits option.splits dest!: time_Now_storeD)

lemma generated_token_parses:
  assumes L: "jwt_ok L" and g: "GenerateToken L u role secret w = (Inr tok, w')"
  shows "outcome (fst (ParseToken L tok secret v)) =
    (if fst (time_Now v) < jwt_NewNumericDate L (fst (time_Now w) + tokenTTL) then Inr (u, role) else Inl None)"
proof -
  obtain t2 where s: "jwt_SignedString L ''HS256'' \<lparr> ExpiresAt = jwt_NewNumericDate L (fst (time_Now w) + tokenTTL),
      IssuedAt = jwt_NewNumericDate L t2, cl_UserID = u, cl_Role = role \<rparr> secret = Some tok"
    using g by (auto simp: GenerateToken_def Let_def split: prod.splits option.splits)
  have k: "hmac_key secret ''HS256'' = Some secret" by (simp add: hmac_key_def)
  have p: "jwt_ParseWithClaims L tok (hmac_key secret) now =
      (if now < jwt_NewNumericDate L (fst (time_Now w) + tokenTTL)
       then Some \<lparr> ExpiresAt = jwt_NewNumericDate L (fst (time_Now w) + tokenTTL),
         IssuedAt = jwt_NewNumericDate L t2, cl_UserID = u, cl_Role = role \<rparr> else None)" for now
    using L [unfolded jwt_ok_def, THEN conjunct2, rule_format, OF s] k by simp
  show ?thesis by (simp add: ParseToken_def p Let_def split: prod.split)
qed

text \<open>The day is shortened by the cut to seconds, by less than one.\<close>

lemma token_lifetime:
  assumes "jwt_ok L"
  shows "t + tokenTTL - Second < jwt_NewNumericDate L (t + tokenTTL)"
    and "jwt_NewNumericDate L (t + tokenTTL) \<le> t + tokenTTL"
  using assms unfolding jwt_ok_def by blast+

section \<open>What registration and login promise\<close>

lemma Login_InrE:
  assumes "Login D L secret email password w = (Inr tok, w')"
  obtains user w1 hash where "dep_GetUserByEmail D email w = (Inr user, w1)"
    "us_Password user = Some hash" "bcrypt_CompareHashAndPassword L hash password = BcryptMatch"
    "GenerateToken L (us_ID user) (us_Role user) secret w1 = (Inr tok, w')"
  using assms
  by (auto simp: Login_def split: prod.splits sum.splits if_splits option.splits bcrypt_result.splits)

lemma Register_InrE:
  assumes "Register D L email password role w = (Inr user, w')"
  obtains salt hash w1 where "bcrypt_GenerateFromPassword L salt password = Some hash"
    "store w1 = store w" "dep_CreateUser D email hash role w1 = (Inr user, w')"
  using assms
  by (auto simp: Register_def Let_def split: prod.splits sum.splits option.splits dest!: uuid_New_storeD)

context user_backend begin

lemma login_identifies:
  assumes L: "jwt_ok L" and run: "Login D L secret email password w = (Inr tok, w')"
  shows "\<exists>u \<in> set (user_table (store w)). us_Email u = email \<and>
    (\<exists>h. us_Password u = Some h \<and> bcrypt_CompareHashAndPassword L h password = BcryptMatch) \<and>
    (\<exists>t. \<forall>v. outcome (fst (ParseToken L tok secret v)) =
       (if fst (time_Now v) < jwt_NewNumericDate L (t + tokenTTL) then Inr (us_ID u, us_Role u) else Inl None))"
proof -
  from run obtain u w1 h where u: "dep_GetUserByEmail D email w = (Inr u, w1)" "us_Password u = Some h"
    "bcrypt_CompareHashAndPassword L h password = BcryptMatch"
    "GenerateToken L (us_ID u) (us_Role u) secret w1 = (Inr tok, w')"
    by (rule Login_InrE)
  from generated_token_parses [OF L u(4)] get_returns [OF u(1)] u(2,3) show ?thesis by blast
qed

lemma register_stores_hash:
  assumes L: "bcrypt_ok L" and run: "Register D L email password role w = (Inr user, w')"
  shows "user_table (store w') = user_table (store w) @ [user] \<and> us_Email user = email \<and> us_Role user = role \<and>
    (\<exists>h. us_Password user = Some h \<and> bcrypt_CompareHashAndPassword L h password = BcryptMatch)"
proof -
  from run obtain salt h w1 where h: "bcrypt_GenerateFromPassword L salt password = Some h"
    "store w1 = store w" "dep_CreateUser D email h role w1 = (Inr user, w')"
    by (rule Register_InrE)
  from create_returns [OF h(3)] h(1,2) L show ?thesis by (auto simp: bcrypt_ok_def)
qed

text \<open>
  The password of a registration is never answered with "invalid credentials" while the user
  is in the table.
\<close>

lemma registered_can_login:
  assumes L: "bcrypt_ok L" and run: "Register D L email password role w = (Inr user, w')"
    and later: "user \<in> set (user_table (store v))" "inv (store v)"
  shows "outcome (fst (Login D L secret email password v)) \<noteq> Inl (Some ErrInvalidCredentials)"
proof -
  from register_stores_hash [OF L run] obtain h where u: "us_Email user = email" "us_Password user = Some h"
    "bcrypt_CompareHashAndPassword L h password = BcryptMatch" by blast
  obtain r v1 where g: "dep_GetUserByEmail D email v = (r, v1)" by fastforce
  show ?thesis
  proof (cases r)
    case (Inl e)
    with g get_misses [of email v e v1] u(1) later(1) have "\<not> errors_Is e ErrInvalidCredentials" by auto
    with g Inl show ?thesis by (simp add: Login_def errors_Is_root)
  next
    case (Inr x)
    with g have x: "x \<in> set (user_table (store v))" "us_Email x = email" using get_returns by blast+
    have "x = user"
      using emails_distinct [OF later(2)] x later(1) u(1) by (auto simp: distinct_map dest: inj_onD)
    with g Inr u show ?thesis
      by (auto simp: Login_def GenerateToken_def Let_def split: prod.split option.split)
  qed
qed

end

section \<open>The contract is met\<close>

definition pg_user_deps :: "BookingDB UserDeps" where
  "pg_user_deps = \<lparr> dep_GetUserByEmail = GetUserByEmail_repo, dep_CreateUser = CreateUser_repo \<rparr>"

lemma pg_user_deps_simps [simp]:
  "dep_GetUserByEmail pg_user_deps = GetUserByEmail_repo" "dep_CreateUser pg_user_deps = CreateUser_repo"
  by (simp_all add: pg_user_deps_def)

lemma GetUserByEmail_repo_returns:
  "GetUserByEmail_repo email w = (Inr u, w') \<Longrightarrow> u \<in> set (users (store w)) \<and> us_Email u = email"
  by (auto simp: GetUserByEmail_repo_def select_user_def split: prod.splits sum.splits if_splits option.splits
      elim!: exec_stmt_InrE dest!: find_by_Some)

lemma GetUserByEmail_repo_misses:
  assumes "GetUserByEmail_repo email w = (Inl e, w')" and "errors_Is e ErrInvalidCredentials"
  shows "email \<notin> us_Email ` set (users (store w))"
proof -
  obtain e1 where "exec_stmt (query (select_user email)) w = (Inl e1, w')" "is_ErrNoRows (DbError e1 :: berror)"
    using assms by (auto simp: GetUserByEmail_repo_def split: prod.splits sum.splits if_splits)
  then show ?thesis
    by (auto elim!: exec_stmt_InlE simp: select_user_def find_by_None split: option.splits)
qed

lemma CreateUser_repo_returns:
  assumes "CreateUser_repo email h role w = (Inr u, w')"
  shows "users (store w') = users (store w) @ [u] \<and> us_Email u = email \<and> us_Password u = Some h \<and> us_Role u = role"
proof -
  obtain now uid where i: "insert_user now uid email h role (store w) = Inr (u, store w')"
    using assms
    by (auto simp: CreateUser_repo_def Let_def split: prod.splits sum.splits
        elim!: exec_stmt_InrE dest!: time_Now_storeD uuid_New_storeD)
  show ?thesis by (rule insert_user_InrE [OF i]) simp
qed

interpretation pg_users: user_backend pg_user_deps db_ok users
  by unfold_locales
    (simp_all add: db_ok_defs catalog_reads_store GetUserByEmail_repo_returns GetUserByEmail_repo_misses
      CreateUser_repo_returns CreateUser_repo_ok [unfolded db_ok_defs])

end
