(* ===== verification/CatalogService.thy ===== *)
theory CatalogService
  imports CatalogRepo
begin

text \<open>
  \<open>internal/service/room/room.go\<close> and \<open>internal/service/schedule/schedule.go\<close> of the booking
  service: they pass a call on to their repository and wrap its error.
\<close>

record 'd RoomDeps =
  dep_CreateRoom :: "string \<Rightarrow> string option \<Rightarrow> int option \<Rightarrow> 'd world \<Rightarrow> (model_error, Room) result \<times> 'd world"
  dep_ListRooms :: "'d world \<Rightarrow> (model_error, Room list) result \<times> 'd world"

record 'd ScheduleDeps =
  dep_CreateSchedule ::
    "uuid \<Rightarrow> int list \<Rightarrow> string \<Rightarrow> string \<Rightarrow> 'd world \<Rightarrow> (model_error, Schedule) result \<times> 'd world"

definition CreateRoom ::
    "'d RoomDeps \<Rightarrow> string \<Rightarrow> string option \<Rightarrow> int option \<Rightarrow> 'd world \<Rightarrow> (model_error, Room) result \<times> 'd world" where
  "CreateRoom D name description capacity w =
    (case dep_CreateRoom D name description capacity w of
       (Inl e, w1) \<Rightarrow> (Inl (Wrap ''room service'' e), w1)
     | (Inr room, w1) \<Rightarrow> (Inr room, w1))"

definition ListRooms :: "'d RoomDeps \<Rightarrow> 'd world \<Rightarrow> (model_error, Room list) result \<times> 'd world" where
  "ListRooms D w =
    (case dep_ListRooms D w of
       (Inl e, w1) \<Rightarrow> (Inl (Wrap ''room service'' e), w1)
     | (Inr rs, w1) \<Rightarrow> (Inr rs, w1))"

definition CreateSchedule ::
    "'d ScheduleDeps \<Rightarrow> uuid \<Rightarrow> int list \<Rightarrow> string \<Rightarrow> string \<Rightarrow> 'd world \<Rightarrow>
     (model_error, Schedule) result \<times> 'd world" where
  "CreateSchedule D roomID daysOfWeek startTime endTime w =
    (case dep_CreateSchedule D roomID daysOfWeek startTime endTime w of
       (Inl e, w1) \<Rightarrow> (Inl (Wrap ''schedule service'' e), w1)
     | (Inr schedule, w1) \<Rightarrow> (Inr schedule, w1))"

definition pg_room_deps :: "BookingDB RoomDeps" where
  "pg_room_deps = \<lparr> dep_CreateRoom = CreateRoom_repo, dep_ListRooms = ListRooms_repo \<rparr>"

definition pg_schedule_deps :: "BookingDB ScheduleDeps" where
  "pg_schedule_deps = \<lparr> dep_CreateSchedule = CreateSchedule_repo \<rparr>"

text \<open>Whatever the services are asked, the database keeps its constraints.\<close>

lemma CreateRoom_ok: "CreateRoom pg_room_deps name d c w = (r, w') \<Longrightarrow> db_ok (store w) \<Longrightarrow> db_ok (store w')"
  by (auto simp: CreateRoom_def pg_room_deps_def split: prod.splits sum.splits intro: CreateRoom_repo_ok)

lemma CreateSchedule_ok:
  "CreateSchedule pg_schedule_deps roomID days st en w = (r, w') \<Longrightarrow> db_ok (store w) \<Longrightarrow> db_ok (store w')"
  by (auto simp: CreateSchedule_def pg_schedule_deps_def split: prod.splits sum.splits intro: CreateSchedule_repo_ok)

lemma ListRooms_store: "ListRooms pg_room_deps w = (r, w') \<Longrightarrow> store w' = store w"
  by (auto simp: ListRooms_def pg_room_deps_def split: prod.splits sum.splits dest: catalog_reads_store(2))

end
