(* ===== verification/BookingRouter.thy ===== *)
theory BookingRouter
  imports BookingHandlers SlotService BookingService AuthService CatalogService
begin

text \<open>
  \<open>internal/http/middleware\<close> and \<open>internal/http/handlers/router.go\<close> of the booking service,
  and the wiring of the services in \<open>cmd/main.go\<close>: who may reach which handler.

  Matching a request against the patterns is the work of the \<open>chi\<close> router, which is a
  parameter: a function from the registered patterns and a request to the pattern that matches
  with its parameters.  Nothing is assumed about it.
\<close>

section \<open>Middleware\<close>

definition bearerPrefix :: string where "bearerPrefix = ''bearer ''"

definition unauthorizedBody :: string where
  "unauthorizedBody = ''{''@[CHR 0x22]@''error''@[CHR 0x22]@'':{''@[CHR 0x22]@''code''@[CHR 0x22]@'':''@[CHR 0x22]@''UNAUTHORIZED''@[CHR 0x22]@'',''@[CHR 0x22]@''message''@[CHR 0x22]@'':''@[CHR 0x22]@''unauthorized''@[CHR 0x22]@''}}''"

definition forbiddenBody :: string where
  "forbiddenBody = ''{''@[CHR 0x22]@''error''@[CHR 0x22]@'':{''@[CHR 0x22]@''code''@[CHR 0x22]@'':''@[CHR 0x22]@''FORBIDDEN''@[CHR 0x22]@'',''@[CHR 0x22]@''message''@[CHR 0x22]@'':''@[CHR 0x22]@''forbidden''@[CHR 0x22]@''}}''"

definition respondUnauthorized :: "'d world \<Rightarrow> payload response option \<times> 'd world" where
  [simp]: "respondUnauthorized w = answer 401 (PText unauthorizedBody) w"

definition bearer_token :: "string \<Rightarrow> string option" where
  "bearer_token authHeader =
    (if authHeader = '''' then None
     else if \<not> HasPrefix (ToLower authHeader) bearerPrefix then None
     else let tokenString = drop (length bearerPrefix) authHeader
          in if tokenString = '''' then None else Some tokenString)"

definition Auth :: "externals \<Rightarrow> string \<Rightarrow> (payload, 'd) handler \<Rightarrow> (payload, 'd) handler" where
  "Auth L jwtSecret next_handler r w =
    (case bearer_token (rq_Authorization r) of
       None \<Rightarrow> respondUnauthorized w
     | Some tokenString \<Rightarrow>
       (case ParseToken L tokenString jwtSecret w of
          (Inl e, w1) \<Rightarrow> respondUnauthorized w1
        | (Inr (userID, role), w1) \<Rightarrow>
            next_handler (r\<lparr>rq_UserID := Some userID, rq_Role := Some role\<rparr>) w1))"

definition RoleFromContext :: "request \<Rightarrow> string" where
  "RoleFromContext r = (case rq_Role r of None \<Rightarrow> '''' | Some v \<Rightarrow> v)"

definition RequireRole :: "string list \<Rightarrow> (payload, 'd) handler \<Rightarrow> (payload, 'd) handler" where
  "RequireRole roles next_handler r w =
    (if RoleFromContext r \<notin> set roles then answer 403 (PText forbiddenBody) w
     else next_handler r w)"

text \<open>\<open>chimiddleware.Recoverer\<close>: a panic becomes an empty answer with status 500.\<close>

definition Recoverer :: "(payload, 'd) handler \<Rightarrow> (payload, 'd) handler" where
  "Recoverer next_handler r w =
    (case next_handler r w of
       (None, w1) \<Rightarrow> answer 500 PEmpty w1
     | (Some resp, w1) \<Rightarrow> (Some resp, w1))"

text \<open>The histogram of durations is not modelled; the two readings of the clock are.\<close>

definition Metrics :: "string \<Rightarrow> (payload, 'd) handler \<Rightarrow> (payload, 'd) handler" where
  "Metrics pattern next_handler r w =
    (if rq_Path r = ''/metrics'' then next_handler r w
     else
       (let (start, w1) = time_Now w in
        case next_handler r w1 of
          (None, w2) \<Rightarrow> (None, w2)
        | (Some resp, w2) \<Rightarrow>
            (Some resp, snd (time_Now (counter_Add (series HTTPRequestsTotal [rq_Method r, pattern, Itoa_nat (rs_Status resp)]) 1 w2)))))"

section \<open>Routes\<close>

type_synonym pattern = "string \<times> string"

definition routes ::
    "externals \<Rightarrow> string \<Rightarrow> 'd Services \<Rightarrow> (pattern \<times> (payload, 'd) handler) list" where
  "routes L jwtSecret svc =
    [((''GET'', ''/metrics''), \<lambda>r w. answer 200 PEmpty w),
     ((''GET'', ''/''), InfoHandler),
     ((''GET'', ''/_info''), InfoHandler),
     ((''POST'', ''/dummyLogin''), dummyLogin_handler svc),
     ((''POST'', ''/register''), register_handler L svc),
     ((''POST'', ''/login''), login_handler svc),
     ((''GET'', ''/rooms/list''), Auth L jwtSecret (listRooms_handler L svc)),
     ((''POST'', ''/rooms/create''),
        Auth L jwtSecret (RequireRole [RoleAdmin] (createRoom_handler L svc))),
     ((''POST'', ''/rooms/{roomId}/schedule/create''),
        Auth L jwtSecret (RequireRole [RoleAdmin] (createSchedule_handler L svc))),
     ((''GET'', ''/rooms/{roomId}/slots/list''), Auth L jwtSecret (listSlots_handler L svc)),
     ((''POST'', ''/bookings/create''),
        Auth L jwtSecret (RequireRole [RoleUser] (createBooking_handler L svc))),
     ((''GET'', ''/bookings/list''),
        Auth L jwtSecret (RequireRole [RoleAdmin] (listBookings_handler L svc))),
     ((''GET'', ''/bookings/my''),
        Auth L jwtSecret (RequireRole [RoleUser] (listUserBookings_handler L svc))),
     ((''POST'', ''/bookings/{bookingId}/cancel''),
        Auth L jwtSecret (RequireRole [RoleUser] (cancelBooking_handler L svc)))]"

type_synonym chi = "pattern list \<Rightarrow> string \<Rightarrow> string \<Rightarrow> (pattern \<times> (string \<times> string) list) option"

definition NewRouter ::
    "chi \<Rightarrow> externals \<Rightarrow> string \<Rightarrow> 'd Services \<Rightarrow> (payload, 'd) handler" where
  "NewRouter chi_Find L jwtSecret svc r w =
    (case chi_Find (map fst (routes L jwtSecret svc)) (rq_Method r) (rq_Path r) of
       None \<Rightarrow> Metrics '''' (\<lambda>r w. answer 404 PEmpty w) r w
     | Some (pat, params) \<Rightarrow>
       (case map_of (routes L jwtSecret svc) pat of
          None \<Rightarrow> Metrics '''' (\<lambda>r w. answer 404 PEmpty w) r w
        | Some h \<Rightarrow>
            Metrics (snd pat) (Recoverer (\<lambda>r. h (r\<lparr>rq_Params := params, rq_UserID := None, rq_Role := None\<rparr>))) r w))"

section \<open>Wiring\<close>

definition app_services :: "externals \<Rightarrow> string \<Rightarrow> BookingDB Services" where
  "app_services L jwtSecret = \<lparr>
     sv_DummyLogin = DummyLogin L jwtSecret,
     sv_Register = Register pg_user_deps L,
     sv_Login = Login pg_user_deps L jwtSecret,
     sv_CreateRoom = CreateRoom pg_room_deps,
     sv_ListRooms = ListRooms pg_room_deps,
     sv_CreateSchedule = CreateSchedule pg_schedule_deps,
     sv_ListAvailableSlots = ListAvailableSlots pg_slot_deps,
     sv_CreateBooking = CreateBooking (pg_booking_deps L),
     sv_CancelBooking = CancelBooking (pg_booking_deps L),
     sv_ListBookings = ListBookings (pg_booking_deps L),
     sv_ListUserBookings = ListUserBookings (pg_booking_deps L) \<rparr>"

end
