(* ===== verification/BookingApi.thy ===== *)
theory BookingApi
  imports BookingRouter
begin

text \<open>
  The HTTP interface of the booking service as a whole: the statuses, who may change what, and
  what a validated request guarantees to the layers below.
\<close>

section \<open>Statuses of errors\<close>

text \<open>The table of the API, by the sentinel at the root of the error.\<close>

fun sentinel_status :: "model_error \<Rightarrow> code \<times> nat" where
  "sentinel_status ErrRoomNotFound = (ROOM_NOT_FOUND, 404)"
| "sentinel_status ErrSlotNotFound = (SLOT_NOT_FOUND, 404)"
| "sentinel_status ErrBookingNotFound = (BOOKING_NOT_FOUND, 404)"
| "sentinel_status ErrSlotAlreadyBooked = (SLOT_ALREADY_BOOKED, 409)"
| "sentinel_status ErrScheduleExists = (SCHEDULE_EXISTS, 409)"
| "sentinel_status ErrScheduleNotFound = (NOT_FOUND, 404)"
| "sentinel_status ErrForbidden = (FORBIDDEN, 403)"
| "sentinel_status ErrSlotInPast = (INVALID_REQUEST, 400)"
| "sentinel_status ErrEmailTaken = (INVALID_REQUEST, 400)"
| "sentinel_status ErrInvalidCredentials = (UNAUTHORIZED, 401)"

lemma mapError_root:
  "mapError err = (case root_sentinel err of
      None \<Rightarrow> (INTERNAL_ERROR, ''internal server error'', 500)
    | Some s \<Rightarrow> (fst (sentinel_status s), error_text s, snd (sentinel_status s)))"
proof (cases "root_sentinel err")
  case None
  then show ?thesis by (simp add: mapError_def errors_Is_root)
next
  case (Some s)
  then show ?thesis by (cases s) (simp_all add: mapError_def errors_Is_root)
qed

section \<open>Pagination\<close>

lemma parsePagination_bounds:
  "parsePagination r = Inr (page, pageSize) \<Longrightarrow> 1 \<le> page \<and> page \<le> 10000 \<and> 1 \<le> pageSize \<and> pageSize \<le> 100"
  by (auto simp: parsePagination_def Let_def defaultPage_def defaultPageSize_def maxPage_def maxPageSize_def
      split: option.splits if_splits)

section \<open>Validated schedules\<close>

lemma check_days_None:
  "check_days seen ds = None \<longleftrightarrow> distinct ds \<and> set ds \<inter> set seen = {} \<and> (\<forall>d \<in> set ds. 1 \<le> d \<and> d \<le> 7)"
  by (induction seen ds rule: check_days.induct) (auto simp: minDayOfWeek_def maxDayOfWeek_def)

text \<open>What the handler lets through.\<close>

definition valid_schedule :: "int list \<Rightarrow> string \<Rightarrow> string \<Rightarrow> bool" where
  "valid_schedule days st en \<longleftrightarrow> days \<noteq> [] \<and> distinct days \<and> (\<forall>d \<in> set days. 1 \<le> d \<and> d \<le> 7) \<and>
     (case (Parse_15_04 st, Parse_15_04 en) of
        (Some s, Some e) \<Rightarrow> minute s mod 30 = 0 \<and> minute e mod 30 = 0 \<and> s < e
      | _ \<Rightarrow> False)"

lemma valid_scheduleE:
  assumes "valid_schedule days st en"
  obtains s e where "Parse_15_04 st = Some s" "Parse_15_04 en = Some e" "minute s mod 30 = 0"
    "minute e mod 30 = 0" "s < e" "days \<noteq> []" "distinct days" "\<forall>d \<in> set days. 1 \<le> d \<and> d \<le> 7"
  using assms by (auto simp: valid_schedule_def split: option.splits)

text \<open>The handler calls the service exactly for these, and answers 400 for all others.\<close>

lemma createSchedule_decides:
  assumes roomID: "uuid_Parse L (get_param (rq_Params r) ''roomId'') = Some roomID"
    and req: "decode_body maxBodyBytes schedule_fields
        \<lparr> sq_DaysOfWeek = [], sq_StartTime = '''', sq_EndTime = '''' \<rparr> r = Some req"
  shows "if valid_schedule (sq_DaysOfWeek req) (sq_StartTime req) (sq_EndTime req)
    then createSchedule_handler L svc r w =
      (case sv_CreateSchedule svc roomID (sq_DaysOfWeek req) (sq_StartTime req) (sq_EndTime req) w of
         (Inl err, w1) \<Rightarrow> respondError err w1
       | (Inr schedule, w1) \<Rightarrow> answer 201 (PSchedule (toScheduleResponse L schedule)) w1)
    else (\<exists>message. createSchedule_handler L svc r w = answer 400 (PError INVALID_REQUEST message) w)"
proof (cases "check_days [] (sq_DaysOfWeek req)")
  case (Some message)
  then have "\<not> valid_schedule (sq_DaysOfWeek req) (sq_StartTime req) (sq_EndTime req)"
    using check_days_None [of "[]" "sq_DaysOfWeek req"] by (auto simp: valid_schedule_def)
  with assms Some show ?thesis
    by (auto simp: createSchedule_handler_def bad_request_def)
next
  case None
  then have "distinct (sq_DaysOfWeek req)" "\<forall>d \<in> set (sq_DaysOfWeek req). 1 \<le> d \<and> d \<le> 7"
    using check_days_None [of "[]" "sq_DaysOfWeek req"] by auto
  with assms None show ?thesis
    by (cases "Parse_15_04 (sq_StartTime req)"; cases "Parse_15_04 (sq_EndTime req)")
      (auto simp: createSchedule_handler_def valid_schedule_def bad_request_def scheduleTimeGranularity_def)
qed

text \<open>No constraint of the database rejects them, and the numbers survive the narrowing.\<close>

lemma map_int32_days: "\<forall>d \<in> set days. 1 \<le> d \<and> d \<le> 7 \<Longrightarrow> map int32 days = days"
  by (intro map_idI int32_small) auto

lemma valid_schedule_inserts:
  assumes "valid_schedule days st en" and "sid \<notin> sr_id ` set (schedules db)"
  shows "case insert_schedule now sid roomID (map int32 days) st en db of
      Inl e \<Rightarrow> (roomID \<in> sr_room_id ` set (schedules db) \<and> errors_Is (create_schedule_error e) ErrScheduleExists) \<or>
               (roomID \<notin> rm_ID ` set (rooms db) \<and> errors_Is (create_schedule_error e) ErrRoomNotFound)
    | Inr (row, db') \<Rightarrow> sc_DaysOfWeek (scan_schedule row) = days \<and>
               Parse_15_04 (sc_StartTime (scan_schedule row)) = Parse_15_04 st \<and>
               Parse_15_04 (sc_EndTime (scan_schedule row)) = Parse_15_04 en"
proof -
  from assms(1) obtain s e where v: "Parse_15_04 st = Some s" "Parse_15_04 en = Some e" "s < e" "days \<noteq> []"
    "\<forall>d \<in> set days. 1 \<le> d \<and> d \<le> 7" by (rule valid_scheduleE)
  note p = Parse_to_char [OF v(1)] Parse_to_char [OF v(2)]
  show ?thesis
    using v p assms(2)
    by (auto simp: insert_schedule_def map_int32_days create_schedule_error_def scan_schedule_def Let_def)
qed

text \<open>
  The slots of a valid schedule fill its window without a gap: they start at its start, each
  begins where the one before ends, and the last one ends at its end.
\<close>

lemma parsed_time_order:
  assumes "Parse_15_04 st = Some s" "Parse_15_04 en = Some e"
  shows "s < e \<longleftrightarrow> hour s * Hour + minute s * Minute < hour e * Hour + minute e * Minute"
  using Parse_15_04_fields(5) [OF assms(1)] Parse_15_04_fields(5) [OF assms(2)]
  unfolding Date_def by linarith

lemma half_hours: "0 \<le> m \<Longrightarrow> (m::int) \<le> 59 \<Longrightarrow> m mod 30 = 0 \<Longrightarrow> m = 0 \<or> m = 30"
  by presburger

lemma valid_window:
  assumes "Parse_15_04 st = Some s" "Parse_15_04 en = Some e" "minute s mod 30 = 0" "minute e mod 30 = 0" "s < e"
  shows "\<exists>n > 0. Date (year date) (month date) (day date) (hour e) (minute e) =
     Date (year date) (month date) (day date) (hour s) (minute s) + int n * slotDuration"
proof -
  let ?k = "2 * (hour e - hour s) + (minute e div 30 - minute s div 30)"
  have m: "minute s = 30 * (minute s div 30)" "minute e = 30 * (minute e div 30)"
    using assms(3,4) by presburger+
  have eq: "hour e * Hour + minute e * Minute = hour s * Hour + minute s * Minute + ?k * slotDuration"
    unfolding slotDuration_def using m by (simp add: algebra_simps)
  moreover have "hour s * Hour + minute s * Minute < hour e * Hour + minute e * Minute"
    using parsed_time_order [OF assms(1,2)] assms(5) by simp
  ultimately have "0 < ?k * slotDuration" by linarith
  then have "0 < ?k" using slotDuration_pos by (simp add: zero_less_mult_iff)
  then show ?thesis
    using eq by (intro exI [of _ "nat ?k"]) (simp add: Date_in_day)
qed

lemma generateSlots_valid:
  assumes "valid_schedule days st en"
  shows "\<exists>a n ids w'. 0 < n \<and> generateSlots roomID date st en w = (Inr (map (slot_at roomID ids a) [0..<n]), w') \<and>
    (\<exists>s e. Parse_15_04 st = Some s \<and> Parse_15_04 en = Some e \<and>
       a = Date (year date) (month date) (day date) (hour s) (minute s) \<and>
       a + int n * slotDuration = Date (year date) (month date) (day date) (hour e) (minute e))"
proof -
  from assms obtain s e where v: "Parse_15_04 st = Some s" "Parse_15_04 en = Some e" "minute s mod 30 = 0"
    "minute e mod 30 = 0" "s < e" by (rule valid_scheduleE)
  let ?a = "Date (year date) (month date) (day date) (hour s) (minute s)"
  let ?b = "Date (year date) (month date) (day date) (hour e) (minute e)"
  from valid_window [OF v] obtain n where n: "0 < n" "?b = ?a + int n * slotDuration" by blast
  have "slot_count ?a ?b = n" using slotDuration_pos by (simp add: n(2))
  with generateSlots_Inr [OF v(1,2), of roomID date w] n v(1,2) show ?thesis
    by (intro exI conjI) (auto simp: n(2))
qed

section \<open>No handler panics\<close>

text \<open>The handlers that need a user are behind \<open>Auth\<close>, so \<open>Recoverer\<close> has nothing to do.\<close>

definition answered :: "'b response option \<times> 'd world \<Rightarrow> bool" where
  "answered p \<longleftrightarrow> fst p \<noteq> None"

lemma answered_simps [simp]:
  "answered (answer s b w)" "\<not> answered (None, w)" "answered (respondError err w)" "answered (bad_request m w)"
  by (simp_all add: answered_def respondError_def bad_request_def split: prod.split)

lemma handlers_answer:
  "answered (dummyLogin_handler svc r w)" "answered (register_handler L svc r w)"
  "answered (login_handler svc r w)" "answered (createRoom_handler L svc r w)"
  "answered (listRooms_handler L svc r w)" "answered (createSchedule_handler L svc r w)"
  "answered (listSlots_handler L svc r w)" "answered (listBookings_handler L svc r w)"
  "rq_UserID r \<noteq> None \<Longrightarrow> answered (createBooking_handler L svc r w)"
  "rq_UserID r \<noteq> None \<Longrightarrow> answered (cancelBooking_handler L svc r w)"
  "rq_UserID r \<noteq> None \<Longrightarrow> answered (listUserBookings_handler L svc r w)"
  by (simp_all add: dummyLogin_handler_def register_handler_def login_handler_def createRoom_handler_def
      listRooms_handler_def createSchedule_handler_def listSlots_handler_def listBookings_handler_def
      createBooking_handler_def cancelBooking_handler_def listUserBookings_handler_def Let_def
      split: option.split sum.split prod.split)

lemma Auth_answers:
  "(\<And>r w. rq_UserID r \<noteq> None \<Longrightarrow> answered (h r w)) \<Longrightarrow> answered (Auth L secret h r w)"
  by (simp add: Auth_def split: option.split sum.split prod.split)

lemma RequireRole_answers: "answered (h r w) \<Longrightarrow> answered (RequireRole roles h r w)"
  by (simp add: RequireRole_def)

lemma routes_answer: "map_of (routes L secret svc) pat = Some h \<Longrightarrow> answered (h r w)"
  by (auto simp: routes_def InfoHandler_def split: if_splits
      intro!: handlers_answer Auth_answers RequireRole_answers)

end
