(* ===== verification/BookingAccess.thy ===== *)
theory BookingAccess
  imports BookingApi
begin

text \<open>
  Who may change what: a request of the booking service changes rooms and schedules only with
  an administrator's token, bookings only with a user's token and only that user's, and the
  users only by registration.
\<close>

section \<open>Changes of the tables\<close>

text \<open>All bookings that a change adds, drops or rewrites belong to the user.\<close>

definition own_change :: "uuid \<Rightarrow> BookingDB \<Rightarrow> BookingDB \<Rightarrow> bool" where
  "own_change u db db' \<longleftrightarrow>
     (\<forall>b \<in> set (bookings db') - set (bookings db). bk_UserID b = u) \<and>
     (\<forall>b \<in> set (bookings db) - set (bookings db'). bk_UserID b = u)"

definition same_catalog :: "BookingDB \<Rightarrow> BookingDB \<Rightarrow> bool" where
  "same_catalog db db' \<longleftrightarrow> rooms db' = rooms db \<and> schedules db' = schedules db"

text \<open>
  The change that a request with this token (if any) may make: \<open>role\<close> and \<open>u\<close> are what the
  token says.
\<close>

definition permitted :: "(uuid \<times> string) option \<Rightarrow> BookingDB \<Rightarrow> BookingDB \<Rightarrow> bool" where
  "permitted who db db' \<longleftrightarrow>
     (\<not> same_catalog db db' \<longrightarrow> (\<exists>u. who = Some (u, RoleAdmin))) \<and>
     (bookings db' \<noteq> bookings db \<longrightarrow> (\<exists>u. who = Some (u, RoleUser) \<and> own_change u db db'))"

lemma permitted_refl [simp]: "permitted who db db"
  by (simp add: permitted_def same_catalog_def)

lemma permitted_store: "store w' = store w \<Longrightarrow> permitted who (store w) (store w')"
  by simp

lemma permitted_user:
  "same_catalog db db' \<Longrightarrow> own_change u db db' \<Longrightarrow> permitted (Some (u, RoleUser)) db db'"
  by (simp add: permitted_def)

lemma permitted_admin: "bookings db' = bookings db \<Longrightarrow> permitted (Some (u, RoleAdmin)) db db'"
  by (simp add: permitted_def)

lemma permitted_other: "bookings db' = bookings db \<Longrightarrow> same_catalog db db' \<Longrightarrow> permitted who db db'"
  by (simp add: permitted_def)

section \<open>What the services change\<close>

lemma ensure_slots_frame:
  "ensure_slots ss db = Inr (u, db') \<Longrightarrow> bookings db' = bookings db \<and> same_catalog db db'"
  by (auto simp: same_catalog_def ensure_slots_def split: sum.splits if_splits)

lemma update_conference_link_frame:
  "update_conference_link bid link db = Inr (u, db') \<Longrightarrow> same_catalog db db'"
  by (auto simp: same_catalog_def update_conference_link_def)

lemma ListAvailableSlots_frame:
  assumes "ListAvailableSlots pg_slot_deps roomID date w = (r, w')"
  shows "bookings (store w') = bookings (store w) \<and> same_catalog (store w) (store w')"
  using assms
proof (cases rule: pg_slots.ListAvailableSlots_storeE)
  case same
  then show ?thesis by (simp add: same_catalog_def)
next
  case (ensured sch w1 w2 gs w3 u w4)
  have "store w3 = store w"
    using ensured(1,2) generateSlots_store [OF ensured(3)] by (simp add: catalog_reads_store)
  with EnsureSlots_repo_effect(1) [of gs w3 u w4] ensured(4,5) show ?thesis
    by (auto simp: same_catalog_def dest!: ensure_slots_frame)
qed

lemma creates_frame:
  assumes "creates L slotID userID db b db'"
  shows "same_catalog db db' \<and> bookings db' = bookings db @ [b] \<and> bk_UserID b = userID"
proof -
  obtain now bid oid db1 where i: "insert_booking now bid slotID userID db = Inr (b, db1)"
    and e: "insert_event L ''booking.created'' oid now b slotID db1 = Inr ((), db')"
    using assms unfolding creates_def by blast
  have "rooms db' = rooms db1" "schedules db' = schedules db1" "bookings db' = bookings db1"
    using e by (auto simp: insert_event_def Let_def split: if_splits)
  with i show ?thesis by (auto elim!: insert_booking_InrE simp: same_catalog_def)
qed

lemma cancels_frame:
  assumes "cancels L bid userID db b db'"
  shows "same_catalog db db' \<and> own_change userID db db'"
proof -
  obtain now oid db1 where i: "update_cancelled bid userID db = Inr (b, db1)"
    and e: "insert_event L ''booking.cancelled'' oid now b (bk_SlotID b) db1 = Inr ((), db')"
    using assms unfolding cancels_def by blast
  have "rooms db' = rooms db1" "schedules db' = schedules db1" "bookings db' = bookings db1"
    using e by (auto simp: insert_event_def Let_def split: if_splits)
  moreover have "db1 = db\<lparr>bookings := update_where (cancellable bid userID) cancelled (bookings db)\<rparr>"
    using i by (auto elim: update_cancelled_InrE)
  ultimately show ?thesis
    by (auto simp: same_catalog_def own_change_def set_update_where cancellable_def image_iff split: if_splits)
qed

lemma own_change_append: "bookings db' = bookings db @ [b] \<Longrightarrow> bk_UserID b = u \<Longrightarrow> own_change u db db'"
  by (auto simp: own_change_def)

lemma CreateBooking_frame:
  assumes run: "CreateBooking (pg_booking_deps L) slotID userID link w = (r, w')" and ok: "db_ok (store w)"
  shows "same_catalog (store w) (store w') \<and> own_change userID (store w) (store w')"
proof (cases r)
  case (Inl e)
  with run have "CreateBooking (pg_booking_deps L) slotID userID link w = (Inl e, w')" by simp
  then show ?thesis
  proof (cases rule: CreateBooking_InlE)
    case (refused slot w1 now w2 e1)
    have "store w2 = store w" using refused(1,2) by (auto dest!: GetSlotByID_repo_store time_Now_storeD)
    moreover have "store w' = store w2 \<or> (\<exists>b. creates L slotID userID (store w2) b (store w'))"
      using CreateBooking_repo_Inl [of L slotID userID w2 e1 w'] refused(4) by auto
    ultimately show ?thesis
      using creates_frame own_change_append by (metis same_catalog_def own_change_def DiffE)
  qed (auto simp: same_catalog_def own_change_def dest!: GetSlotByID_repo_store time_Now_storeD)
next
  case (Inr b)
  with run have run: "CreateBooking (pg_booking_deps L) slotID userID link w = (Inr b, w')" by simp
  from pg_bookings.create_promise [OF run ok] obtain b' where
    "bookings (store w') = bookings (store w) @ [b']" "bk_UserID b' = userID" by blast
  then have o: "own_change userID (store w) (store w')" by (rule own_change_append)
  have "same_catalog (store w) (store w')"
    using run
  proof (rule CreateBooking_InrE)
    fix slot w1 now w2 b0 w3
    assume g: "dep_GetSlotByID (pg_booking_deps L) slotID w = (Inr slot, w1)" "time_Now w1 = (now, w2)"
      and c: "dep_CreateBooking (pg_booking_deps L) slotID userID w2 = (Inr b0, w3)"
      and t: "b = b0 \<and> w' = w3 \<or>
         (\<exists>e. dep_CreateLink (pg_booking_deps L) (bk_ID b0) w3 = (Inl e, w') \<and> b = b0) \<or>
         (\<exists>l w4 e. dep_CreateLink (pg_booking_deps L) (bk_ID b0) w3 = (Inr l, w4) \<and>
            dep_UpdateConferenceLink (pg_booking_deps L) (bk_ID b0) l w4 = (Inl e, w') \<and> b = b0) \<or>
         (\<exists>l w4 u. dep_CreateLink (pg_booking_deps L) (bk_ID b0) w3 = (Inr l, w4) \<and>
            dep_UpdateConferenceLink (pg_booking_deps L) (bk_ID b0) l w4 = (Inr u, w') \<and>
            b = b0\<lparr>bk_ConferenceLink := Some l\<rparr>)"
    have "store w2 = store w" using g by (auto dest!: GetSlotByID_repo_store time_Now_storeD)
    moreover have "same_catalog (store w2) (store w3)"
      using c by (auto dest!: CreateBooking_repo_Inr creates_frame)
    moreover have "store w' = store w3 \<or> (\<exists>l. update_conference_link (bk_ID b0) l (store w3) = Inr ((), store w'))"
      using t by (auto simp: CreateLink_def dest!: UpdateConferenceLink_repo_effect(1))
    ultimately show ?thesis by (auto simp: same_catalog_def dest!: update_conference_link_frame)
  qed
  with o show ?thesis by simp
qed

lemma CancelBooking_frame:
  assumes "CancelBooking (pg_booking_deps L) bid userID w = (r, w')"
  shows "same_catalog (store w) (store w') \<and> own_change userID (store w) (store w')"
proof -
  obtain r' where c: "CancelBooking_repo L bid userID w = (r', w')"
    using assms by (auto simp: CancelBooking_def split: prod.splits sum.splits)
  then have "store w' = store w \<or> (\<exists>b. cancels L bid userID (store w) b (store w'))"
    by (cases r') (auto dest!: CancelBooking_repo_Inl CancelBooking_repo_Inr)
  then show ?thesis using cancels_frame by (auto simp: same_catalog_def own_change_def)
qed

lemma CreateRoom_frame:
  "CreateRoom pg_room_deps name d c w = (r, w') \<Longrightarrow> bookings (store w') = bookings (store w)"
  by (auto simp: CreateRoom_def pg_room_deps_def split: prod.splits sum.splits
      dest!: CreateRoom_repo_effect elim!: insert_room_InrE)

lemma CreateSchedule_frame:
  "CreateSchedule pg_schedule_deps roomID days st en w = (r, w') \<Longrightarrow> bookings (store w') = bookings (store w)"
  by (auto simp: CreateSchedule_def pg_schedule_deps_def split: prod.splits sum.splits
      dest!: CreateSchedule_repo_effect elim!: insert_schedule_InrE)

lemma Register_frame:
  "Register pg_user_deps L email pw role w = (r, w') \<Longrightarrow>
   bookings (store w') = bookings (store w) \<and> same_catalog (store w) (store w')"
  by (auto simp: Register_def Let_def same_catalog_def split: prod.splits sum.splits option.splits
      dest!: CreateUser_repo_effect uuid_New_storeD elim!: insert_user_InrE)

lemma Login_store: "Login pg_user_deps L secret email pw w = (r, w') \<Longrightarrow> store w' = store w"
  by (auto simp: Login_def split: prod.splits sum.splits option.splits bcrypt_result.splits if_splits
      dest!: catalog_reads_store(4) GenerateToken_store)

lemma DummyLogin_store: "DummyLogin L secret role w = (r, w') \<Longrightarrow> store w' = store w"
  by (auto simp: DummyLogin_def split: prod.splits sum.splits option.splits if_splits dest!: GenerateToken_store)

lemma ListBookings_store: "ListBookings (pg_booking_deps L) page pageSize w = (r, w') \<Longrightarrow> store w' = store w"
  by (auto simp: ListBookings_def split: prod.splits sum.splits dest: ListBookings_repo_store)

lemma ListUserBookings_store: "ListUserBookings (pg_booking_deps L) u w = (r, w') \<Longrightarrow> store w' = store w"
  by (auto simp: ListUserBookings_def split: prod.splits sum.splits dest: ListUserBookings_repo_store)

section \<open>What the handlers change\<close>

lemma respondError_store [simp]: "store (snd (respondError err w)) = store w"
  by (simp add: respondError_def split: prod.split)

lemma bad_request_store [simp]: "store (snd (bad_request m w)) = store w"
  by (simp add: bad_request_def)

text \<open>
  Each handler returns the world of its service call, or its own world; the counter of slot
  conflicts is not part of the store.
\<close>

lemma dummyLogin_changes: "store (snd (dummyLogin_handler (app_services L secret) r w)) = store w"
  by (auto simp: dummyLogin_handler_def app_services_def Let_def split: option.split sum.split prod.split
      dest: DummyLogin_store)

lemma login_changes: "store (snd (login_handler (app_services L secret) r w)) = store w"
  by (auto simp: login_handler_def app_services_def split: option.split sum.split prod.split dest: Login_store)

lemma register_changes: "permitted who (store w) (store (snd (register_handler L (app_services L secret) r w)))"
  by (auto simp: register_handler_def app_services_def split: option.split sum.split prod.split
      dest!: Register_frame intro: permitted_other)

lemma listRooms_changes: "store (snd (listRooms_handler L (app_services L secret) r w)) = store w"
  by (auto simp: listRooms_handler_def app_services_def split: sum.split prod.split dest: ListRooms_store)

lemma createRoom_changes:
  "permitted (Some (u, RoleAdmin)) (store w) (store (snd (createRoom_handler L (app_services L secret) r w)))"
  by (auto simp: createRoom_handler_def app_services_def split: option.split sum.split prod.split
      dest!: CreateRoom_frame intro: permitted_admin)

lemma createSchedule_changes:
  "permitted (Some (u, RoleAdmin)) (store w) (store (snd (createSchedule_handler L (app_services L secret) r w)))"
  by (auto simp: createSchedule_handler_def app_services_def split: option.split sum.split prod.split
      dest!: CreateSchedule_frame intro: permitted_admin)

lemma listSlots_changes: "permitted who (store w) (store (snd (listSlots_handler L (app_services L secret) r w)))"
  by (auto simp: listSlots_handler_def app_services_def Let_def split: option.split sum.split prod.split
      dest!: ListAvailableSlots_frame intro: permitted_other)

lemma createBooking_changes:
  "db_ok (store w) \<Longrightarrow> rq_UserID r = Some u \<Longrightarrow>
   permitted (Some (u, RoleUser)) (store w) (store (snd (createBooking_handler L (app_services L secret) r w)))"
  by (auto simp: createBooking_handler_def app_services_def counter_Add_store split: option.split sum.split prod.split
      dest!: CreateBooking_frame intro: permitted_user)

lemma cancelBooking_changes:
  "rq_UserID r = Some u \<Longrightarrow>
   permitted (Some (u, RoleUser)) (store w) (store (snd (cancelBooking_handler L (app_services L secret) r w)))"
  by (auto simp: cancelBooking_handler_def app_services_def split: option.split sum.split prod.split
      dest!: CancelBooking_frame intro: permitted_user)

lemma listBookings_changes: "store (snd (listBookings_handler L (app_services L secret) r w)) = store w"
  by (auto simp: listBookings_handler_def app_services_def split: sum.split prod.split dest: ListBookings_store)

lemma listUserBookings_changes: "store (snd (listUserBookings_handler L (app_services L secret) r w)) = store w"
  by (auto simp: listUserBookings_handler_def app_services_def split: option.split sum.split prod.split
      dest: ListUserBookings_store)

section \<open>What a request changes\<close>

text \<open>What the header of a request says at a time, if it carries a token that is accepted then.\<close>

definition bearer_claims :: "externals \<Rightarrow> string \<Rightarrow> request \<Rightarrow> time \<Rightarrow> (uuid \<times> string) option" where
  "bearer_claims L secret r now =
    (case bearer_token (rq_Authorization r) of
       None \<Rightarrow> None
     | Some tok \<Rightarrow>
         map_option (\<lambda>c. (cl_UserID c, cl_Role c)) (jwt_ParseWithClaims L tok (hmac_key secret) now))"

lemma Auth_changes:
  assumes "\<And>u role r w. rq_UserID r = Some u \<Longrightarrow> rq_Role r = Some role \<Longrightarrow> db_ok (store w) \<Longrightarrow>
      permitted (Some (u, role)) (store w) (store (snd (h r w)))"
    and "db_ok (store w)"
  shows "permitted (bearer_claims L secret r (fst (time_Now w))) (store w) (store (snd (Auth L secret h r w)))"
proof (cases "bearer_token (rq_Authorization r)")
  case None
  then show ?thesis by (simp add: Auth_def)
next
  case (Some tok)
  obtain now w1 where t: "time_Now w = (now, w1)" by fastforce
  have s: "store w1 = store w" by (rule time_Now_storeD [OF t])
  show ?thesis
  proof (cases "jwt_ParseWithClaims L tok (hmac_key secret) now")
    case None
    with Some t s show ?thesis by (simp add: Auth_def ParseToken_def)
  next
    case claims: (Some c)
    let ?r = "r\<lparr>rq_UserID := Some (cl_UserID c), rq_Role := Some (cl_Role c)\<rparr>"
    have "permitted (Some (cl_UserID c, cl_Role c)) (store w1) (store (snd (h ?r w1)))"
      by (rule assms(1)) (use assms(2) s in simp_all)
    with Some t s claims show ?thesis by (simp add: Auth_def ParseToken_def bearer_claims_def)
  qed
qed

lemma RequireRole_changes:
  assumes "rq_Role r = Some role"
    and "role = allowed \<Longrightarrow> permitted (Some (u, allowed)) (store w) (store (snd (h r w)))"
  shows "permitted (Some (u, role)) (store w) (store (snd (RequireRole [allowed] h r w)))"
  using assms by (simp add: RequireRole_def RoleFromContext_def)

lemma route_changes:
  assumes "map_of (routes L secret (app_services L secret)) pat = Some h" and ok: "db_ok (store w)"
  shows "permitted (bearer_claims L secret r (fst (time_Now w))) (store w) (store (snd (h r w)))"
proof -
  let ?svc = "app_services L secret"
  have admin: "permitted (bearer_claims L secret r (fst (time_Now w))) (store w)
      (store (snd (Auth L secret (RequireRole [RoleAdmin] g) r w)))"
    if "\<And>u r w. permitted (Some (u, RoleAdmin)) (store w) (store (snd (g r w)))" for g
    by (rule Auth_changes [OF RequireRole_changes ok]) (use that in auto)
  have user: "permitted (bearer_claims L secret r (fst (time_Now w))) (store w)
      (store (snd (Auth L secret (RequireRole [RoleUser] g) r w)))"
    if "\<And>u r w. rq_UserID r = Some u \<Longrightarrow> db_ok (store w) \<Longrightarrow>
          permitted (Some (u, RoleUser)) (store w) (store (snd (g r w)))" for g
    by (rule Auth_changes [OF RequireRole_changes ok]) (use that in auto)
  have any: "permitted (bearer_claims L secret r (fst (time_Now w))) (store w) (store (snd (Auth L secret g r w)))"
    if "\<And>who r w. permitted who (store w) (store (snd (g r w)))" for g
    by (rule Auth_changes [OF _ ok]) (use that in auto)
  show ?thesis
    using assms(1) unfolding routes_def map_of.simps
    by (auto simp: InfoHandler_def listBookings_changes listUserBookings_changes listRooms_changes
        dummyLogin_changes login_changes split: if_splits
        intro!: admin user any [of "listRooms_handler L ?svc"] any [of "listSlots_handler L ?svc"] register_changes createRoom_changes createSchedule_changes listSlots_changes
          createBooking_changes cancelBooking_changes)
qed

lemma Recoverer_changes: "store (snd (Recoverer h r w)) = store (snd (h r w))"
  by (simp add: Recoverer_def split: prod.split option.split)

lemma Metrics_changes:
  obtains v where "store v = store w" "clock w \<le> clock v" "store (snd (Metrics pattern h r w)) = store (snd (h r v))"
proof (cases "rq_Path r = ''/metrics''")
  case True
  then show thesis by (intro that [of w]) (simp_all add: Metrics_def)
next
  case False
  then show thesis
    using time_Now_monotone [of w]
    by (intro that [of "snd (time_Now w)"])
      (simp_all add: Metrics_def world_simps split: prod.split option.split)
qed

lemma NewRouter_cases:
  obtains (unmatched) pattern where
      "NewRouter chi_Find L secret svc r w = Metrics pattern (\<lambda>r w. answer 404 PEmpty w) r w"
  | (matched) pat params h where "map_of (routes L secret svc) pat = Some h"
      "NewRouter chi_Find L secret svc r w =
         Metrics (snd pat) (Recoverer (\<lambda>r. h (r\<lparr>rq_Params := params, rq_UserID := None, rq_Role := None\<rparr>))) r w"
proof (cases "chi_Find (map fst (routes L secret svc)) (rq_Method r) (rq_Path r)")
  case None
  then show thesis by (intro unmatched) (simp add: NewRouter_def)
next
  case (Some m)
  obtain pat params where m: "m = (pat, params)" by fastforce
  show thesis
  proof (cases "map_of (routes L secret svc) pat")
    case None
    with Some m show thesis by (intro unmatched) (simp add: NewRouter_def)
  next
    case h: (Some h)
    with Some m show thesis by (intro matched [OF h, of params]) (simp add: NewRouter_def)
  qed
qed

lemma request_changes:
  assumes "db_ok (store w)"
  shows "\<exists>now \<ge> clock w. permitted (bearer_claims L secret r now) (store w)
    (store (snd (NewRouter chi_Find L secret (app_services L secret) r w)))"
proof -
  let ?R = "NewRouter chi_Find L secret (app_services L secret) r w"
  show ?thesis
  proof (cases rule: NewRouter_cases [of chi_Find L secret "app_services L secret" r w])
    case (unmatched pattern)
    show ?thesis unfolding unmatched
      by (rule Metrics_changes [of w pattern "\<lambda>r w. answer 404 PEmpty w" r]) auto
  next
    case (matched pat params h)
    let ?r = "r\<lparr>rq_Params := params, rq_UserID := None, rq_Role := None\<rparr>"
    let ?h = "Recoverer (\<lambda>r. h (r\<lparr>rq_Params := params, rq_UserID := None, rq_Role := None\<rparr>))"
    obtain v where v: "store v = store w" "clock w \<le> clock v" "store (snd ?R) = store (snd (h ?r v))"
      unfolding matched(2) by (rule Metrics_changes [of w "snd pat" ?h r]) (auto simp: Recoverer_changes)
    have "permitted (bearer_claims L secret ?r (fst (time_Now v))) (store v) (store (snd (h ?r v)))"
      by (rule route_changes [OF matched(1)]) (use assms v in simp)
    then show ?thesis
      using v time_Now_monotone [of v]
      by (intro exI [of _ "fst (time_Now v)"]) (simp add: bearer_claims_def)
  qed
qed

end
