(* ===== verification/BookingEndpoints.thy ===== *)
theory BookingEndpoints
  imports BookingAccess
begin

text \<open>
  What the endpoints of bookings answer and do, from the header of the request to the rows of the
  table: the router, the middleware, the handler, the service and the repository together.  The
  specification is a table of answers; it holds of every request when the database answers.
\<close>

section \<open>Routes with a role\<close>

definition role_routes :: "externals \<Rightarrow> 'd Services \<Rightarrow> (pattern \<times> Role \<times> (payload, 'd) handler) list" where
  "role_routes L svc =
    [((''POST'', ''/rooms/create''), RoleAdmin, createRoom_handler L svc),
     ((''POST'', ''/rooms/{roomId}/schedule/create''), RoleAdmin, createSchedule_handler L svc),
     ((''GET'', ''/bookings/list''), RoleAdmin, listBookings_handler L svc),
     ((''POST'', ''/bookings/create''), RoleUser, createBooking_handler L svc),
     ((''GET'', ''/bookings/my''), RoleUser, listUserBookings_handler L svc),
     ((''POST'', ''/bookings/{bookingId}/cancel''), RoleUser, cancelBooking_handler L svc)]"

lemma role_routes_guarded:
  assumes "(pat, role, handler) \<in> set (role_routes L svc)"
  shows "map_of (routes L secret svc) pat = Some (Auth L secret (RequireRole [role] handler))"
  using assms unfolding role_routes_def routes_def by auto

lemma guarded_cases:
  "case bearer_claims L secret r (fst (time_Now w)) of
     None \<Rightarrow> \<exists>w'. Auth L secret (RequireRole [role] handler) r w = answer 401 (PText unauthorizedBody) w' \<and> store w' = store w
   | Some (u, role') \<Rightarrow>
       (if role' = role
        then Auth L secret (RequireRole [role] handler) r w =
               handler (r\<lparr>rq_UserID := Some u, rq_Role := Some role\<rparr>) (snd (time_Now w))
        else \<exists>w'. Auth L secret (RequireRole [role] handler) r w = answer 403 (PText forbiddenBody) w' \<and> store w' = store w)"
  by (cases "time_Now w")
    (auto simp: bearer_claims_def Auth_def ParseToken_def RequireRole_def RoleFromContext_def
      split: option.split dest: time_Now_storeD)

text \<open>
  The worlds in which a request reads the clock for the first, second, third time, as long as
  nothing else happens, and what it reads.
\<close>

primrec elapsed :: "nat \<Rightarrow> 'd world \<Rightarrow> 'd world" where
  "elapsed 0 w = w"
| "elapsed (Suc k) w = snd (time_Now (elapsed k w))"

definition reading :: "'d world \<Rightarrow> nat \<Rightarrow> time" where
  "reading w k = fst (time_Now (elapsed k w))"

lemma elapsed_simps [simp]:
  "store (elapsed k w) = store w" "gen (elapsed k w) = gen w" "gen_pos (elapsed k w) = gen_pos w"
  "calm (elapsed k w) = calm w"
  by (induction k) (simp_all add: time_Now_def calm_def split: list.split)

lemma clock_reading: "clock w \<le> reading w k"
proof -
  have "clock w \<le> clock (elapsed k w)"
    by (induction k) (auto intro: order_trans time_Now_monotone simp: time_Now_def split: list.split)
  then show ?thesis using time_Now_monotone [of "elapsed k w"] by (simp add: reading_def)
qed

text \<open>Auth reads the clock after the middleware of the metrics, which skips its own path.\<close>

definition auth_reading :: "request \<Rightarrow> nat" where
  "auth_reading r = (if rq_Path r = ''/metrics'' then 0 else 1)"

lemma Metrics_result:
  "fst (Metrics pattern h r w) = fst (h r (elapsed (auth_reading r) w)) \<and>
   store (snd (Metrics pattern h r w)) = store (snd (h r (elapsed (auth_reading r) w)))"
  by (simp add: Metrics_def auth_reading_def world_simps split: prod.split option.split)

text \<open>
  An endpoint meets its specification if its handler does for the user of the token: the
  specification \<open>F\<close> gives the answer and what \<open>g\<close> sees of the database afterwards.
\<close>

lemma role_route_spec:
  assumes chi: "chi_Find (map fst (routes L secret svc)) (rq_Method r) (rq_Path r) = Some (pat, params)"
    and pat: "(pat, role, handler) \<in> set (role_routes L svc)"
    and spec: "F None = (\<lparr> rs_Status = 401, rs_Body = PText unauthorizedBody \<rparr>, g (store w))"
      "\<And>u role'. role' \<noteq> role \<Longrightarrow> F (Some (u, role')) = (\<lparr> rs_Status = 403, rs_Body = PText forbiddenBody \<rparr>, g (store w))"
    and handler: "\<And>u. let (answer, after) = F (Some (u, role));
        h = handler (r\<lparr>rq_Params := params, rq_UserID := Some u, rq_Role := Some role\<rparr>) (elapsed (Suc (auth_reading r)) w)
      in fst h = Some answer \<and> g (store (snd h)) = after"
  shows "let (answer, after) = F (bearer_claims L secret r (reading w (auth_reading r)));
      run = NewRouter chi_Find L secret svc r w
    in fst run = Some answer \<and> g (store (snd run)) = after"
proof -
  let ?r = "r\<lparr>rq_Params := params, rq_UserID := None, rq_Role := None\<rparr>"
  let ?h = "Auth L secret (RequireRole [role] handler)"
  let ?g = "\<lambda>r. ?h (r\<lparr>rq_Params := params, rq_UserID := None, rq_Role := None\<rparr>)"
  let ?v = "elapsed (auth_reading r) w"
  have R: "NewRouter chi_Find L secret svc r w = Metrics (snd pat) (Recoverer ?g) r w"
    using chi role_routes_guarded [OF pat, of secret] by (simp add: NewRouter_def)
  have g: "Recoverer ?g r ?v = Recoverer ?h ?r ?v" by (simp add: Recoverer_def)
  have c: "bearer_claims L secret ?r = bearer_claims L secret r" by (simp add: bearer_claims_def fun_eq_iff)
  have run: "fst (NewRouter chi_Find L secret svc r w) = fst (Recoverer ?h ?r ?v)"
    "store (snd (NewRouter chi_Find L secret svc r w)) = store (snd (?h ?r ?v))"
    using Metrics_result [of "snd pat" "Recoverer ?g" r w] unfolding R g Recoverer_changes by simp_all
  note cases = guarded_cases [where L = L and secret = secret and r = ?r and w = ?v and role = role and handler = handler,
      unfolded c reading_def [symmetric]]
  show ?thesis
  proof (cases "bearer_claims L secret r (reading w (auth_reading r))")
    case None
    then show ?thesis using run cases spec(1) by (auto simp: Recoverer_def)
  next
    case (Some who)
    obtain u role' where who: "who = (u, role')" by (cases who)
    then show ?thesis
    proof (cases "role' = role")
      case True
      then have h: "?h ?r ?v = handler (r\<lparr>rq_Params := params, rq_UserID := Some u, rq_Role := Some role\<rparr>) (elapsed (Suc (auth_reading r)) w)"
        using cases Some who by simp
      show ?thesis using run handler [of u] Some who True unfolding h Recoverer_def
        by (auto simp: Let_def Recoverer_def h split: prod.splits option.splits)
    next
      case False
      then show ?thesis using run cases Some who spec(2) by (auto simp: Recoverer_def)
    qed
  qed
qed

section \<open>Creating a booking\<close>

text \<open>The answer to an error by the sentinel at its root.\<close>

definition error_answer :: "model_error option \<Rightarrow> payload response" where
  "error_answer e = (case e of
      None \<Rightarrow> \<lparr> rs_Status = 500, rs_Body = PError INTERNAL_ERROR ''internal server error'' \<rparr>
    | Some s \<Rightarrow> \<lparr> rs_Status = snd (sentinel_status s), rs_Body = PError (fst (sentinel_status s)) (error_text s) \<rparr>)"

lemma respondError_answer: "respondError err w = (Some (error_answer (root_sentinel err)), w)"
  by (simp add: respondError_def mapError_root error_answer_def split: option.split)

definition invalid :: "string \<Rightarrow> payload response" where
  "invalid m = \<lparr> rs_Status = 400, rs_Body = PError INVALID_REQUEST m \<rparr>"

lemma bad_request_answer: "bad_request m w = (Some (invalid m), w)"
  by (simp add: bad_request_def invalid_def)

text \<open>
  \<open>POST /bookings/create\<close> for the claims of the token, in a state, at a time, with an identifier
  and a creation time: the answer, and the bookings it adds.
\<close>

definition create_endpoint ::
    "externals \<Rightarrow> (uuid \<times> string) option \<Rightarrow> request \<Rightarrow> BookingDB \<Rightarrow> time \<Rightarrow> uuid \<Rightarrow> time \<Rightarrow> payload response \<times> Booking list" where
  "create_endpoint L who r db now bid created =
    (case who of
       None \<Rightarrow> (\<lparr> rs_Status = 401, rs_Body = PText unauthorizedBody \<rparr>, [])
     | Some (u, role) \<Rightarrow>
       if role \<noteq> RoleUser then (\<lparr> rs_Status = 403, rs_Body = PText forbiddenBody \<rparr>, [])
       else case decode_body maxBodyBytes booking_fields \<lparr> bq_SlotID = '''', bq_CreateConferenceLink = False \<rparr> r of
         None \<Rightarrow> (invalid ''invalid request body'', [])
       | Some req \<Rightarrow>
         (case uuid_Parse L (bq_SlotID req) of
            None \<Rightarrow> (invalid ''invalid slotId'', [])
          | Some slotID \<Rightarrow>
            (case create_answer db slotID u
                    (if bq_CreateConferenceLink req
                     then Some (''https://conference.example/meeting/'' @ uuid_String L bid) else None) now bid created of
               Inl e \<Rightarrow> (error_answer e, [])
             | Inr b \<Rightarrow> (\<lparr> rs_Status = 201, rs_Body = PBooking (toBookingResponse L b) \<rparr>, [b]))))"

definition new_bookings :: "model_error option + Booking \<Rightarrow> Booking list" where
  "new_bookings a = (case a of Inl e \<Rightarrow> [] | Inr b \<Rightarrow> [b])"

lemma new_bookings_simps [simp]: "new_bookings (Inl e) = []" "new_bookings (Inr b) = [b]"
  by (simp_all add: new_bookings_def)

lemma calm_CreateBooking_repo_table:
  assumes "calm w" and "gen w (gen_pos w) \<notin> bk_ID ` set (bookings (store w))"
    and "gen w (Suc (gen_pos w)) \<notin> ob_id ` set (outbox (store w))"
    and "slotID \<in> sl_ID ` set (slots (store w))"
  shows "bookings (store (snd (CreateBooking_repo L slotID userID w))) =
    bookings (store w) @ new_bookings (outcome (fst (CreateBooking_repo L slotID userID w)))"
  using assms
  by (simp add: CreateBooking_repo_def calm_db uuid_New_def time_Now_store insert_booking_def
      insert_event_fresh create_booking_error_def Let_def)

lemma calm_CreateBooking_repo_id:
  assumes "calm w" and "CreateBooking_repo L slotID userID w = (Inr b, w')"
  shows "bk_ID b = gen w (gen_pos w)"
  using assms
  by (auto simp: CreateBooking_repo_def calm_db uuid_New_def time_Now_store insert_booking_def Let_def
      split: sum.splits prod.splits if_splits)

lemma CreateBooking_table:
  assumes c: "calm w"
    and fresh: "gen w (gen_pos w) \<notin> bk_ID ` set (bookings (store w))"
      "gen w (Suc (gen_pos w)) \<notin> ob_id ` set (outbox (store w))"
  shows "bookings (store (snd (CreateBooking (pg_booking_deps L) slotID userID link w))) =
    bookings (store w) @ new_bookings (outcome (fst (CreateBooking (pg_booking_deps L) slotID userID link w)))"
proof (cases "find_by sl_ID slotID (slots (store w))")
  case None
  then show ?thesis by (simp add: CreateBooking_def calm_GetSlotByID_repo c)
next
  case (Some s)
  let ?w = "snd (time_Now w)"
  have gen: "gen ?w = gen w" "gen_pos ?w = gen_pos w" "store ?w = store w" by (simp_all add: time_Now_store)
  have in_table: "slotID \<in> sl_ID ` set (slots (store w))" using find_by_Some [OF Some] by auto
  obtain r w3 where r: "CreateBooking_repo L slotID userID ?w = (r, w3)" by fastforce
  have t: "bookings (store w3) = bookings (store w) @ new_bookings (outcome r)"
    using calm_CreateBooking_repo_table [of ?w slotID L userID] c fresh in_table r gen by simp
  have c3: "calm w3"
    using calm_CreateBooking_repo(2) [of ?w "gen w (gen_pos w)" "gen w (Suc (gen_pos w))" slotID L userID]
      c fresh in_table r gen by simp
  show ?thesis
  proof (cases r)
    case (Inl e)
    then show ?thesis using Some r t
      by (cases "time_Now w") (simp add: CreateBooking_def calm_GetSlotByID_repo c time_Now_storeD)
  next
    case (Inr b)
    have "bk_ID b \<notin> bk_ID ` set (bookings (store w))"
      using calm_CreateBooking_repo_id [of ?w L slotID userID b w3] r Inr c fresh(1) gen by simp
    then have "update_where (\<lambda>x. bk_ID x = bk_ID b) f (bookings (store w) @ [b]) = bookings (store w) @ [f b]" for f
      by (auto simp: update_where_def image_iff intro!: map_idI)
    then show ?thesis using Some r t Inr c3
      by (cases "time_Now w") (simp add: CreateBooking_def calm_GetSlotByID_repo c time_Now_storeD
          CreateLink_def UpdateConferenceLink_repo_def calm_exec_stmt update_conference_link_def)
  qed
qed

lemma decode_body_user [simp]:
  "decode_body limit fs z (r\<lparr>rq_Params := ps, rq_UserID := u, rq_Role := ro\<rparr>) = decode_body limit fs z r"
  by (simp add: decode_body_def)

lemma create_endpoint_user [simp]:
  "create_endpoint L who (r\<lparr>rq_Params := ps, rq_UserID := u, rq_Role := ro\<rparr>) = create_endpoint L who r"
  by (simp only: create_endpoint_def decode_body_user fun_eq_iff simp_thms)

lemma createBooking_answers:
  assumes w: "calm w" "db_ok (store w)"
    and fresh: "gen w (gen_pos w) \<notin> bk_ID ` set (bookings (store w))"
      "gen w (Suc (gen_pos w)) \<notin> ob_id ` set (outbox (store w))"
    and u: "rq_UserID r = Some u"
  shows "(let (answer, new) = create_endpoint L (Some (u, RoleUser)) r (store w) (fst (time_Now w)) (gen w (gen_pos w))
            (fst (time_Now (snd (time_Now w))))
     in fst (createBooking_handler L (app_services L secret) r w) = Some answer \<and>
        bookings (store (snd (createBooking_handler L (app_services L secret) r w))) = bookings (store w) @ new)"
proof (cases "decode_body maxBodyBytes booking_fields \<lparr> bq_SlotID = '''', bq_CreateConferenceLink = False \<rparr> r")
  case None
  then show ?thesis using u
    by (simp add: create_endpoint_def createBooking_handler_def booking_UserIDFromContext_def bad_request_answer)
next
  case (Some req)
  show ?thesis
  proof (cases "uuid_Parse L (bq_SlotID req)")
    case None
    with Some show ?thesis using u
      by (simp add: create_endpoint_def createBooking_handler_def booking_UserIDFromContext_def bad_request_answer)
  next
    case slotID: (Some slotID)
    obtain res w1 where c: "CreateBooking (pg_booking_deps L) slotID u (bq_CreateConferenceLink req) w = (res, w1)"
      by fastforce
    note decided = CreateBooking_decides [OF w fresh, of L slotID u "bq_CreateConferenceLink req", unfolded c fst_conv]
    have table: "bookings (store w1) = bookings (store w) @ new_bookings (outcome res)"
      using CreateBooking_table [OF w(1) fresh, of L slotID u "bq_CreateConferenceLink req"] c by simp
    show ?thesis
    proof (cases res)
      case (Inl e)
      then show ?thesis using Some slotID u c decided [symmetric] table
        by (simp add: create_endpoint_def createBooking_handler_def booking_UserIDFromContext_def app_services_def
            respondError_answer world_simps)
    next
      case (Inr b)
      then show ?thesis using Some slotID u c decided [symmetric] table
        by (simp add: create_endpoint_def createBooking_handler_def booking_UserIDFromContext_def app_services_def)
    qed
  qed
qed

lemma create_request_decided:
  assumes w: "calm w" "db_ok (store w)"
    and fresh: "gen w (gen_pos w) \<notin> bk_ID ` set (bookings (store w))"
      "gen w (Suc (gen_pos w)) \<notin> ob_id ` set (outbox (store w))"
    and chi: "chi_Find (map fst (routes L secret (app_services L secret))) (rq_Method r) (rq_Path r) =
      Some ((''POST'', ''/bookings/create''), params)"
  shows "let k = auth_reading r;
      (answer, new) = create_endpoint L (bearer_claims L secret r (reading w k)) r (store w) (reading w (k + 1))
        (gen w (gen_pos w)) (reading w (k + 2));
      run = NewRouter chi_Find L secret (app_services L secret) r w
    in fst run = Some answer \<and> bookings (store (snd run)) = bookings (store w) @ new"
proof -
  let ?svc = "app_services L secret"
  let ?v = "elapsed (Suc (auth_reading r)) w"
  let ?F = "\<lambda>who. let (answer, new) = create_endpoint L who r (store w) (fst (time_Now ?v)) (gen w (gen_pos w))
      (fst (time_Now (snd (time_Now ?v)))) in (answer, bookings (store w) @ new)"
  have pat: "((''POST'', ''/bookings/create''), RoleUser, createBooking_handler L ?svc) \<in> set (role_routes L ?svc)"
    by (simp add: role_routes_def)
  have handler: "let (answer, after) = ?F (Some (u, RoleUser));
      h = createBooking_handler L ?svc (r\<lparr>rq_Params := params, rq_UserID := Some u, rq_Role := Some RoleUser\<rparr>) ?v
    in fst h = Some answer \<and> bookings (store (snd h)) = after" for u
    using createBooking_answers [of ?v "r\<lparr>rq_Params := params, rq_UserID := Some u, rq_Role := Some RoleUser\<rparr>" u L secret] w fresh
    by (simp only: elapsed_simps create_endpoint_user request.simps Let_def split: prod.splits) auto
  have "let (answer, after) = ?F (bearer_claims L secret r (reading w (auth_reading r)));
      run = NewRouter chi_Find L secret ?svc r w
    in fst run = Some answer \<and> bookings (store (snd run)) = after"
    by (rule role_route_spec [where chi_Find = chi_Find and L = L and svc = ?svc and r = r and w = w and F = ?F and g = bookings,
          OF chi pat _ _ handler])
      (simp_all add: create_endpoint_def)
  then show ?thesis by (simp add: reading_def Let_def split: prod.splits)
qed

section \<open>Cancelling a booking\<close>

text \<open>\<open>POST /bookings/{bookingId}/cancel\<close>: the answer, and the bookings afterwards.\<close>

definition cancel_endpoint ::
    "externals \<Rightarrow> (uuid \<times> string) option \<Rightarrow> (string \<times> string) list \<Rightarrow> BookingDB \<Rightarrow> payload response \<times> Booking list" where
  "cancel_endpoint L who params db =
    (case who of
       None \<Rightarrow> (\<lparr> rs_Status = 401, rs_Body = PText unauthorizedBody \<rparr>, bookings db)
     | Some (u, role) \<Rightarrow>
       if role \<noteq> RoleUser then (\<lparr> rs_Status = 403, rs_Body = PText forbiddenBody \<rparr>, bookings db)
       else case uuid_Parse L (get_param params ''bookingId'') of
         None \<Rightarrow> (invalid ''invalid bookingId'', bookings db)
       | Some bookingID \<Rightarrow>
         (case find_by bk_ID bookingID (bookings db) of
            None \<Rightarrow> (error_answer (Some ErrBookingNotFound), bookings db)
          | Some b \<Rightarrow>
            if bk_UserID b = u
            then (\<lparr> rs_Status = 200, rs_Body = PBooking (toBookingResponse L (cancelled b)) \<rparr>,
                  set_cancelled bookingID (bookings db))
            else (error_answer (Some ErrBookingNotFound), bookings db)))"

lemma CancelBooking_refused:
  assumes "calm w" and "find (cancellable bookingID userID) (bookings (store w)) = None"
    and "CancelBooking (pg_booking_deps L) bookingID userID w = (r, w')"
  shows "store w' = store w"
  using assms
  by (auto simp: CancelBooking_def CancelBooking_repo_def calm_db update_cancelled_def time_Now_store
      diagnoseCancelFailure_def GetBookingByID_repo_def query_def select_booking_def
      split: option.splits if_splits sum.splits prod.splits)

lemma CancelBooking_table:
  assumes c: "calm w" and ok: "db_ok (store w)" and fresh: "gen w (gen_pos w) \<notin> ob_id ` set (outbox (store w))"
    and run: "CancelBooking (pg_booking_deps L) bookingID userID w = (r, w')"
  shows "bookings (store w') = (case r of Inl e \<Rightarrow> bookings (store w) | Inr b \<Rightarrow> set_cancelled bookingID (bookings (store w)))"
proof (cases r)
  case (Inr b)
  then show ?thesis using pg_bookings.cancel_promise [of L bookingID userID w b w'] run ok by simp
next
  case (Inl e)
  have "outcome r = (case find_by bk_ID bookingID (bookings (store w)) of
       None \<Rightarrow> Inl (Some ErrBookingNotFound)
     | Some b \<Rightarrow> if bk_UserID b = userID then Inr (cancelled b) else Inl (Some ErrBookingNotFound))"
    using CancelBooking_decides [OF c ok fresh, of L bookingID userID] run by simp
  then have "find (cancellable bookingID userID) (bookings (store w)) = None"
    using Inl find_by_distinct [of bk_ID "bookings (store w)"] ok
    by (auto simp: find_None_all cancellable_def db_ok_defs split: option.splits if_splits)
  then show ?thesis using CancelBooking_refused [OF c _ run] Inl by simp
qed

lemma cancelBooking_answers:
  assumes w: "calm w" "db_ok (store w)" "gen w (gen_pos w) \<notin> ob_id ` set (outbox (store w))"
    and u: "rq_UserID r = Some u"
  shows "(let (answer, after) = cancel_endpoint L (Some (u, RoleUser)) (rq_Params r) (store w)
     in fst (cancelBooking_handler L (app_services L secret) r w) = Some answer \<and>
        bookings (store (snd (cancelBooking_handler L (app_services L secret) r w))) = after)"
proof (cases "uuid_Parse L (get_param (rq_Params r) ''bookingId'')")
  case None
  then show ?thesis using u
    by (simp add: cancel_endpoint_def cancelBooking_handler_def booking_UserIDFromContext_def bad_request_answer)
next
  case (Some bookingID)
  obtain res w1 where c: "CancelBooking (pg_booking_deps L) bookingID u w = (res, w1)" by fastforce
  have decided: "outcome res = (case find_by bk_ID bookingID (bookings (store w)) of
       None \<Rightarrow> Inl (Some ErrBookingNotFound)
     | Some b \<Rightarrow> if bk_UserID b = u then Inr (cancelled b) else Inl (Some ErrBookingNotFound))"
    using CancelBooking_decides [OF w, of L bookingID u] c by simp
  note table = CancelBooking_table [OF w c]
  show ?thesis
  proof (cases res)
    case (Inl e)
    then show ?thesis using Some u c decided table
      by (simp add: cancel_endpoint_def cancelBooking_handler_def booking_UserIDFromContext_def app_services_def
          respondError_answer split: option.splits if_splits)
  next
    case (Inr b)
    then show ?thesis using Some u c decided table
      by (simp add: cancel_endpoint_def cancelBooking_handler_def booking_UserIDFromContext_def app_services_def
          split: option.splits if_splits)
  qed
qed

lemma cancel_request_decided:
  assumes w: "calm w" "db_ok (store w)" "gen w (gen_pos w) \<notin> ob_id ` set (outbox (store w))"
    and chi: "chi_Find (map fst (routes L secret (app_services L secret))) (rq_Method r) (rq_Path r) =
      Some ((''POST'', ''/bookings/{bookingId}/cancel''), params)"
  shows "let (answer, after) = cancel_endpoint L (bearer_claims L secret r (reading w (auth_reading r))) params (store w);
      run = NewRouter chi_Find L secret (app_services L secret) r w
    in fst run = Some answer \<and> bookings (store (snd run)) = after"
proof (rule role_route_spec [where chi_Find = chi_Find and F = "\<lambda>who. cancel_endpoint L who params (store w)" and g = bookings, OF chi])
  let ?svc = "app_services L secret"
  let ?v = "elapsed (Suc (auth_reading r)) w"
  show "((''POST'', ''/bookings/{bookingId}/cancel''), RoleUser, cancelBooking_handler L ?svc) \<in> set (role_routes L ?svc)"
    by (simp add: role_routes_def)
  show "let (answer, after) = cancel_endpoint L (Some (u, RoleUser)) params (store w);
      h = cancelBooking_handler L ?svc (r\<lparr>rq_Params := params, rq_UserID := Some u, rq_Role := Some RoleUser\<rparr>) ?v
    in fst h = Some answer \<and> bookings (store (snd h)) = after" for u
    using cancelBooking_answers [of ?v "r\<lparr>rq_Params := params, rq_UserID := Some u, rq_Role := Some RoleUser\<rparr>" u L secret] w
    by (simp only: elapsed_simps Let_def) simp
qed (simp_all add: cancel_endpoint_def)

end
