(* ===== verification/OutboxRepo.thy ===== *)
theory OutboxRepo
  imports BookingRepo
begin

text \<open>
  \<open>booking-service/internal/repo/outbox/outbox.go\<close>: one batch of unsent outbox rows, published
  by a callback inside the transaction that marks them.  The callback has effects of its own
  that no rollback undoes (it writes to Kafka), so it threads a state \<open>'k\<close> beside the world.
\<close>

record OutboxRecord =
  rec_ID :: uuid
  rec_EventType :: string
  rec_Payload :: json_object

definition fetchBatchSize :: nat where "fetchBatchSize = 100"

section \<open>Statements\<close>

definition unsent :: "OutboxRow \<Rightarrow> bool" where
  "unsent o1 \<longleftrightarrow> ob_sent_at o1 = None"

definition scan_record :: "OutboxRow \<Rightarrow> OutboxRecord" where
  "scan_record o1 = \<lparr> rec_ID = ob_id o1, rec_EventType = ob_event_type o1, rec_Payload = ob_payload o1 \<rparr>"

text \<open>
  \<open>SELECT ... WHERE sent_at IS NULL ORDER BY created_at LIMIT 100 FOR UPDATE SKIP LOCKED\<close>:
  \<open>locked\<close> are the rows that another transaction holds.
\<close>

definition pending :: "(uuid \<Rightarrow> bool) \<Rightarrow> BookingDB \<Rightarrow> OutboxRow list" where
  "pending locked db = take fetchBatchSize
     (sort_key ob_created_at (filter (\<lambda>o1. unsent o1 \<and> \<not> locked (ob_id o1)) (outbox db)))"

definition select_pending :: "(uuid \<Rightarrow> bool) \<Rightarrow> BookingDB \<Rightarrow> db_error + OutboxRecord list" where
  "select_pending locked db = Inr (map scan_record (pending locked db))"

definition mark_sent :: "time \<Rightarrow> uuid list \<Rightarrow> BookingDB \<Rightarrow> db_error + (unit \<times> BookingDB)" where
  "mark_sent now ids db =
    Inr ((), db\<lparr>outbox := update_where (\<lambda>o1. ob_id o1 \<in> set ids) (\<lambda>o1. o1\<lparr>ob_sent_at := Some now\<rparr>)
                           (outbox db)\<rparr>)"

section \<open>The method\<close>

definition ProcessBatch ::
    "(uuid \<Rightarrow> bool) \<Rightarrow> (OutboxRecord list \<Rightarrow> 'k \<Rightarrow> (model_error, unit) result \<times> 'k) \<Rightarrow> 'k \<Rightarrow>
     BookingDB world \<Rightarrow> (model_error, unit) result \<times> 'k \<times> BookingDB world" where
  "ProcessBatch locked publish k w =
    (case begin_tx w of
       (Inl e, w1) \<Rightarrow> (Inl (Wrap ''outbox begin tx'' (DbError e)), k, w1)
     | (Inr now, w1) \<Rightarrow>
       (case query_rows ''outbox fetch pending'' ''outbox rows'' (select_pending locked) w1 of
          (Inl e, w2) \<Rightarrow> (Inl e, k, rollback w w2)
        | (Inr records, w2) \<Rightarrow>
          (if length records = 0 then (Inr (), k, rollback w w2)
           else
             (case publish records k of
                (Inl e, k') \<Rightarrow> (Inl e, k', rollback w w2)
              | (Inr _, k') \<Rightarrow>
                (case exec_stmt (mark_sent now (map rec_ID records)) w2 of
                   (Inl e, w3) \<Rightarrow> (Inl (Wrap ''outbox mark sent'' (DbError e)), k', rollback w w3)
                 | (Inr _, w3) \<Rightarrow>
                   (case commit_tx w w3 of
                      (Inl e, w4) \<Rightarrow> (Inl (DbError e), k', w4)
                    | (Inr _, w4) \<Rightarrow> (Inr (), k', w4)))))))"

section \<open>Effects\<close>

definition batch :: "(uuid \<Rightarrow> bool) \<Rightarrow> BookingDB \<Rightarrow> OutboxRecord list" where
  "batch locked db = map scan_record (pending locked db)"

lemma rec_ID_scan [simp]: "rec_ID \<circ> scan_record = ob_id" "rec_ID (scan_record o1) = ob_id o1"
  by (auto simp: scan_record_def)

lemma batch_ids: "map rec_ID (batch locked db) = map ob_id (pending locked db)"
  by (simp add: batch_def)

lemma pending_subset: "o1 \<in> set (pending locked db) \<Longrightarrow> o1 \<in> set (outbox db) \<and> unsent o1 \<and> \<not> locked (ob_id o1)"
  by (auto simp: pending_def dest!: in_set_takeD)

lemma pending_empty: "pending locked db = [] \<longleftrightarrow> (\<forall>o1 \<in> set (outbox db). unsent o1 \<longrightarrow> locked (ob_id o1))"
  by (auto simp: pending_def fetchBatchSize_def filter_empty_conv)

lemma sorted_pending: "sorted (map ob_created_at (pending locked db))"
  unfolding pending_def take_map [symmetric] by (metis sorted_sort_key sorted_wrt_take take_map)

text \<open>
  The tables change only by marking the whole fetched batch, and only after the callback
  accepted it; without an error they do change so, if there was anything to send.
\<close>

lemma ProcessBatch_empty:
  assumes "ProcessBatch locked publish k w = (r, k', w')" and "batch locked (store w) = []"
  shows "store w' = store w" and "k' = k"
  using assms
  by (auto simp: ProcessBatch_def select_pending_def batch_def split: prod.splits sum.splits if_splits
      dest!: begin_tx_store query_rows_InrD)

lemma ProcessBatch_effect:
  assumes "ProcessBatch locked publish k w = (r, k', w')"
  shows "store w' = store w \<or>
      (\<exists>now. fst (publish (batch locked (store w)) k) = Inr () \<and>
             mark_sent now (map ob_id (pending locked (store w))) (store w) = Inr ((), store w'))"
  using assms
  by (auto simp: ProcessBatch_def select_pending_def batch_def
      split: prod.splits sum.splits if_splits
      dest!: begin_tx_store query_rows_InrD exec_stmt_effect commit_tx_store)

lemma ProcessBatch_callback:
  assumes "ProcessBatch locked publish k w = (r, k', w')"
  shows "k' = k \<or> k' = snd (publish (batch locked (store w)) k)"
  using assms
  by (auto simp: ProcessBatch_def select_pending_def batch_def
      split: prod.splits sum.splits if_splits dest!: begin_tx_store query_rows_InrD)

lemma ProcessBatch_Inr:
  assumes "ProcessBatch locked publish k w = (Inr u, k', w')" and "batch locked (store w) \<noteq> []"
  shows "\<exists>now. mark_sent now (map ob_id (pending locked (store w))) (store w) = Inr ((), store w')"
    and "publish (batch locked (store w)) k = (Inr (), k')"
  using assms
  by (auto simp: ProcessBatch_def select_pending_def batch_def
      split: prod.splits sum.splits if_splits
      dest!: begin_tx_store query_rows_InrD commit_tx_Inr elim!: exec_stmt_InrE)

lemma mark_sent_ok: "db_ok db \<Longrightarrow> mark_sent now ids db = Inr (u, db') \<Longrightarrow> db_ok db'"
  by (auto simp: mark_sent_def db_ok_defs map_update_where)

lemma ProcessBatch_ok:
  "ProcessBatch locked publish k w = (r, k', w') \<Longrightarrow> db_ok (store w) \<Longrightarrow> db_ok (store w')"
  by (auto dest!: ProcessBatch_effect intro: mark_sent_ok)

text \<open>What one batch leaves unsent: everything but the batch.\<close>

lemma unsent_after_mark:
  assumes "mark_sent now (map ob_id (pending locked db)) db = Inr (u, db')"
  shows "filter unsent (outbox db') = filter (\<lambda>o1. unsent o1 \<and> ob_id o1 \<notin> ob_id ` set (pending locked db)) (outbox db)"
  using assms by (auto simp: mark_sent_def unsent_def filter_update_where_out)

end
