(* ===== verification/Relay.thy ===== *)
theory Relay
  imports OutboxRepo MetricDefs "HOL-Library.Multiset"
begin

text \<open>
  \<open>booking-service/internal/outbox/relay.go\<close>: the background loop that moves outbox rows to
  the Kafka topic, and its last pass at shutdown.

  Kafka is outside the repository.  Its topic is the list of the messages it accepted.  What a
  call of \<open>WriteMessages\<close> leaves there is decided by a script.  The writer of kafka-go sends a batch
  again when an attempt fails or its acknowledgement is lost (\<open>MaxAttempts\<close> is not set, which
  means ten), so each entry lists, for attempts in turn, which of the messages got into the topic,
  and whether the call succeeds; then what no attempt has written yet is written in the end.  So
  messages may be there several times after a call that succeeds, and after one that fails.
\<close>

record KafkaMessage =
  km_Key :: string
  km_Value :: json_object

type_synonym attempt = "KafkaMessage \<Rightarrow> bool"

record Kafka =
  topic :: "KafkaMessage list"
  write_script :: "(attempt list \<times> string option) list"

definition attempted :: "attempt list \<Rightarrow> KafkaMessage list \<Rightarrow> KafkaMessage list" where
  "attempted attempts msgs = concat (map (\<lambda>kept. filter kept msgs) attempts)"

definition left_over :: "KafkaMessage list \<Rightarrow> KafkaMessage list \<Rightarrow> KafkaMessage list" where
  "left_over written msgs = fold remove1 written msgs"

definition WriteMessages :: "KafkaMessage list \<Rightarrow> Kafka \<Rightarrow> (model_error, unit) result \<times> Kafka" where
  "WriteMessages msgs k =
    (case write_script k of
       [] \<Rightarrow> (Inr (), k\<lparr>topic := topic k @ msgs\<rparr>)
     | (attempts, failure) # rest \<Rightarrow>
         (let written = attempted attempts msgs in
          case failure of
            None \<Rightarrow> (Inr (), k\<lparr>topic := topic k @ written @ left_over written msgs, write_script := rest\<rparr>)
          | Some e \<Rightarrow> (Inl (Opaque e), k\<lparr>topic := topic k @ written, write_script := rest\<rparr>)))"

text \<open>How often the next call may write a message.\<close>

definition attempts_of :: "Kafka \<Rightarrow> nat" where
  "attempts_of k = (case write_script k of
      [] \<Rightarrow> 1
    | (attempts, None) # rest \<Rightarrow> Suc (length attempts)
    | (attempts, Some e) # rest \<Rightarrow> length attempts)"

text \<open>
  What a call adds: messages it was given, each at most as often as it was tried; and each at
  least as often as given, if the call succeeds.
\<close>

lemma mset_left_over: "mset (left_over written msgs) = mset msgs - mset written"
  unfolding left_over_def by (induction written arbitrary: msgs) simp_all

lemma set_attempted: "set (attempted attempts msgs) \<subseteq> set msgs"
  by (auto simp: attempted_def)

lemma mset_attempted: "mset (attempted attempts msgs) \<subseteq># repeat_mset (length attempts) (mset msgs)"
proof (induction attempts)
  case (Cons kept attempts)
  then show ?case
    using subset_mset.add_mono [of "filter_mset kept (mset msgs)" "mset msgs"] by (simp add: attempted_def)
qed (simp add: attempted_def)

lemma WriteMessages_cases:
  assumes "WriteMessages msgs k = (r, k')"
  obtains (written) new where "r = Inr ()" "topic k' = topic k @ new" "set new = set msgs"
      "mset msgs \<subseteq># mset new" "mset new \<subseteq># repeat_mset (attempts_of k) (mset msgs)"
      "0 < attempts_of k" "write_script k = [] \<Longrightarrow> new = msgs"
  | (failed) e new where "r = Inl e" "topic k' = topic k @ new" "set new \<subseteq> set msgs"
      "mset new \<subseteq># repeat_mset (attempts_of k) (mset msgs)"
proof (cases "write_script k")
  case Nil
  then show thesis using assms by (intro written [of msgs]) (auto simp: WriteMessages_def attempts_of_def Let_def)
next
  case (Cons a rest)
  obtain attempts failure where a: "a = (attempts, failure)" by (cases a)
  let ?w = "attempted attempts msgs"
  let ?new = "?w @ left_over ?w msgs"
  show thesis
  proof (cases failure)
    case None
    have all: "mset msgs \<subseteq># mset ?new" 
      using subset_eq_diff_conv [of "mset msgs" "mset ?w" "mset msgs - mset ?w"] by (simp add: mset_left_over add.commute)
    then have "set msgs \<subseteq> set ?new" by (metis set_mset_mono set_mset_mset)
    moreover have "set (left_over ?w msgs) \<subseteq> set msgs"
      by (metis diff_subset_eq_self mset_left_over set_mset_mono set_mset_mset)
    ultimately have "set ?new = set msgs" using set_attempted [of attempts msgs] by auto
    moreover have "mset ?new \<subseteq># repeat_mset (Suc (length attempts)) (mset msgs)"
      using subset_mset.add_mono [OF diff_subset_eq_self mset_attempted, of "mset msgs" "mset ?w" attempts msgs]
      by (simp add: mset_left_over add.commute)
    ultimately show thesis
      using assms Cons a None all
      by (intro written [of ?new]) (auto simp: WriteMessages_def attempts_of_def Let_def)
  next
    case (Some e)
    then show thesis
      using assms Cons a set_attempted mset_attempted
      by (intro failed [of "Opaque e" ?w]) (auto simp: WriteMessages_def attempts_of_def Let_def)
  qed
qed

section \<open>One batch\<close>

text \<open>
  \<open>json.Unmarshal\<close> of the payload into a struct with the one field \<open>booking_id\<close>.  A
  timestamp is a string in JSON.
\<close>

definition json_text :: "json \<Rightarrow> string" where
  "json_text j = (case j of JString s \<Rightarrow> s | JTime t \<Rightarrow> Format_RFC3339 t)"

definition bookingIDFromPayload :: "json_object \<Rightarrow> string" where
  "bookingIDFromPayload p = (case map_of p ''booking_id'' of None \<Rightarrow> '''' | Some j \<Rightarrow> json_text j)"

text \<open>The callback of \<open>ProcessBatch\<close>; its first component is the variable \<open>published\<close>.\<close>

definition message_of :: "OutboxRecord \<Rightarrow> KafkaMessage" where
  "message_of rec = \<lparr> km_Key = bookingIDFromPayload (rec_Payload rec), km_Value = rec_Payload rec \<rparr>"

definition publish_records ::
    "OutboxRecord list \<Rightarrow> nat \<times> Kafka \<Rightarrow> (model_error, unit) result \<times> (nat \<times> Kafka)" where
  "publish_records records = (\<lambda>(published, k).
    (let msgs = map message_of records; (r, k') = WriteMessages msgs k
     in (r, (length msgs, k'))))"

definition processBatch ::
    "(uuid \<Rightarrow> bool) \<Rightarrow> Kafka \<Rightarrow> BookingDB world \<Rightarrow> nat \<times> Kafka \<times> BookingDB world" where
  "processBatch locked k w =
    (case ProcessBatch locked publish_records (0, k) w of
       (Inl e, (published, k'), w') \<Rightarrow> (0, k', counter_Add (me_Name OutboxErrorsTotal) 1 w')
     | (Inr _, (published, k'), w') \<Rightarrow>
         (published, k', if published > 0
                         then counter_Add (me_Name OutboxPublishedTotal) published w' else w'))"

section \<open>The last pass\<close>

text \<open>
  \<open>for drainCtx.Err() == nil { if r.processBatch(drainCtx) == 0 { break } }\<close> with the deadline
  of \<open>drainCtx\<close>.  It ends whatever the database and Kafka do: a batch with a positive count
  was marked, so fewer rows are unsent after it.
\<close>

definition DrainTimeout :: duration where "DrainTimeout = 10 * Second"

abbreviation backlog :: "BookingDB \<Rightarrow> nat" where
  "backlog db \<equiv> length (filter unsent (outbox db))"

lemma publish_records_simps:
  "fst (publish_records records (n, k)) = fst (WriteMessages (map message_of records) k)"
  "snd (publish_records records (n, k)) = (length records, snd (WriteMessages (map message_of records) k))"
  by (simp_all add: publish_records_def Let_def split: prod.split)

lemma processBatch_marked:
  assumes run: "processBatch locked k w = (n, k', w')" and n: "0 < n"
  shows "\<exists>now. mark_sent now (map ob_id (pending locked (store w))) (store w) = Inr ((), store w')"
    and "n = length (pending locked (store w))"
    and "WriteMessages (map message_of (batch locked (store w))) k = (Inr (), k')"
proof -
  obtain u w1 where p: "ProcessBatch locked publish_records (0, k) w = (Inr u, (n, k'), w1)"
    and w': "store w' = store w1"
    using run n by (auto simp: processBatch_def counter_Add_store split: prod.splits sum.splits if_splits)
  have ne: "batch locked (store w) \<noteq> []"
  proof
    assume "batch locked (store w) = []"
    from ProcessBatch_empty(2) [OF p this] n show False by simp
  qed
  show "\<exists>now. mark_sent now (map ob_id (pending locked (store w))) (store w) = Inr ((), store w')"
    using ProcessBatch_Inr(1) [OF p ne] w' by simp
  have "publish_records (batch locked (store w)) (0, k) = (Inr (), (n, k'))"
    by (rule ProcessBatch_Inr(2) [OF p ne])
  then show "n = length (pending locked (store w))"
    "WriteMessages (map message_of (batch locked (store w))) k = (Inr (), k')"
    using publish_records_simps [of "batch locked (store w)" 0 k]
    by (auto simp: batch_def prod_eq_iff)
qed

lemma filter_notin_shrinks:
  assumes "xs \<noteq> []" and "set xs \<subseteq> set (filter P ys)"
  shows "length (filter (\<lambda>y. P y \<and> f y \<notin> f ` set xs) ys) < length (filter P ys)"
proof -
  obtain x where x: "x \<in> set ys" "P x" "x \<in> set xs" using assms by (cases xs) auto
  have "length (filter (\<lambda>y. f y \<notin> f ` set xs) (filter P ys)) < length (filter P ys)"
    by (rule length_filter_less [of x]) (use x in auto)
  then show ?thesis by (simp add: conj_commute)
qed

lemma processBatch_progress:
  assumes "processBatch locked k w = (n, k', w')" and "0 < n"
  shows "backlog (store w') < backlog (store w)"
proof -
  obtain now where m: "mark_sent now (map ob_id (pending locked (store w))) (store w) = Inr ((), store w')"
    using processBatch_marked(1) [OF assms] by auto
  have "pending locked (store w) \<noteq> []" using processBatch_marked(2) [OF assms] assms(2) by auto
  moreover have "set (pending locked (store w)) \<subseteq> set (filter unsent (outbox (store w)))"
    using pending_subset by auto
  ultimately show ?thesis unfolding unsent_after_mark [OF m] by (rule filter_notin_shrinks)
qed

function drain :: "(uuid \<Rightarrow> bool) \<Rightarrow> time \<Rightarrow> Kafka \<Rightarrow> BookingDB world \<Rightarrow> Kafka \<times> BookingDB world" where
  "drain locked deadline k w =
    (let (now, w1) = time_Now w in
     if deadline \<le> now then (k, w1)
     else (let (n, k', w2) = processBatch locked k w1 in
           if n = 0 then (k', w2) else drain locked deadline k' w2))"
  by pat_completeness auto
termination
proof (relation "measure (\<lambda>(locked, deadline, k, w). backlog (store w))", goal_cases)
  case 1
  show ?case by simp
next
  case (2 locked deadline k w tw now w1 pb n rest k' w2)
  then have b: "processBatch locked k w1 = (n, k', w2)" and "0 < n" and w1: "time_Now w = (now, w1)" by auto
  then have "backlog (store w2) < backlog (store w1)" by (intro processBatch_progress)
  then show ?case using time_Now_storeD [OF w1] by simp
qed

declare drain.simps [simp del]

end
