(* ===== verification/RelayLoop.thy ===== *)
theory RelayLoop
  imports Relay
begin

text \<open>
  The loop of \<open>Relay.Run\<close>, and what its last pass achieves: when the database and Kafka
  answer, everything unsent is in the topic, oldest first and once, and is marked.
\<close>

section \<open>The loop\<close>

text \<open>
  What the \<open>select\<close> may find: a tick or the end of the context.  Between two rounds the
  requests change the store, so each round comes with such a change.  A list of rounds
  without the end is a relay that is still running.
\<close>

datatype wakeup = TickerC | CtxDone

fun Run ::
    "(uuid \<Rightarrow> bool) \<Rightarrow> (wakeup \<times> (BookingDB \<Rightarrow> BookingDB)) list \<Rightarrow> Kafka \<Rightarrow> BookingDB world \<Rightarrow>
     Kafka \<times> BookingDB world" where
  "Run locked [] k w = (k, w)"
| "Run locked ((TickerC, others) # rounds) k w =
    (let (n, k', w') = processBatch locked k (w\<lparr>store := others (store w)\<rparr>)
     in Run locked rounds k' w')"
| "Run locked ((CtxDone, others) # rounds) k w =
    (let (now, w1) = time_Now (w\<lparr>store := others (store w)\<rparr>)
     in drain locked (now + DrainTimeout) k w1)"

section \<open>One batch, when everything answers\<close>

definition unsent_in_order :: "BookingDB \<Rightarrow> OutboxRow list" where
  "unsent_in_order db = sort_key ob_created_at (filter unsent (outbox db))"

abbreviation row_message :: "OutboxRow \<Rightarrow> KafkaMessage" where
  "row_message o1 \<equiv> message_of (scan_record o1)"

abbreviation nobody :: "uuid \<Rightarrow> bool" where
  "nobody \<equiv> \<lambda>_. False"

lemma pending_nobody: "pending nobody db = take fetchBatchSize (unsent_in_order db)"
  by (simp add: pending_def unsent_in_order_def)

lemma unsent_in_order_Nil: "unsent_in_order db = [] \<longleftrightarrow> filter unsent (outbox db) = []"
  by (simp add: unsent_in_order_def)

lemma drop_as_filter:
  assumes "distinct (map f xs)"
  shows "filter (\<lambda>x. f x \<notin> f ` set (take n xs)) xs = drop n xs"
proof -
  have keep: "filter (\<lambda>x. f x \<notin> f ` set (take n xs)) (drop n xs) = drop n xs"
  proof (rule filter_True, rule ballI)
    fix x
    assume "x \<in> set (drop n xs)"
    moreover have "distinct (map f (take n xs) @ map f (drop n xs))"
      using assms by (metis append_take_drop_id map_append)
    ultimately show "f x \<notin> f ` set (take n xs)" by auto
  qed
  have "filter (\<lambda>x. f x \<notin> f ` set (take n xs)) (take n xs) = []" by auto
  with keep show ?thesis by (metis (no_types, lifting) append_Nil append_take_drop_id filter_append)
qed

lemma unsent_in_order_mark:
  assumes m: "mark_sent now (map ob_id (pending nobody db)) db = Inr (u, db')" and d: "distinct (map ob_id (outbox db))"
  shows "unsent_in_order db' = drop fetchBatchSize (unsent_in_order db)"
proof -
  have "filter unsent (outbox db') = filter (\<lambda>o1. ob_id o1 \<notin> ob_id ` set (pending nobody db)) (filter unsent (outbox db))"
    using unsent_after_mark [OF m] by (simp add: conj_commute)
  then have "unsent_in_order db' = filter (\<lambda>o1. ob_id o1 \<notin> ob_id ` set (pending nobody db)) (unsent_in_order db)"
    by (simp add: unsent_in_order_def filter_sort)
  also have "\<dots> = drop fetchBatchSize (unsent_in_order db)"
    unfolding pending_nobody
  proof (rule drop_as_filter)
    have "distinct (map ob_id (filter unsent (outbox db)))" using d by (rule distinct_map_filter)
    then show "distinct (map ob_id (unsent_in_order db))"
      by (simp add: unsent_in_order_def distinct_map)
  qed
  finally show ?thesis .
qed

text \<open>The parts of a calm world with a stopped clock stay as they are.\<close>

definition still :: "'d world \<Rightarrow> 'd world \<Rightarrow> bool" where
  "still w w' \<longleftrightarrow> calm w \<and> calm w' \<and> ticks w = [] \<and> ticks w' = [] \<and> clock w' = clock w"

lemma still_time_Now: "ticks w = [] \<Longrightarrow> time_Now w = (clock w, w)"
  by (simp add: time_Now_def)

lemma calm_processBatch:
  assumes "calm w" "ticks w = []" "write_script k = []"
  shows "processBatch nobody k w =
    (if pending nobody (store w) = [] then (0, k, w)
     else (length (pending nobody (store w)),
           k\<lparr>topic := topic k @ map row_message (pending nobody (store w))\<rparr>,
           counter_Add (me_Name OutboxPublishedTotal) (length (pending nobody (store w)))
             (w\<lparr>store := snd (projr (mark_sent (clock w) (map ob_id (pending nobody (store w))) (store w)))\<rparr>)))"
  using assms
  by (simp add: processBatch_def ProcessBatch_def calm_db calm_query_rows select_pending_def publish_records_def
      WriteMessages_def mark_sent_def still_time_Now rollback_def comp_def)

lemma calm_processBatch_some:
  assumes c: "calm w" "ticks w = []" "write_script k = []" and ne: "unsent_in_order (store w) \<noteq> []"
    and d: "distinct (map ob_id (outbox (store w)))"
  obtains w' where "processBatch nobody k w =
      (length (pending nobody (store w)), k\<lparr>topic := topic k @ map row_message (take fetchBatchSize (unsent_in_order (store w)))\<rparr>, w')"
    "still w w'" "unsent_in_order (store w') = drop fetchBatchSize (unsent_in_order (store w))"
    "distinct (map ob_id (outbox (store w')))" "0 < length (pending nobody (store w))"
proof -
  let ?p = "pending nobody (store w)"
  let ?db = "snd (projr (mark_sent (clock w) (map ob_id ?p) (store w)))"
  have p: "?p \<noteq> []" using ne by (simp add: pending_nobody fetchBatchSize_def)
  have m: "mark_sent (clock w) (map ob_id ?p) (store w) = Inr ((), ?db)" by (simp add: mark_sent_def)
  have "distinct (map ob_id (outbox ?db))" using d by (simp add: mark_sent_def map_update_where)
  then show thesis
    using calm_processBatch [OF c] p unsent_in_order_mark [OF m d] c
    by (intro that [of "counter_Add (me_Name OutboxPublishedTotal) (length ?p) (w\<lparr>store := ?db\<rparr>)"])
      (simp_all add: pending_nobody counter_Add_def still_def calm_def)
qed

section \<open>The last pass\<close>

lemma drain_complete:
  assumes "calm w" "ticks w = []" "write_script k = []" "clock w < deadline" "distinct (map ob_id (outbox (store w)))"
  shows "\<exists>w'. drain nobody deadline k w = (k\<lparr>topic := topic k @ map row_message (unsent_in_order (store w))\<rparr>, w') \<and>
     unsent_in_order (store w') = []"
  using assms
proof (induction "backlog (store w)" arbitrary: w k rule: less_induct)
  case less
  note c = less.prems
  show ?case
  proof (cases "unsent_in_order (store w) = []")
    case True
    then have "processBatch nobody k w = (0, k, w)" using calm_processBatch [OF c(1-3)] by (simp add: pending_nobody)
    with c True show ?thesis by (subst drain.simps) (simp add: still_time_Now)
  next
    case False
    obtain w1 where w1: "processBatch nobody k w =
        (length (pending nobody (store w)), k\<lparr>topic := topic k @ map row_message (take fetchBatchSize (unsent_in_order (store w)))\<rparr>, w1)"
      and s: "still w w1" and u: "unsent_in_order (store w1) = drop fetchBatchSize (unsent_in_order (store w))"
      and d: "distinct (map ob_id (outbox (store w1)))" and n: "0 < length (pending nobody (store w))"
      by (rule calm_processBatch_some [OF c(1-3) False c(5)])
    let ?k = "k\<lparr>topic := topic k @ map row_message (take fetchBatchSize (unsent_in_order (store w)))\<rparr>"
    have "\<exists>w'. drain nobody deadline ?k w1 =
        (?k\<lparr>topic := topic ?k @ map row_message (unsent_in_order (store w1))\<rparr>, w') \<and> unsent_in_order (store w') = []"
      by (rule less.hyps [OF processBatch_progress [OF w1 n]]) (use s c d in \<open>auto simp: still_def\<close>)
    moreover have "map row_message (take fetchBatchSize (unsent_in_order (store w))) @
        map row_message (unsent_in_order (store w1)) = map row_message (unsent_in_order (store w))"
      unfolding u by (simp flip: map_append)
    moreover have "drain nobody deadline k w = drain nobody deadline ?k w1"
      using c n by (subst drain.simps) (simp add: still_time_Now w1)
    ultimately show ?thesis by auto
  qed
qed

text \<open>
  Whatever goes wrong: the topic only grows, and a row is marked only after its message was
  accepted.
\<close>

definition topic_grows :: "Kafka \<Rightarrow> Kafka \<Rightarrow> bool" where
  "topic_grows k k' \<longleftrightarrow> (\<exists>new. topic k' = topic k @ new)"

lemma topic_grows_refl [simp]: "topic_grows k k"
  by (simp add: topic_grows_def)

lemma topic_grows_trans: "topic_grows k1 k2 \<Longrightarrow> topic_grows k2 k3 \<Longrightarrow> topic_grows k1 k3"
  by (auto simp: topic_grows_def)

lemma WriteMessages_only: "WriteMessages msgs k = (r, k') \<Longrightarrow> set (topic k') \<subseteq> set (topic k) \<union> set msgs"
  by (erule WriteMessages_cases) auto

lemma WriteMessages_grows: "WriteMessages msgs k = (r, k') \<Longrightarrow> topic_grows k k'"
  by (erule WriteMessages_cases) (auto simp: topic_grows_def)

text \<open>What a batch that marks its rows adds: their messages, each at least once.\<close>

definition accepted :: "Kafka \<Rightarrow> KafkaMessage list \<Rightarrow> Kafka \<Rightarrow> bool" where
  "accepted k msgs k' \<longleftrightarrow> (\<exists>new. topic k' = topic k @ new \<and> set new = set msgs \<and> mset msgs \<subseteq># mset new \<and>
     mset new \<subseteq># repeat_mset (attempts_of k) (mset msgs) \<and> (write_script k = [] \<longrightarrow> new = msgs))"

lemma WriteMessages_Inr: "WriteMessages msgs k = (Inr u, k') \<Longrightarrow> accepted k msgs k'"
  by (erule WriteMessages_cases) (auto simp: accepted_def)

lemma accepted_set: "accepted k msgs k' \<Longrightarrow> set (topic k') = set (topic k) \<union> set msgs"
  by (auto simp: accepted_def)

lemma processBatch_topic:
  assumes "processBatch locked k w = (n, k', w')"
  shows "topic_grows k k'" and
    "store w' \<noteq> store w \<Longrightarrow> WriteMessages (map row_message (pending locked (store w))) k = (Inr (), k')"
proof -
  obtain r m w1 where p: "ProcessBatch locked publish_records (0, k) w = (r, (m, k'), w1)" and w1: "store w' = store w1"
    using assms by (auto simp: processBatch_def counter_Add_store split: prod.splits sum.splits)
  let ?b = "batch locked (store w)"
  obtain r2 k2 where wr: "WriteMessages (map message_of ?b) k = (r2, k2)" by fastforce
  have pub: "publish_records ?b (0, k) = (r2, (length ?b, k2))"
    using wr by (simp add: publish_records_def Let_def)
  from ProcessBatch_callback [OF p] have "k' = k \<or> k' = k2" by (auto simp: pub)
  with WriteMessages_grows [OF wr] show "topic_grows k k'" by auto
  show "WriteMessages (map row_message (pending locked (store w))) k = (Inr (), k')" if "store w' \<noteq> store w"
  proof -
    have ch: "store w1 \<noteq> store w" using that w1 by simp
    with ProcessBatch_effect [OF p] have "r2 = Inr ()" by (auto simp: pub)
    moreover have "k' = k2"
      using p ch pub
      by (auto simp: ProcessBatch_def select_pending_def batch_def split: prod.splits sum.splits if_splits
          dest!: begin_tx_store query_rows_InrD)
    ultimately show ?thesis using wr by (simp add: batch_def comp_def)
  qed
qed

lemmas processBatch_accepted = WriteMessages_Inr [OF processBatch_topic(2)]

end
