(* ===== verification/BookingStore.thy ===== *)
theory BookingStore
  imports SlotRepo Relay
begin

text \<open>
  The booking database as the whole service uses it: the steps are the calls of the
  repositories and the batches of the relay, in any order and with any arguments, clocks and
  failures.  A request of the service is a sequence of such calls, so the calls of concurrent
  requests interleave to a sequence of steps; each call is one statement or one transaction.

  The invariants: the constraints of the schema, and the agreement of the outbox with the
  bookings (every booking has its one \<open>booking.created\<close> row, and its one
  \<open>booking.cancelled\<close> row exactly when it is cancelled).
\<close>

section \<open>Steps\<close>

text \<open>The calls that requests make, and with them the batches of the relay.\<close>

inductive service_step :: "externals \<Rightarrow> BookingDB \<Rightarrow> BookingDB \<Rightarrow> bool" for L :: externals where
  create_booking: "CreateBooking_repo L slotID userID w = (r, w') \<Longrightarrow> service_step L (store w) (store w')"
| cancel_booking: "CancelBooking_repo L bid userID w = (r, w') \<Longrightarrow> service_step L (store w) (store w')"
| update_link: "UpdateConferenceLink_repo bid link w = (r2, w') \<Longrightarrow> service_step L (store w) (store w')"
| create_room: "CreateRoom_repo name d c w = (r3, w') \<Longrightarrow> service_step L (store w) (store w')"
| create_schedule: "CreateSchedule_repo roomID days st en w = (r4, w') \<Longrightarrow> service_step L (store w) (store w')"
| create_user: "CreateUser_repo email h role w = (r5, w') \<Longrightarrow> service_step L (store w) (store w')"
| ensure: "EnsureSlots_repo ss w = (r6, w') \<Longrightarrow> service_step L (store w) (store w')"

inductive store_step :: "externals \<Rightarrow> BookingDB \<Rightarrow> BookingDB \<Rightarrow> bool" for L :: externals where
  service: "service_step L db db' \<Longrightarrow> store_step L db db'"
| relay: "processBatch locked k w = (n, k', w') \<Longrightarrow> store_step L (store w) (store w')"


inductive reachable :: "externals \<Rightarrow> BookingDB \<Rightarrow> bool" for L :: externals where
  start: "reachable L (migrated now)"
| step: "reachable L db \<Longrightarrow> store_step L db db' \<Longrightarrow> reachable L db'"

section \<open>The effect of a step\<close>

lemma processBatch_effect:
  assumes "processBatch locked k w = (n, k', w')"
  shows "store w' = store w \<or> (\<exists>now. mark_sent now (map ob_id (pending locked (store w))) (store w) = Inr ((), store w'))"
  using assms
  by (auto simp: processBatch_def counter_Add_store split: prod.splits sum.splits dest!: ProcessBatch_effect)

text \<open>Every step is one of the statements or transactions, or changes nothing.\<close>

lemma service_step_cases:
  assumes "service_step L db db'"
  obtains (same) "db' = db"
  | (creates) slotID userID b where "creates L slotID userID db b db'"
  | (cancels) bid userID b where "cancels L bid userID db b db'"
  | (link) bid link where "update_conference_link bid link db = Inr ((), db')"
  | (room) now rid name d c room where "insert_room now rid name d c db = Inr (room, db')"
  | (schedule) now sid roomID days st en row where "insert_schedule now sid roomID days st en db = Inr (row, db')"
  | (user) now uid email h role u where "insert_user now uid email h role db = Inr (u, db')"
  | (ensure) ss where "ensure_slots ss db = Inr ((), db')"
  using assms
proof cases
  case (create_booking s u w r w')
  then show ?thesis
    by (cases r) (auto dest!: CreateBooking_repo_Inl CreateBooking_repo_Inr intro: same creates)
next
  case (cancel_booking b u w r w')
  then show ?thesis
    by (cases r) (auto dest!: CancelBooking_repo_Inl CancelBooking_repo_Inr intro: same cancels)
next
  case update_link
  then show ?thesis by (auto dest!: UpdateConferenceLink_repo_effect(1) intro: same link)
next
  case create_room
  then show ?thesis by (auto dest!: CreateRoom_repo_effect intro: same room)
next
  case create_schedule
  then show ?thesis by (auto dest!: CreateSchedule_repo_effect intro: same schedule)
next
  case create_user
  then show ?thesis by (auto dest!: CreateUser_repo_effect intro: same user)
next
  case ensure
  then show ?thesis by (auto dest!: EnsureSlots_repo_effect(1) intro: same that(8))
qed

lemma store_step_cases:
  assumes "store_step L db db'"
  obtains (same) "db' = db"
  | (creates) slotID userID b where "creates L slotID userID db b db'"
  | (cancels) bid userID b where "cancels L bid userID db b db'"
  | (link) bid link where "update_conference_link bid link db = Inr ((), db')"
  | (room) now rid name d c room where "insert_room now rid name d c db = Inr (room, db')"
  | (schedule) now sid roomID days st en row where "insert_schedule now sid roomID days st en db = Inr (row, db')"
  | (user) now uid email h role u where "insert_user now uid email h role db = Inr (u, db')"
  | (ensure) ss where "ensure_slots ss db = Inr ((), db')"
  | (mark) now ids where "mark_sent now ids db = Inr ((), db')"
  using assms
proof cases
  case service
  then show ?thesis by (rule service_step_cases) (fact that(1-8))+
next
  case relay
  then show ?thesis by (auto dest!: processBatch_effect intro: same mark)
qed

section \<open>Integrity\<close>

lemma store_step_ok: "store_step L db db' \<Longrightarrow> db_ok db \<Longrightarrow> db_ok db'"
  by (erule store_step_cases)
    (auto intro: creates_ok cancels_ok update_conference_link_ok insert_room_ok insert_schedule_ok
      insert_user_ok ensure_slots_ok mark_sent_ok)

lemma reachable_ok: "reachable L db \<Longrightarrow> db_ok db"
  by (induction rule: reachable.induct) (auto intro: db_ok_migrated store_step_ok)

section \<open>The outbox agrees with the bookings\<close>

definition about :: "externals \<Rightarrow> string \<Rightarrow> uuid \<Rightarrow> OutboxRow \<Rightarrow> bool" where
  "about L k bid o1 \<longleftrightarrow> ob_event_type o1 = k \<and>
     map_of (ob_payload o1) ''booking_id'' = Some (JString (uuid_String L bid))"

definition events_of :: "externals \<Rightarrow> string \<Rightarrow> uuid \<Rightarrow> BookingDB \<Rightarrow> OutboxRow list" where
  "events_of L k bid db = filter (about L k bid) (outbox db)"

text \<open>The row tells the truth about a booking, its slot and its room.\<close>

definition truthful :: "externals \<Rightarrow> BookingDB \<Rightarrow> OutboxRow \<Rightarrow> bool" where
  "truthful L db o1 \<longleftrightarrow> (\<exists>b \<in> set (bookings db). \<exists>s \<in> set (slots db). \<exists>r \<in> set (rooms db).
     sl_ID s = bk_SlotID b \<and> rm_ID r = sl_RoomID s \<and>
     (ob_event_type o1 = ''booking.created'' \<or> ob_event_type o1 = ''booking.cancelled'') \<and>
     ob_payload o1 = booking_event L (ob_event_type o1) (ob_id o1) (ob_created_at o1) b r s)"

definition log_ok :: "externals \<Rightarrow> BookingDB \<Rightarrow> bool" where
  "log_ok L db \<longleftrightarrow>
     (\<forall>b \<in> set (bookings db).
        length (events_of L ''booking.created'' (bk_ID b) db) = 1 \<and>
        length (events_of L ''booking.cancelled'' (bk_ID b) db) = (if active b then 0 else 1)) \<and>
     (\<forall>o1 \<in> set (outbox db). truthful L db o1)"

lemma log_ok_migrated: "log_ok L (migrated now)"
  by (simp add: log_ok_def migrated_def)

lemma booking_event_id [simp]:
  "map_of (booking_event L k oid now b r s) ''booking_id'' = Some (JString (uuid_String L (bk_ID b)))"
  by (simp add: booking_event_def)

lemma booking_event_cong:
  "bk_ID b' = bk_ID b \<Longrightarrow> bk_UserID b' = bk_UserID b \<Longrightarrow>
   booking_event L k oid now b' r s = booking_event L k oid now b r s"
  by (simp add: booking_event_def)

text \<open>Steps that keep the identity of every row keep the agreement.\<close>

lemma truthful_frame:
  assumes "truthful L db o1"
    and "\<And>b. b \<in> set (bookings db) \<Longrightarrow> \<exists>b' \<in> set (bookings db').
           bk_ID b' = bk_ID b \<and> bk_SlotID b' = bk_SlotID b \<and> bk_UserID b' = bk_UserID b"
    and "set (slots db) \<subseteq> set (slots db')" and "set (rooms db) \<subseteq> set (rooms db')"
    and "ob_event_type o2 = ob_event_type o1" "ob_payload o2 = ob_payload o1" "ob_id o2 = ob_id o1"
      "ob_created_at o2 = ob_created_at o1"
  shows "truthful L db' o2"
proof -
  from assms(1) obtain b s r where b: "b \<in> set (bookings db)" and s: "s \<in> set (slots db)"
    and r: "r \<in> set (rooms db)" and o1: "sl_ID s = bk_SlotID b" "rm_ID r = sl_RoomID s"
      "ob_event_type o1 = ''booking.created'' \<or> ob_event_type o1 = ''booking.cancelled''"
      "ob_payload o1 = booking_event L (ob_event_type o1) (ob_id o1) (ob_created_at o1) b r s"
    unfolding truthful_def by blast
  from assms(2) [OF b] obtain b' where b': "b' \<in> set (bookings db')" "bk_ID b' = bk_ID b"
    "bk_SlotID b' = bk_SlotID b" "bk_UserID b' = bk_UserID b" by blast
  show ?thesis
    unfolding truthful_def
    by (rule bexI [OF _ b'(1)], rule bexI [of _ s], rule bexI [of _ r])
      (use assms(3-8) s r o1 b' booking_event_cong [of b' b] in auto)
qed

lemma log_ok_frame:
  assumes ok: "log_ok L db"
    and bs: "bookings db' = map f (bookings db)"
    and f: "\<And>b. bk_ID (f b) = bk_ID b" "\<And>b. bk_SlotID (f b) = bk_SlotID b"
      "\<And>b. bk_UserID (f b) = bk_UserID b" "\<And>b. active (f b) = active b"
    and os: "outbox db' = map g (outbox db)"
    and g: "\<And>o1. ob_id (g o1) = ob_id o1" "\<And>o1. ob_event_type (g o1) = ob_event_type o1"
      "\<And>o1. ob_payload (g o1) = ob_payload o1" "\<And>o1. ob_created_at (g o1) = ob_created_at o1"
    and sub: "set (slots db) \<subseteq> set (slots db')" "set (rooms db) \<subseteq> set (rooms db')"
  shows "log_ok L db'"
proof -
  have "about L k i \<circ> g = about L k i" for k i by (auto simp: about_def g)
  then have ev: "length (events_of L k i db') = length (events_of L k i db)" for k i
    by (simp add: events_of_def os filter_map)
  have "truthful L db' (g o1)" if "o1 \<in> set (outbox db)" for o1
    by (rule truthful_frame [of L db o1]) (use ok that sub in \<open>auto simp: log_ok_def bs f g\<close>)
  then show ?thesis using ok by (auto simp: log_ok_def bs os f ev)
qed

lemma events_of_append:
  "outbox db' = outbox db @ [o1] \<Longrightarrow>
   events_of L k bid db' = events_of L k bid db @ (if about L k bid o1 then [o1] else [])"
  by (simp add: events_of_def)

lemma about_booking_event:
  assumes "uuid_text_ok L"
  shows "about L k bid \<lparr> ob_id = oid, ob_event_type = k', ob_payload = booking_event L k' oid now b r s,
      ob_created_at = t, ob_sent_at = x \<rparr> \<longleftrightarrow> k = k' \<and> bid = bk_ID b"
  using uuid_String_inject [OF assms] by (auto simp: about_def)

lemma events_of_unknown:
  assumes "uuid_text_ok L" "log_ok L db" "bid \<notin> bk_ID ` set (bookings db)"
  shows "events_of L k bid db = []"
proof -
  have False if o1: "o1 \<in> set (outbox db)" "about L k bid o1" for o1
  proof -
    from assms(2) o1(1) obtain b r s where b: "b \<in> set (bookings db)"
      and p: "ob_payload o1 = booking_event L (ob_event_type o1) (ob_id o1) (ob_created_at o1) b r s"
      by (auto simp: log_ok_def truthful_def)
    from o1(2) have "bid = bk_ID b" using uuid_String_inject [OF assms(1)] by (auto simp: about_def p)
    with b assms(3) show False by simp
  qed
  then show ?thesis by (auto simp: events_of_def filter_empty_conv)
qed

lemma creates_log_ok:
  assumes L: "uuid_text_ok L" and c: "creates L slotID userID db b db'" and ok: "db_ok db" "log_ok L db"
  shows "log_ok L db'"
proof -
  from c obtain now bid oid db1 where i: "insert_booking now bid slotID userID db = Inr (b, db1)"
    and e: "insert_event L ''booking.created'' oid now b slotID db1 = Inr ((), db')"
    unfolding creates_def by blast
  have b: "bk_ID b = bid" "bk_SlotID b = slotID" "active b" "bid \<notin> bk_ID ` set (bookings db)"
    and db1: "db1 = db\<lparr>bookings := bookings db @ [b]\<rparr>"
    using i by (auto elim!: insert_booking_InrE simp: active_def)
  obtain r s where rs: "r \<in> set (rooms db1)" "s \<in> set (slots db1)" "sl_ID s = slotID" "rm_ID r = sl_RoomID s"
    and db': "db' = db1\<lparr>outbox := outbox db1 @ [\<lparr> ob_id = oid, ob_event_type = ''booking.created'',
       ob_payload = booking_event L ''booking.created'' oid now b r s, ob_created_at = now, ob_sent_at = None \<rparr>]\<rparr>"
      (is "_ = _\<lparr>outbox := _ @ [?o]\<rparr>")
    by (rule insert_event_InrE [OF e insert_booking_ok [OF ok(1) i] creates_slot [OF i]])
  have ev: "events_of L k i db' = events_of L k i db @ (if k = ''booking.created'' \<and> i = bid then [?o] else [])" for k i
    by (subst events_of_append [of db' db ?o]) (simp_all add: db' db1 about_booking_event [OF L] b)
  have "truthful L db' o1" if "o1 \<in> set (outbox db)" for o1
    by (rule truthful_frame [of L db o1]) (use ok that in \<open>auto simp: log_ok_def db' db1\<close>)
  moreover have "truthful L db' ?o" using rs b by (auto simp: truthful_def db' db1)
  ultimately have t: "\<forall>o1 \<in> set (outbox db'). truthful L db' o1" by (simp add: db' db1)
  have old: "bk_ID b' \<noteq> bid" if "b' \<in> set (bookings db)" for b' using b(4) that by auto
  have none: "events_of L k bid db = []" for k by (rule events_of_unknown [OF L ok(2) b(4)])
  have "length (events_of L ''booking.created'' (bk_ID x) db') = 1 \<and>
      length (events_of L ''booking.cancelled'' (bk_ID x) db') = (if active x then 0 else 1)"
    if x: "x \<in> set (bookings db')" for x
  proof (cases "x = b")
    case True
    then show ?thesis using b by (simp add: ev none)
  next
    case False
    then have "x \<in> set (bookings db)" using x by (simp add: db' db1)
    then show ?thesis using ok(2) old by (simp add: ev log_ok_def)
  qed
  with t show ?thesis unfolding log_ok_def by blast
qed

lemma cancels_log_ok:
  assumes L: "uuid_text_ok L" and c: "cancels L bid userID db b db'" and ok: "db_ok db" "log_ok L db"
  shows "log_ok L db'"
proof -
  from c obtain now oid db1 where i: "update_cancelled bid userID db = Inr (b, db1)"
    and e: "insert_event L ''booking.cancelled'' oid now b (bk_SlotID b) db1 = Inr ((), db')"
    unfolding cancels_def by blast
  obtain b0 where b0: "b0 \<in> set (bookings db)" "cancellable bid userID b0" "b = cancelled b0"
    and db1: "db1 = db\<lparr>bookings := update_where (cancellable bid userID) cancelled (bookings db)\<rparr>"
    by (rule update_cancelled_InrE [OF i])
  obtain r s where rs: "r \<in> set (rooms db1)" "s \<in> set (slots db1)" "sl_ID s = bk_SlotID b" "rm_ID r = sl_RoomID s"
    and db': "db' = db1\<lparr>outbox := outbox db1 @ [\<lparr> ob_id = oid, ob_event_type = ''booking.cancelled'',
       ob_payload = booking_event L ''booking.cancelled'' oid now b r s, ob_created_at = now, ob_sent_at = None \<rparr>]\<rparr>"
      (is "_ = _\<lparr>outbox := _ @ [?o]\<rparr>")
    by (rule insert_event_InrE [OF e update_cancelled_ok [OF ok(1) i] cancels_slot [OF i ok(1)]])
  have bid: "bk_ID b = bid" "bk_ID b0 = bid" "active b0" using b0 by (auto simp: cancellable_def)
  have ev: "events_of L k i db' = events_of L k i db @ (if k = ''booking.cancelled'' \<and> i = bid then [?o] else [])" for k i
    by (subst events_of_append [of db' db ?o]) (simp_all add: db' db1 about_booking_event [OF L] bid)
  have new: "set (bookings db') = (\<lambda>x. if cancellable bid userID x then cancelled x else x) ` set (bookings db)"
    by (simp add: db' db1 set_update_where)
  have keep: "\<exists>x' \<in> set (bookings db'). bk_ID x' = bk_ID x \<and> bk_SlotID x' = bk_SlotID x \<and> bk_UserID x' = bk_UserID x"
    if "x \<in> set (bookings db)" for x
    unfolding new using that by (rule_tac bexI [OF _ imageI [OF that]]) auto
  have "truthful L db' o1" if "o1 \<in> set (outbox db)" for o1
    by (rule truthful_frame [of L db o1, OF _ keep]) (use ok that in \<open>auto simp: log_ok_def db' db1\<close>)
  moreover have "truthful L db' ?o"
    unfolding truthful_def
    by (rule bexI [of _ "cancelled b0"], rule bexI [of _ s], rule bexI [of _ r])
      (use rs b0 new in \<open>auto simp: db' db1\<close>)
  ultimately have t: "\<forall>o1 \<in> set (outbox db'). truthful L db' o1" by (simp add: db' db1)
  have only: "x = b0" if "x \<in> set (bookings db)" "bk_ID x = bid" for x
    using ok(1) b0(1) bid(2) that unfolding db_ok_def bookings_ok_def distinct_map
    by (metis inj_onD)
  have "length (events_of L ''booking.created'' (bk_ID x) db') = 1 \<and>
      length (events_of L ''booking.cancelled'' (bk_ID x) db') = (if active x then 0 else 1)"
    if x: "x \<in> set (bookings db')" for x
  proof -
    obtain y where y: "y \<in> set (bookings db)" "x = (if cancellable bid userID y then cancelled y else y)"
      using x unfolding new by blast
    show ?thesis
    proof (cases "y = b0")
      case True
      then have "x = b" using y b0 by simp
      then show ?thesis using ok(2) b0 bid by (auto simp: ev log_ok_def)
    next
      case False
      then have "bk_ID y \<noteq> bid" using only y by blast
      then show ?thesis using ok(2) y by (simp add: ev log_ok_def cancellable_def)
    qed
  qed
  with t show ?thesis unfolding log_ok_def by blast
qed

text \<open>The other statements.\<close>

lemma link_log_ok: "update_conference_link bid link db = Inr (u, db') \<Longrightarrow> log_ok L db \<Longrightarrow> log_ok L db'"
  by (rule log_ok_frame [where db = db and f = "\<lambda>b. if bk_ID b = bid then b\<lparr>bk_ConferenceLink := Some link\<rparr> else b"
        and g = "\<lambda>o1. o1"]) (auto simp: update_conference_link_def update_where_def active_def)

lemma mark_log_ok: "mark_sent now ids db = Inr (u, db') \<Longrightarrow> log_ok L db \<Longrightarrow> log_ok L db'"
  by (rule log_ok_frame [where db = db and f = "\<lambda>b. b"
        and g = "\<lambda>o1. if ob_id o1 \<in> set ids then o1\<lparr>ob_sent_at := Some now\<rparr> else o1"])
    (auto simp: mark_sent_def update_where_def)

lemma grow_log_ok:
  "log_ok L db \<Longrightarrow> bookings db' = bookings db \<Longrightarrow> outbox db' = outbox db \<Longrightarrow>
   set (slots db) \<subseteq> set (slots db') \<Longrightarrow> set (rooms db) \<subseteq> set (rooms db') \<Longrightarrow> log_ok L db'"
  by (rule log_ok_frame [where db = db and f = "\<lambda>b. b" and g = "\<lambda>o1. o1"]) auto

lemma store_step_log_ok:
  assumes "uuid_text_ok L" "store_step L db db'" "db_ok db" "log_ok L db"
  shows "log_ok L db'"
  using assms(2)
proof (cases rule: store_step_cases)
  case creates
  then show ?thesis using assms by (blast intro: creates_log_ok)
next
  case cancels
  then show ?thesis using assms by (blast intro: cancels_log_ok)
next
  case ensure
  then show ?thesis by (rule ensure_slots_InrE) (use assms in \<open>auto intro: grow_log_ok\<close>)
next
  case schedule
  then show ?thesis by (rule insert_schedule_InrE) (use assms in \<open>auto intro: grow_log_ok\<close>)
next
  case room
  then show ?thesis by (rule insert_room_InrE) (use assms in \<open>auto intro: grow_log_ok\<close>)
next
  case user
  then show ?thesis by (rule insert_user_InrE) (use assms in \<open>auto intro: grow_log_ok\<close>)
qed (use assms in \<open>auto intro: link_log_ok mark_log_ok\<close>)

lemma reachable_log_ok: "uuid_text_ok L \<Longrightarrow> reachable L db \<Longrightarrow> log_ok L db"
  by (rotate_tac, induction rule: reachable.induct)
    (auto intro: log_ok_migrated store_step_log_ok reachable_ok)

end
