(* ===== verification/Calendar.thy ===== *)
theory Calendar
  imports BookingStore
begin

text \<open>
  What the booking database promises, without its tables: a calendar says who holds a room at
  a time.  The outbox is the ledger of that calendar.  Whoever replays the events from the
  beginning, reading nothing but their payloads, finds every entry allowed in its turn and
  ends with the calendar that the tables describe.
\<close>

section \<open>The calendar\<close>

text \<open>A place is a room and the start of a slot in it; it is held by a booking of a user.\<close>

type_synonym place = "string \<times> time"

type_synonym calendar = "place \<Rightarrow> (string \<times> string) option"

datatype entry = Reserve place string string | Release place string string

fun allowed :: "entry \<Rightarrow> calendar \<Rightarrow> bool" where
  "allowed (Reserve p b u) c \<longleftrightarrow> c p = None"
| "allowed (Release p b u) c \<longleftrightarrow> c p = Some (b, u)"

fun enter :: "entry \<Rightarrow> calendar \<Rightarrow> calendar" where
  "enter (Reserve p b u) c = c(p \<mapsto> (b, u))"
| "enter (Release p b u) c = c(p := None)"

text \<open>The steps of a calendar: nothing happens, or one allowed entry is made.\<close>

inductive calendar_step :: "calendar \<Rightarrow> calendar \<Rightarrow> bool" where
  same: "calendar_step c c"
| entered: "allowed e c \<Longrightarrow> calendar_step c (enter e c)"

section \<open>The calendar of a database\<close>

definition place_of :: "externals \<Rightarrow> Slot list \<Rightarrow> Booking \<Rightarrow> place option" where
  "place_of L ss b =
    map_option (\<lambda>s. (uuid_String L (sl_RoomID s), sl_StartAt s)) (find_by sl_ID (bk_SlotID b) ss)"

definition held_by :: "externals \<Rightarrow> Booking \<Rightarrow> string \<times> string" where
  "held_by L b = (uuid_String L (bk_ID b), uuid_String L (bk_UserID b))"

definition calendar_of :: "externals \<Rightarrow> BookingDB \<Rightarrow> calendar" where
  "calendar_of L db = (\<lambda>p.
     map_option (held_by L) (find (\<lambda>b. active b \<and> place_of L (slots db) b = Some p) (bookings db)))"

section \<open>The ledger\<close>

text \<open>An event is read by the names of its fields.\<close>

definition read_entry :: "string \<Rightarrow> json_object \<Rightarrow> entry option" where
  "read_entry event_type payload =
    (let field = map_of payload
     in case (field ''room_id'', field ''slot_start'', field ''booking_id'', field ''user_id'') of
          (Some (JString r), Some (JTime t), Some (JString b), Some (JString u)) \<Rightarrow>
            (if event_type = ''booking.created'' then Some (Reserve (r, t) b u)
             else if event_type = ''booking.cancelled'' then Some (Release (r, t) b u)
             else None)
        | _ \<Rightarrow> None)"

definition entry_of :: "OutboxRow \<Rightarrow> entry option" where
  "entry_of row = read_entry (ob_event_type row) (ob_payload row)"

definition post :: "calendar option \<Rightarrow> OutboxRow \<Rightarrow> calendar option" where
  "post c row = (case (c, entry_of row) of
      (Some c0, Some e) \<Rightarrow> if allowed e c0 then Some (enter e c0) else None
    | _ \<Rightarrow> None)"

definition ledger :: "OutboxRow list \<Rightarrow> calendar option" where
  "ledger rows = foldl post (Some (\<lambda>p. None)) rows"

lemma ledger_snoc: "ledger (rows @ [row]) = post (ledger rows) row"
  by (simp add: ledger_def)

lemma ledger_map: "(\<And>row. entry_of (g row) = entry_of row) \<Longrightarrow> ledger (map g rows) = ledger rows"
  by (induction rows rule: rev_induct) (simp_all add: ledger_snoc post_def)

lemma entry_of_sent [simp]: "entry_of (row\<lparr>ob_sent_at := x\<rparr>) = entry_of row"
  by (simp add: entry_of_def)

lemma entry_of_event [simp]:
  "entry_of \<lparr> ob_id = oid, ob_event_type = k, ob_payload = booking_event L k' oid' now b r s,
      ob_created_at = t, ob_sent_at = x \<rparr> =
    (if k = ''booking.created'' then
       Some (Reserve (uuid_String L (rm_ID r), sl_StartAt s) (uuid_String L (bk_ID b)) (uuid_String L (bk_UserID b)))
     else if k = ''booking.cancelled'' then
       Some (Release (uuid_String L (rm_ID r), sl_StartAt s) (uuid_String L (bk_ID b)) (uuid_String L (bk_UserID b)))
     else None)"
  by (simp add: entry_of_def read_entry_def booking_event_def)

section \<open>No two bookings hold one place\<close>

lemma find_append: "find P (xs @ ys) = (case find P xs of None \<Rightarrow> find P ys | Some x \<Rightarrow> Some x)"
  by (induction xs) simp_all

lemma place_of_slot:
  "distinct (map sl_ID ss) \<Longrightarrow> s \<in> set ss \<Longrightarrow> sl_ID s = bk_SlotID b \<Longrightarrow>
   place_of L ss b = Some (uuid_String L (sl_RoomID s), sl_StartAt s)"
  by (metis place_of_def find_by_distinct option.map(2))

lemma place_of_cong: "bk_SlotID b' = bk_SlotID b \<Longrightarrow> place_of L ss b' = place_of L ss b"
  by (simp add: place_of_def)

lemma place_inject:
  assumes "uuid_text_ok L" and ok: "db_ok db" and b: "b \<in> set (bookings db)" "b' \<in> set (bookings db)"
    and a: "active b" "active b'" and p: "place_of L (slots db) b = Some p" "place_of L (slots db) b' = Some p"
  shows "b = b'"
proof -
  from p obtain s s' where s: "s \<in> set (slots db)" "sl_ID s = bk_SlotID b" "s' \<in> set (slots db)" "sl_ID s' = bk_SlotID b'"
    and eq: "sl_RoomID s = sl_RoomID s'" "sl_StartAt s = sl_StartAt s'"
    by (auto simp: place_of_def uuid_String_inject [OF assms(1)] dest!: find_by_Some)
  have "inj_on (\<lambda>s. (sl_RoomID s, sl_StartAt s)) (set (slots db))"
    and inj: "inj_on bk_SlotID (set (filter active (bookings db)))"
    using ok by (simp_all add: db_ok_defs distinct_map)
  then have "s = s'" using s eq by (auto dest: inj_onD)
  then have "bk_SlotID b = bk_SlotID b'" using s by simp
  with inj show ?thesis using b a by (auto dest: inj_onD)
qed

lemma calendar_of_iff:
  assumes "uuid_text_ok L" and "db_ok db"
  shows "calendar_of L db p = Some h \<longleftrightarrow>
    (\<exists>b \<in> set (bookings db). active b \<and> place_of L (slots db) b = Some p \<and> held_by L b = h)"
proof
  assume "calendar_of L db p = Some h"
  then show "\<exists>b \<in> set (bookings db). active b \<and> place_of L (slots db) b = Some p \<and> held_by L b = h"
    by (auto simp: calendar_of_def dest: find_Some_in)
next
  assume "\<exists>b \<in> set (bookings db). active b \<and> place_of L (slots db) b = Some p \<and> held_by L b = h"
  then obtain b where b: "b \<in> set (bookings db)" "active b" "place_of L (slots db) b = Some p" "held_by L b = h" by blast
  then obtain b' where b': "find (\<lambda>b. active b \<and> place_of L (slots db) b = Some p) (bookings db) = Some b'"
    by (cases "find (\<lambda>b. active b \<and> place_of L (slots db) b = Some p) (bookings db)") (auto simp: find_None_all)
  then have "b' = b" using b find_Some_in [OF b'] by (blast intro: place_inject [OF assms])
  with b' b show "calendar_of L db p = Some h" by (simp add: calendar_of_def)
qed

lemma calendar_eqI:
  assumes "\<And>p h. c p = Some h \<longleftrightarrow> c' p = Some h"
  shows "(c :: calendar) = c'"
  by (rule ext) (metis assms option.exhaust)

section \<open>What the steps do to the calendar\<close>

text \<open>A step that keeps the bookings in their places keeps the calendar.\<close>

lemma calendar_frame:
  assumes L: "uuid_text_ok L" and ok: "db_ok db" "db_ok db'"
    and bs: "bookings db' = map f (bookings db)"
    and f: "\<And>b. bk_ID (f b) = bk_ID b" "\<And>b. bk_SlotID (f b) = bk_SlotID b"
      "\<And>b. bk_UserID (f b) = bk_UserID b" "\<And>b. active (f b) = active b"
    and sub: "set (slots db) \<subseteq> set (slots db')"
  shows "calendar_of L db' = calendar_of L db"
proof -
  have place: "place_of L (slots db') (f b) = place_of L (slots db) b" if b: "b \<in> set (bookings db)" for b
  proof -
    from ok(1) b obtain s where s: "s \<in> set (slots db)" "sl_ID s = bk_SlotID b"
      by (auto simp: db_ok_defs list_all_iff)
    then show ?thesis
      using ok sub f(2) place_of_slot [of "slots db" s b] place_of_slot [of "slots db'" s "f b"]
      by (auto simp: db_ok_defs)
  qed
  have held: "held_by L (f b) = held_by L b" for b by (simp add: held_by_def f)
  show ?thesis
    by (rule calendar_eqI) (use place in \<open>auto simp: calendar_of_iff [OF L] ok bs f held\<close>)
qed

lemma creates_calendar:
  assumes L: "uuid_text_ok L" and ok: "db_ok db" and c: "creates L slotID userID db b db'"
  obtains row p where "outbox db' = outbox db @ [row]"
    "entry_of row = Some (Reserve p (uuid_String L (bk_ID b)) (uuid_String L userID))"
    "allowed (Reserve p (uuid_String L (bk_ID b)) (uuid_String L userID)) (calendar_of L db)"
    "calendar_of L db' = enter (Reserve p (uuid_String L (bk_ID b)) (uuid_String L userID)) (calendar_of L db)"
proof -
  from c obtain now bid oid db1 where i: "insert_booking now bid slotID userID db = Inr (b, db1)"
    and e: "insert_event L ''booking.created'' oid now b slotID db1 = Inr ((), db')"
    unfolding creates_def by blast
  have b: "bk_SlotID b = slotID" "bk_UserID b = userID" "active b" "holder db slotID = None"
    and db1: "db1 = db\<lparr>bookings := bookings db @ [b]\<rparr>"
    using i by (auto elim!: insert_booking_InrE simp: active_def)
  obtain r s where rs: "s \<in> set (slots db1)" "sl_ID s = slotID" "rm_ID r = sl_RoomID s"
    and db': "db' = db1\<lparr>outbox := outbox db1 @ [\<lparr> ob_id = oid, ob_event_type = ''booking.created'',
       ob_payload = booking_event L ''booking.created'' oid now b r s, ob_created_at = now, ob_sent_at = None \<rparr>]\<rparr>"
      (is "_ = _\<lparr>outbox := _ @ [?row]\<rparr>")
    by (rule insert_event_InrE [OF e insert_booking_ok [OF ok i] creates_slot [OF i]])
  let ?p = "(uuid_String L (sl_RoomID s), sl_StartAt s)"
  have s: "s \<in> set (slots db)" using rs(1) by (simp add: db1)
  have place: "place_of L (slots db) b = Some ?p"
    by (rule place_of_slot) (use ok s rs b in \<open>simp_all add: db_ok_defs\<close>)
  have free: "x = s" if "x \<in> set (slots db)" "uuid_String L (sl_RoomID x) = uuid_String L (sl_RoomID s)" "sl_StartAt x = sl_StartAt s" for x
  proof -
    have "inj_on (\<lambda>s. (sl_RoomID s, sl_StartAt s)) (set (slots db))" using ok by (simp add: db_ok_defs distinct_map)
    then show ?thesis using that s by (auto simp: uuid_String_inject [OF L] dest: inj_onD)
  qed
  have "\<not> (active x \<and> place_of L (slots db) x = Some ?p)" if x: "x \<in> set (bookings db)" for x
  proof
    assume "active x \<and> place_of L (slots db) x = Some ?p"
    then obtain z where "active x" "z \<in> set (slots db)" "sl_ID z = bk_SlotID x"
      "uuid_String L (sl_RoomID z) = uuid_String L (sl_RoomID s)" "sl_StartAt z = sl_StartAt s"
      by (auto simp: place_of_def dest!: find_by_Some)
    with free [of z] show False using b(4) x rs(2) unfolding holder_None by metis
  qed
  then have none: "find (\<lambda>x. active x \<and> place_of L (slots db) x = Some ?p) (bookings db) = None"
    by (simp add: find_None_all)
  have "calendar_of L db' = (calendar_of L db)(?p \<mapsto> held_by L b)"
  proof
    fix q
    show "calendar_of L db' q = ((calendar_of L db)(?p \<mapsto> held_by L b)) q"
      using none place b(3)
      by (cases "q = ?p") (auto simp: calendar_of_def db' db1 find_append split: option.split)
  qed
  then show thesis
    using none rs(3) b
    by (intro that [of ?row ?p]) (simp_all add: db' db1 held_by_def calendar_of_def)
qed

lemma cancels_calendar:
  assumes L: "uuid_text_ok L" and ok: "db_ok db" and c: "cancels L bid userID db b db'"
  obtains row p where "outbox db' = outbox db @ [row]"
    "entry_of row = Some (Release p (uuid_String L bid) (uuid_String L userID))"
    "allowed (Release p (uuid_String L bid) (uuid_String L userID)) (calendar_of L db)"
    "calendar_of L db' = enter (Release p (uuid_String L bid) (uuid_String L userID)) (calendar_of L db)"
proof -
  from c obtain now oid db1 where i: "update_cancelled bid userID db = Inr (b, db1)"
    and e: "insert_event L ''booking.cancelled'' oid now b (bk_SlotID b) db1 = Inr ((), db')"
    unfolding cancels_def by blast
  obtain b0 where b0: "b0 \<in> set (bookings db)" "cancellable bid userID b0" "b = cancelled b0"
    and db1: "db1 = db\<lparr>bookings := update_where (cancellable bid userID) cancelled (bookings db)\<rparr>"
    by (rule update_cancelled_InrE [OF i])
  obtain r s where rs: "s \<in> set (slots db1)" "sl_ID s = bk_SlotID b" "rm_ID r = sl_RoomID s"
    and db': "db' = db1\<lparr>outbox := outbox db1 @ [\<lparr> ob_id = oid, ob_event_type = ''booking.cancelled'',
       ob_payload = booking_event L ''booking.cancelled'' oid now b r s, ob_created_at = now, ob_sent_at = None \<rparr>]\<rparr>"
      (is "_ = _\<lparr>outbox := _ @ [?row]\<rparr>")
    by (rule insert_event_InrE [OF e update_cancelled_ok [OF ok i] cancels_slot [OF i ok]])
  have ok': "db_ok db'" using cancels_ok [OF c ok] .
  let ?p = "(uuid_String L (sl_RoomID s), sl_StartAt s)"
  have id: "bk_ID b0 = bid" "bk_UserID b0 = userID" "active b0" using b0(2) by (auto simp: cancellable_def)
  have place: "place_of L (slots db) b0 = Some ?p"
    by (rule place_of_slot) (use ok rs b0 in \<open>simp_all add: db_ok_defs db1\<close>)
  have held: "calendar_of L db ?p = Some (uuid_String L bid, uuid_String L userID)"
    using b0(1) id place by (auto simp: calendar_of_iff [OF L ok] held_by_def)
  have only: "cancellable bid userID x \<longleftrightarrow> x = b0" if "x \<in> set (bookings db)" for x
  proof -
    have "inj_on bk_ID (set (bookings db))" using ok by (simp add: db_ok_defs distinct_map)
    then show ?thesis using that b0 by (auto simp: cancellable_def dest: inj_onD)
  qed
  have "calendar_of L db' q = Some h \<longleftrightarrow> ((calendar_of L db)(?p := None)) q = Some h" for q h
  proof -
    have "calendar_of L db' q = Some h \<longleftrightarrow>
        (\<exists>x \<in> set (bookings db). x \<noteq> b0 \<and> active x \<and> place_of L (slots db) x = Some q \<and> held_by L x = h)"
      unfolding calendar_of_iff [OF L ok'] using only
      by (auto simp: db' db1 set_update_where place_of_def held_by_def split: if_splits)
    also have "\<dots> \<longleftrightarrow> ((calendar_of L db)(?p := None)) q = Some h"
      using b0(1) id(3) place
      by (cases "q = ?p") (simp, metis place_inject [OF L ok], simp add: calendar_of_iff [OF L ok], metis option.inject)
    finally show ?thesis .
  qed
  then have "calendar_of L db' = (calendar_of L db)(?p := None)" by (rule calendar_eqI)
  then show thesis
    using held rs(3) b0(3) id by (intro that [of ?row ?p]) (simp_all add: db' db1)
qed

text \<open>Every step of the database is a step of the calendar and of its ledger.\<close>

lemma step_enters:
  assumes L: "uuid_text_ok L" and ok: "db_ok db" and st: "store_step L db db'"
  obtains (same) g where "calendar_of L db' = calendar_of L db" "outbox db' = map g (outbox db)"
      "\<And>row. entry_of (g row) = entry_of row"
  | (entered) row e where "outbox db' = outbox db @ [row]" "entry_of row = Some e"
      "allowed e (calendar_of L db)" "calendar_of L db' = enter e (calendar_of L db)"
proof -
  have ok': "db_ok db'" by (rule store_step_ok [OF st ok])
  have frame: thesis
    if "bookings db' = bookings db" "outbox db' = outbox db" "set (slots db) \<subseteq> set (slots db')"
    by (rule same [of "\<lambda>row. row"], rule calendar_frame [OF L ok ok', where f = "\<lambda>b. b"]) (use that in simp_all)
  from st show thesis
  proof (cases rule: store_step_cases)
    case same
    then show thesis using frame by simp
  next
    case (creates slotID userID b)
    then show thesis by (rule creates_calendar [OF L ok]) (rule entered)
  next
    case (cancels bid userID b)
    then show thesis by (rule cancels_calendar [OF L ok]) (rule entered)
  next
    case (link bid link)
    have "calendar_of L db' = calendar_of L db"
      by (rule calendar_frame [OF L ok ok',
            where f = "\<lambda>b. if bk_ID b = bid then b\<lparr>bk_ConferenceLink := Some link\<rparr> else b"])
        (use link in \<open>auto simp: update_conference_link_def update_where_def active_def\<close>)
    then show thesis using link by (intro same [of "\<lambda>row. row"]) (auto simp: update_conference_link_def)
  next
    case room
    then show thesis by (rule insert_room_InrE) (rule frame; simp)
  next
    case schedule
    then show thesis by (rule insert_schedule_InrE) (rule frame; simp)
  next
    case user
    then show thesis by (rule insert_user_InrE) (rule frame; simp)
  next
    case ensure
    then show thesis by (rule ensure_slots_InrE) (rule frame; auto)
  next
    case (mark now ids)
    have "calendar_of L db' = calendar_of L db"
      by (rule calendar_frame [OF L ok ok', where f = "\<lambda>b. b"]) (use mark in \<open>auto simp: mark_sent_def\<close>)
    then show thesis
      by (rule same [of "\<lambda>row. if ob_id row \<in> set ids then row\<lparr>ob_sent_at := Some now\<rparr> else row"])
        (use mark in \<open>auto simp: mark_sent_def update_where_def\<close>)
  qed
qed

section \<open>The database implements the calendar\<close>

lemma store_step_calendar:
  "uuid_text_ok L \<Longrightarrow> db_ok db \<Longrightarrow> store_step L db db' \<Longrightarrow> calendar_step (calendar_of L db) (calendar_of L db')"
  by (erule (2) step_enters) (auto intro: calendar_step.intros)

lemma ledger_migrated: "ledger (outbox (migrated now)) = Some (calendar_of L (migrated now))"
  by (simp add: ledger_def migrated_def calendar_of_def)

lemma reachable_ledger:
  assumes "uuid_text_ok L" and "reachable L db"
  shows "ledger (outbox db) = Some (calendar_of L db)"
  using assms(2)
proof (induction rule: reachable.induct)
  case (start now)
  show ?case by (rule ledger_migrated)
next
  case (step db db')
  show ?case
    by (rule step_enters [OF assms(1) reachable_ok [OF step(1)] step(2)])
      (use step in \<open>simp_all add: ledger_map ledger_snoc post_def\<close>)
qed

end
