(* ===== verification/Publishing.thy ===== *)
theory Publishing
  imports BookingStore RelayLoop
begin

text \<open>
  The booking service together with the topic it publishes to: the calls of the service and the
  batches of the relay in any order, with any failures of the database and of Kafka.  The
  outbox delivers at least once: a row that is marked as sent has its message in the topic, and
  the topic holds nothing but messages of rows.
\<close>

inductive publishing :: "externals \<Rightarrow> BookingDB \<Rightarrow> KafkaMessage list \<Rightarrow> bool" for L :: externals where
  start: "publishing L (migrated now) []"
| service: "publishing L db ms \<Longrightarrow> service_step L db db' \<Longrightarrow> publishing L db' ms"
| relay: "publishing L (store w) (topic k) \<Longrightarrow> processBatch locked k w = (n, k', w') \<Longrightarrow>
    publishing L (store w') (topic k')"

lemma publishing_reachable: "publishing L db ms \<Longrightarrow> reachable L db"
  by (induction rule: publishing.induct) (auto intro: reachable.intros store_step.intros)

section \<open>What the steps do to the outbox\<close>

lemma insert_event_outbox:
  "insert_event L ty oid now b slotID db = Inr (u, db') \<Longrightarrow> \<exists>new. outbox db' = outbox db @ new \<and> list_all unsent new"
  by (auto simp: insert_event_def event_rows_def unsent_def list_all_iff Let_def split: if_splits list.splits)

lemma creates_outbox: "creates L slotID userID db b db' \<Longrightarrow> \<exists>new. outbox db' = outbox db @ new \<and> list_all unsent new"
  by (auto simp: creates_def insert_booking_def Let_def split: if_splits dest!: insert_event_outbox)

lemma cancels_outbox: "cancels L bid userID db b db' \<Longrightarrow> \<exists>new. outbox db' = outbox db @ new \<and> list_all unsent new"
  by (auto simp: cancels_def update_cancelled_def split: option.splits dest!: insert_event_outbox)

lemma service_step_outbox:
  assumes "service_step L db db'"
  shows "\<exists>new. outbox db' = outbox db @ new \<and> list_all unsent new"
  using assms
proof (cases rule: service_step_cases)
  case creates
  then show ?thesis by (rule creates_outbox)
next
  case cancels
  then show ?thesis by (rule cancels_outbox)
qed (auto simp: update_conference_link_def insert_room_def insert_schedule_def insert_user_def ensure_slots_def Let_def
    split: if_splits option.splits sum.splits)

text \<open>A batch puts nothing into the topic but messages of the rows it fetched.\<close>

lemma processBatch_only_pending:
  assumes "processBatch locked k w = (n, k', w')"
  shows "set (topic k') \<subseteq> set (topic k) \<union> row_message ` set (pending locked (store w))"
proof -
  obtain r m w1 where p: "ProcessBatch locked publish_records (0, k) w = (r, (m, k'), w1)"
    using assms by (auto simp: processBatch_def split: prod.splits sum.splits)
  let ?b = "batch locked (store w)"
  have "k' = k \<or> k' = snd (WriteMessages (map message_of ?b) k)"
    using ProcessBatch_callback [OF p] publish_records_simps(2) [of ?b 0 k] by auto
  moreover have "set (topic (snd (WriteMessages msgs k))) \<subseteq> set (topic k) \<union> set msgs" for msgs
    by (metis WriteMessages_only surj_pair snd_conv)
  moreover have "map message_of ?b = map row_message (pending locked (store w))" by (simp add: batch_def comp_def)
  ultimately show ?thesis by (metis Un_upper1 list.set_map)
qed

lemma row_message_sent [simp]: "row_message (o1\<lparr>ob_sent_at := t\<rparr>) = row_message o1"
  by (simp add: scan_record_def)

lemma mark_sent_outbox:
  "mark_sent now ids db = Inr (u, db') \<Longrightarrow>
   outbox db' = map (\<lambda>o1. if ob_id o1 \<in> set ids then o1\<lparr>ob_sent_at := Some now\<rparr> else o1) (outbox db)"
  by (auto simp: mark_sent_def update_where_def)

lemma mark_sent_messages:
  assumes "mark_sent now ids db = Inr (u, db')"
  shows "row_message ` set (outbox db') = row_message ` set (outbox db)"
proof -
  have "map row_message (outbox db') = map row_message (outbox db)"
    using assms by (auto simp: mark_sent_def map_update_where)
  from arg_cong [OF this, of set] show ?thesis by simp
qed

section \<open>At least once\<close>

definition outbox_delivers :: "BookingDB \<Rightarrow> KafkaMessage list \<Rightarrow> bool" where
  "outbox_delivers db ms \<longleftrightarrow>
     (\<forall>o1 \<in> set (outbox db). \<not> unsent o1 \<longrightarrow> row_message o1 \<in> set ms) \<and>
     set ms \<subseteq> row_message ` set (outbox db)"

lemma relay_delivers:
  assumes inv: "outbox_delivers (store w) (topic k)" and run: "processBatch locked k w = (n, k', w')"
    and ids: "distinct (map ob_id (outbox (store w)))"
  shows "outbox_delivers (store w') (topic k')"
proof (cases "store w' = store w")
  case True
  have "row_message ` set (pending locked (store w)) \<subseteq> row_message ` set (outbox (store w))"
    by (rule image_mono) (use pending_subset in blast)
  moreover have "set (topic k) \<subseteq> row_message ` set (outbox (store w))" using inv by (simp add: outbox_delivers_def)
  ultimately have "set (topic k') \<subseteq> row_message ` set (outbox (store w))"
    using processBatch_only_pending [OF run] by (meson Un_least order_trans)
  moreover have "set (topic k) \<subseteq> set (topic k')" using processBatch_topic(1) [OF run] by (auto simp: topic_grows_def)
  ultimately show ?thesis using inv unfolding outbox_delivers_def True by blast
next
  case False
  then obtain now where m: "mark_sent now (map ob_id (pending locked (store w))) (store w) = Inr ((), store w')"
    using processBatch_effect [OF run] by blast
  have top: "set (topic k') = set (topic k) \<union> row_message ` set (pending locked (store w))"
    using accepted_set [OF processBatch_accepted [OF run False]] by simp
  have rows: "outbox (store w') = map (\<lambda>o1. if ob_id o1 \<in> ob_id ` set (pending locked (store w))
      then o1\<lparr>ob_sent_at := Some now\<rparr> else o1) (outbox (store w))"
    using mark_sent_outbox [OF m] by simp
  have "row_message o2 \<in> set (topic k')" if o2: "o2 \<in> set (outbox (store w'))" "\<not> unsent o2" for o2
  proof -
    obtain o1 where o1: "o1 \<in> set (outbox (store w))"
      "o2 = (if ob_id o1 \<in> ob_id ` set (pending locked (store w)) then o1\<lparr>ob_sent_at := Some now\<rparr> else o1)"
      using o2(1) unfolding rows set_map by blast
    show ?thesis
    proof (cases "ob_id o1 \<in> ob_id ` set (pending locked (store w))")
      case True
      then obtain p where p: "p \<in> set (pending locked (store w))" "ob_id p = ob_id o1" by auto
      then have "p = o1" using ids o1(1) pending_subset [of p] by (auto simp: distinct_map dest: inj_onD)
      then show ?thesis using p(1) top o1(2) True by auto
    next
      case False
      then show ?thesis using inv o1 o2(2) top by (auto simp: outbox_delivers_def)
    qed
  qed
  then show ?thesis
    using inv top pending_subset [of _ locked "store w"] mark_sent_messages [OF m]
    by (auto simp: outbox_delivers_def)
qed

lemma publishing_delivers: "publishing L db ms \<Longrightarrow> outbox_delivers db ms"
proof (induction rule: publishing.induct)
  case (start now)
  then show ?case by (simp add: outbox_delivers_def migrated_def)
next
  case (service db ms db')
  from service_step_outbox [OF service(2)] obtain new where "outbox db' = outbox db @ new" "list_all unsent new" by blast
  then show ?case using service.IH by (auto simp: outbox_delivers_def list_all_iff)
next
  case (relay w k locked n k' w')
  have "distinct (map ob_id (outbox (store w)))"
    using reachable_ok [OF publishing_reachable [OF relay(1)]] by (simp add: db_ok_defs)
  then show ?case by (rule relay_delivers [OF relay.IH relay(2)])
qed

text \<open>When nothing is left unsent, the topic holds exactly the messages of the outbox, each at least once.\<close>

lemma all_published:
  assumes "publishing L db ms" "filter unsent (outbox db) = []"
  shows "set ms = row_message ` set (outbox db)"
  using publishing_delivers [OF assms(1)] assms(2) by (auto simp: outbox_delivers_def filter_empty_conv)

section \<open>The last pass\<close>

text \<open>The relay touches nothing but the marks.\<close>

definition only_marks :: "BookingDB \<Rightarrow> BookingDB \<Rightarrow> bool" where
  "only_marks db db' \<longleftrightarrow> db'\<lparr>outbox := []\<rparr> = db\<lparr>outbox := []\<rparr> \<and>
     map (ob_sent_at_update (\<lambda>_. None)) (outbox db') = map (ob_sent_at_update (\<lambda>_. None)) (outbox db)"

lemma only_marks_refl [simp]: "only_marks db db"
  by (simp add: only_marks_def)

lemma only_marks_trans: "only_marks db1 db2 \<Longrightarrow> only_marks db2 db3 \<Longrightarrow> only_marks db1 db3"
  by (simp add: only_marks_def)

lemma only_marks_tables:
  assumes "only_marks db db'"
  shows "bookings db' = bookings db" "slots db' = slots db" "rooms db' = rooms db"
    and "(\<And>o1. P (o1\<lparr>ob_sent_at := None\<rparr>) = P o1) \<Longrightarrow> list_all P (outbox db') = list_all P (outbox db)"
proof -
  have rest: "db'\<lparr>outbox := []\<rparr> = db\<lparr>outbox := []\<rparr>" using assms by (simp add: only_marks_def)
  from arg_cong [OF rest, of bookings] arg_cong [OF rest, of slots] arg_cong [OF rest, of rooms]
  show "bookings db' = bookings db" "slots db' = slots db" "rooms db' = rooms db" by simp_all
  assume P: "\<And>o1. P (o1\<lparr>ob_sent_at := None\<rparr>) = P o1"
  have all: "list_all P (map (ob_sent_at_update (\<lambda>_. None)) os) = list_all P os" for os
    by (simp add: list.pred_map comp_def P)
  show "list_all P (outbox db') = list_all P (outbox db)"
    using assms all [of "outbox db'"] all [of "outbox db"] by (simp add: only_marks_def)
qed

lemma processBatch_only_marks:
  assumes "processBatch locked k w = (n, k', w')"
  shows "only_marks (store w) (store w')"
proof -
  have "only_marks db db'" if "mark_sent now ids db = Inr (u, db')" for now ids db u db'
    using that by (auto simp: only_marks_def mark_sent_def map_update_where)
  then show ?thesis using processBatch_effect [OF assms] by (auto dest: sym)
qed

lemma drain_keeps:
  assumes "drain locked deadline k w = (k', w')"
    and "\<And>held k1 w1 n k2 w2. P k1 (store w1) \<Longrightarrow> processBatch held k1 w1 = (n, k2, w2) \<Longrightarrow> P k2 (store w2)"
    and "P k (store w)"
  shows "P k' (store w')"
  using assms(1,3)
proof (induction locked deadline k w rule: drain.induct)
  case (1 locked deadline k w)
  obtain now w1 where t: "time_Now w = (now, w1)" by (cases "time_Now w")
  show ?case
  proof (cases "deadline \<le> now")
    case True
    then show ?thesis using "1.prems" t time_Now_storeD [OF t] by (simp add: drain.simps)
  next
    case False
    obtain n k2 w2 where b: "processBatch locked k w1 = (n, k2, w2)" by (metis prod_cases3)
    have P2: "P k2 (store w2)" by (rule assms(2) [OF _ b]) (use "1.prems"(2) time_Now_storeD [OF t] in simp)
    show ?thesis
    proof (cases "n = 0")
      case True
      then have "k' = k2" "w' = w2" using "1.prems"(1) t b False by (simp_all add: drain.simps [of locked deadline k w])
      then show ?thesis using P2 by simp
    next
      case n: False
      then have "drain locked deadline k2 w2 = (k', w')"
        using "1.prems"(1) t b False by (simp add: drain.simps [of locked deadline k w])
      from "1.IH" [OF t [symmetric] refl False b [symmetric] refl refl n this P2] show ?thesis .
    qed
  qed
qed

lemma drain_publishing:
  "drain locked deadline k w = (k', w') \<Longrightarrow> publishing L (store w) (topic k) \<Longrightarrow> publishing L (store w') (topic k')"
  by (rule drain_keeps [where P = "\<lambda>k db. publishing L db (topic k)"]) (auto intro: publishing.relay)

lemma drain_only_marks:
  "drain locked deadline k w = (k', w') \<Longrightarrow> only_marks (store w) (store w')"
  by (rule drain_keeps [where P = "\<lambda>k db. only_marks (store w) db"])
    (auto intro: only_marks_trans processBatch_only_marks)

end
