(* ===== verification/Sample.thy ===== *)
theory Sample
  imports Publishing AuthService
begin

text \<open>
  Concrete data on which the theorems are tried: functions for the third-party packages that
  meet what is assumed of them, and a booking database reached by a few calls.
\<close>

section \<open>Identifiers as text\<close>

definition hex_char :: "nat \<Rightarrow> char" where
  "hex_char d = (if d < 10 then char_of (48 + d) else char_of (87 + d))"

definition hex_val :: "char \<Rightarrow> nat" where
  "hex_val c = (let n = of_char c in if n < 58 then n - 48 else n - 87)"

fun hex_digits :: "nat \<Rightarrow> nat \<Rightarrow> string" where
  "hex_digits 0 n = []"
| "hex_digits (Suc k) n = hex_digits k (n div 16) @ [hex_char (n mod 16)]"

definition hex_value :: "string \<Rightarrow> nat" where
  "hex_value s = foldl (\<lambda>n c. 16 * n + hex_val c) 0 s"

definition sample_uuid_String :: "uuid \<Rightarrow> string" where
  "sample_uuid_String u = (let h = hex_digits 32 (unat u) in
     take 8 h @ ''-'' @ take 4 (drop 8 h) @ ''-'' @ take 4 (drop 12 h) @ ''-'' @ take 4 (drop 16 h) @ ''-'' @ drop 20 h)"

definition sample_uuid_Parse :: "string \<Rightarrow> uuid option" where
  "sample_uuid_Parse s = (let h = filter (\<lambda>c. c \<noteq> CHR ''-'') s in
     if length h = 32 then Some (of_nat (hex_value h)) else None)"

lemma hex_val_char: "d < 16 \<Longrightarrow> hex_val (hex_char d) = d"
  by (simp add: hex_val_def hex_char_def Let_def)

lemma hex_char_dash: "d < 16 \<Longrightarrow> hex_char d \<noteq> CHR ''-''"
proof -
  assume "d < 16"
  then have "hex_val (hex_char d) = d" by (rule hex_val_char)
  moreover have "of_char (hex_char d) \<noteq> (45::nat)" using \<open>d < 16\<close> by (simp add: hex_char_def)
  ultimately show ?thesis by auto
qed

lemma hex_char_dot: "d < 16 \<Longrightarrow> hex_char d \<noteq> CHR ''.''"
proof -
  assume "d < 16"
  then have "hex_val (hex_char d) = d" by (rule hex_val_char)
  moreover have "of_char (hex_char d) \<noteq> (46::nat)" using \<open>d < 16\<close> by (simp add: hex_char_def)
  ultimately show ?thesis by auto
qed

lemma length_hex_digits [simp]: "length (hex_digits k n) = k"
  by (induction k n rule: hex_digits.induct) auto

lemma hex_digits_no_dash: "c \<in> set (hex_digits k n) \<Longrightarrow> c \<noteq> CHR ''-''"
  using hex_char_dash by (induction k n rule: hex_digits.induct) (auto dest!: sym [of "CHR ''-''"])

lemma hex_digits_no_dot: "CHR ''.'' \<notin> set (hex_digits k n)"
  using hex_char_dot by (induction k n rule: hex_digits.induct) (auto dest!: sym [of "CHR ''.''"])

lemma hex_value_digits: "hex_value (hex_digits k n) = n mod 16 ^ k"
proof (induction k n rule: hex_digits.induct)
  case (1 n)
  then show ?case by (simp add: hex_value_def)
next
  case (2 k n)
  have "hex_value (hex_digits (Suc k) n) = 16 * hex_value (hex_digits k (n div 16)) + n mod 16"
    by (simp add: hex_value_def hex_val_char)
  with 2 show ?case by (simp add: mod_mult2_eq)
qed

lemma sample_uuid_text: "sample_uuid_Parse (sample_uuid_String u) = Some u"
proof -
  define h where "h = hex_digits 32 (unat u)"
  have keep: "filter (\<lambda>c. c \<noteq> CHR ''-'') xs = xs" if "set xs \<subseteq> set h" for xs
    using that hex_digits_no_dash unfolding h_def by (intro filter_True) blast
  have sub: "set (take n (drop m h)) \<subseteq> set h" "set (take n h) \<subseteq> set h" "set (drop m h) \<subseteq> set h" for n m
    by (auto dest: in_set_takeD in_set_dropD)
  have "filter (\<lambda>c. c \<noteq> CHR ''-'') (sample_uuid_String u) =
      take 8 h @ take 4 (drop 8 h) @ take 4 (drop 12 h) @ take 4 (drop 16 h) @ drop 20 h"
    by (simp add: sample_uuid_String_def h_def [symmetric] Let_def keep sub)
  also have "\<dots> = h"
    using take_add [of 8 4 h] take_add [of 12 4 h] take_add [of 16 4 h] append_take_drop_id [of 20 h]
    by simp
  finally have "filter (\<lambda>c. c \<noteq> CHR ''-'') (sample_uuid_String u) = h" .
  moreover have "unat u < 16 ^ 32" using unsigned_less [of u] by simp
  ultimately show ?thesis by (simp add: sample_uuid_Parse_def h_def hex_value_digits)
qed

section \<open>Third-party functions\<close>

text \<open>
  A signed token spells out the algorithm, the claims and the key, and is issued only when
  this can be read back.
\<close>

definition token_text :: "string \<Rightarrow> claims \<Rightarrow> string \<Rightarrow> string" where
  "token_text alg c key = Join [alg, Itoa_nat (nat (ExpiresAt c)), Itoa_nat (nat (IssuedAt c)),
     sample_uuid_String (cl_UserID c), cl_Role c, key] CHR ''.''"

definition token_read :: "string \<Rightarrow> (string \<times> claims \<times> string) option" where
  "token_read s = (case Split s CHR ''.'' of
      [alg, e, i, u, role, key] \<Rightarrow>
        (case (Atoi e, Atoi i, sample_uuid_Parse u) of
           (Some e, Some i, Some u) \<Rightarrow>
             Some (alg, \<lparr> ExpiresAt = e, IssuedAt = i, cl_UserID = u, cl_Role = role \<rparr>, key)
         | _ \<Rightarrow> None)
    | _ \<Rightarrow> None)"

lemma uuid_text_no_dot: "CHR ''.'' \<notin> set (sample_uuid_String u)"
  using hex_digits_no_dot [of 32 "unat u"]
  by (auto simp: sample_uuid_String_def Let_def dest: in_set_takeD in_set_dropD)

lemma number_no_dot: "CHR ''.'' \<notin> set (Itoa_nat n)"
  using Itoa_nat_digits [of n] by (auto simp: list_all_iff isDigit_def digit_val_def dest!: bspec)

lemma token_read_text:
  assumes "0 \<le> ExpiresAt c" "ExpiresAt c \<le> MaxInt" "0 \<le> IssuedAt c" "IssuedAt c \<le> MaxInt"
    and "CHR ''.'' \<notin> set alg" "CHR ''.'' \<notin> set (cl_Role c)" "CHR ''.'' \<notin> set key"
  shows "token_read (token_text alg c key) = Some (alg, c, key)"
proof -
  have "Split (token_text alg c key) CHR ''.'' = [alg, Itoa_nat (nat (ExpiresAt c)), Itoa_nat (nat (IssuedAt c)),
      sample_uuid_String (cl_UserID c), cl_Role c, key]"
    unfolding token_text_def by (rule Split_Join) (use assms uuid_text_no_dot number_no_dot in auto)
  then show ?thesis using assms by (simp add: token_read_def Atoi_Itoa_nat sample_uuid_text)
qed

definition sample_externals :: externals where
  "sample_externals = \<lparr>
     uuid_String = sample_uuid_String,
     uuid_Parse = sample_uuid_Parse,
     mail_ParseAddress = (\<lambda>s. CHR ''@'' \<in> set s),
     bcrypt_GenerateFromPassword = (\<lambda>salt pw. if length pw \<le> 72 then Some (''bcrypt:'' @ pw) else None),
     bcrypt_CompareHashAndPassword = (\<lambda>h pw. if h = ''bcrypt:'' @ pw then BcryptMatch else BcryptMismatch),
     jwt_NewNumericDate = (\<lambda>t. t - t mod Second),
     jwt_SignedString = (\<lambda>alg c key. if token_read (token_text alg c key) = Some (alg, c, key)
                                    then Some (token_text alg c key) else None),
     jwt_ParseWithClaims = (\<lambda>s kf now. case token_read s of
        None \<Rightarrow> None
      | Some (alg, c, key) \<Rightarrow> if kf alg = Some key \<and> now < ExpiresAt c then Some c else None) \<rparr>"

lemma sample_uuid_text_ok: "uuid_text_ok sample_externals"
  by (simp add: uuid_text_ok_def sample_externals_def sample_uuid_text)

lemma sample_bcrypt_ok: "bcrypt_ok sample_externals"
  by (simp add: bcrypt_ok_def sample_externals_def)

lemma sample_jwt_ok: "jwt_ok sample_externals"
proof -
  have "t - Second < t - t mod Second" "t - t mod Second \<le> t" for t :: int
    by (simp_all add: pos_mod_bound pos_mod_sign)
  then show ?thesis by (auto simp: jwt_ok_def sample_externals_def split: if_splits)
qed

section \<open>A booking database\<close>

text \<open>Identifiers are handed out from 100; nothing fails and the clock stands still.\<close>

definition sample_world :: "'d \<Rightarrow> 'd world" where
  "sample_world d = \<lparr> clock = 0, ticks = [], gen = (\<lambda>n. of_nat (100 + n)), gen_pos = 0, faults = [],
     counters = (\<lambda>_. 0), store = d \<rparr>"

lemma sample_world_simps [simp]:
  "time_Now (sample_world d) = (0, sample_world d)" "store (sample_world d) = d" "clock (sample_world d) = 0"
  "gen_pos (sample_world d) = 0" "gen (sample_world d) n = of_nat (100 + n)" "ticks (sample_world d) = []"
  by (simp_all add: sample_world_def time_Now_def)

lemma calm_sample_world [simp]: "calm (sample_world d)"
  by (simp add: calm_def sample_world_def)

definition later_world :: "'d \<Rightarrow> 'd world" where
  "later_world d = (sample_world d)\<lparr>gen_pos := 100\<rparr>"

lemma later_world_simps [simp]:
  "time_Now (later_world d) = (0, later_world d)" "store (later_world d) = d" "clock (later_world d) = 0"
  "(later_world d)\<lparr>store := d'\<rparr> = later_world d'"
  "gen_pos (later_world d) = 100" "gen (later_world d) n = of_nat (100 + n)" "calm (later_world d)"
  by (simp_all add: later_world_def sample_world_def time_Now_def calm_def)

definition sample_slot :: Slot where
  "sample_slot = \<lparr> sl_ID = 7, sl_RoomID = 100, sl_StartAt = Hour, sl_EndAt = Hour + 30 * Minute \<rparr>"

definition sample_room :: Room where
  "sample_room = \<lparr> rm_ID = 100, rm_Name = ''Blue'', rm_Description = None, rm_Capacity = Some 6, rm_CreatedAt = 0 \<rparr>"

definition db_rooms :: BookingDB where
  "db_rooms = (migrated 0)\<lparr>rooms := [sample_room]\<rparr>"

definition db_slots :: BookingDB where
  "db_slots = db_rooms\<lparr>slots := [sample_slot]\<rparr>"

lemma step_to_rooms: "service_step L (migrated 0) db_rooms"
proof -
  have "CreateRoom_repo ''Blue'' None (Some 6) (sample_world (migrated 0)) =
      (Inr sample_room, (sample_world (migrated 0))\<lparr>gen_pos := 1, store := db_rooms\<rparr>)"
    by (simp add: CreateRoom_repo_def sample_world_def time_Now_def uuid_New_def exec_stmt_def next_fault_def
        insert_room_def fits_int4_def migrated_def db_rooms_def sample_room_def Let_def)
  from service_step.create_room [OF this, of L] show ?thesis by (simp add: sample_world_def)
qed

lemma step_to_slots: "service_step L db_rooms db_slots"
proof -
  have "EnsureSlots_repo [sample_slot] (sample_world db_rooms) = (Inr (), (sample_world db_rooms)\<lparr>store := db_slots\<rparr>)"
    by (simp add: EnsureSlots_repo_def sample_world_def exec_stmt_def next_fault_def ensure_slots_def
        db_slots_def db_rooms_def migrated_def sample_slot_def sample_room_def)
  from service_step.ensure [OF this, of L] show ?thesis by (simp add: sample_world_def)
qed

text \<open>One booking, made by the seeded user.\<close>

definition sample_booking :: Booking where
  "sample_booking = \<lparr> bk_ID = 100, bk_SlotID = 7, bk_UserID = dummyUserID, bk_Status = BookingStatusActive,
     bk_ConferenceLink = None, bk_CreatedAt = 0 \<rparr>"

definition db_booked :: BookingDB where
  "db_booked = db_slots\<lparr>bookings := [sample_booking],
     outbox := [\<lparr> ob_id = 101, ob_event_type = ''booking.created'',
       ob_payload = booking_event sample_externals ''booking.created'' 101 0 sample_booking sample_room sample_slot,
       ob_created_at = 0, ob_sent_at = None \<rparr>]\<rparr>"

lemma sample_create_booking:
  "CreateBooking_repo sample_externals 7 dummyUserID (sample_world db_slots) =
     (Inr sample_booking, (sample_world db_slots)\<lparr>gen_pos := 2, store := db_booked\<rparr>)"
  by (simp add: CreateBooking_repo_def sample_world_def begin_tx_def time_Now_def uuid_New_def exec_stmt_def
      next_fault_def commit_tx_def insert_booking_def insert_event_def event_rows_def holder_def
      db_booked_def db_slots_def db_rooms_def migrated_def sample_slot_def sample_room_def sample_booking_def
      dummyUserID_def dummyAdminID_def Let_def)

lemma step_to_booked: "service_step sample_externals db_slots db_booked"
  using service_step.create_booking [OF sample_create_booking] by (simp add: sample_world_def)

lemma publishing_samples:
  "publishing L db_rooms []" "publishing L db_slots []" "publishing sample_externals db_booked []"
proof -
  show r: "publishing L db_rooms []" for L by (rule publishing.service [OF publishing.start step_to_rooms])
  show s: "publishing L db_slots []" for L by (rule publishing.service [OF r step_to_slots])
  show "publishing sample_externals db_booked []" by (rule publishing.service [OF s step_to_booked])
qed

lemma reachable_samples:
  "reachable L db_rooms" "reachable L db_slots" "reachable sample_externals db_booked"
  by (rule publishing_reachable, rule publishing_samples)+

lemmas reachable_db_rooms = reachable_samples(1)
lemmas reachable_db_slots = reachable_samples(2)
lemmas reachable_db_booked = reachable_samples(3)

lemmas sample_db_defs = db_booked_def db_slots_def db_rooms_def migrated_def sample_slot_def sample_room_def
  sample_booking_def dummyUserID_def dummyAdminID_def

lemma db_ok_samples [simp]: "db_ok db_slots" "db_ok db_booked" "db_ok db_rooms"
  using reachable_ok reachable_db_slots reachable_db_booked reachable_db_rooms by blast+

text \<open>The tables by name.\<close>

lemma sample_rows [simp]:
  "bk_ID sample_booking = 100" "bk_SlotID sample_booking = 7" "bk_UserID sample_booking = dummyUserID"
  "active sample_booking" "bk_ConferenceLink sample_booking = None"
  "sl_ID sample_slot = 7" "sl_RoomID sample_slot = 100" "sl_StartAt sample_slot = Hour"
  "rm_ID sample_room = 100"
  by (simp_all add: sample_booking_def sample_slot_def sample_room_def active_def)

lemma sample_tables [simp]:
  "bookings db_booked = [sample_booking]" "bookings db_slots = []" "bookings db_rooms = []"
  "slots db_booked = [sample_slot]" "slots db_slots = [sample_slot]" "slots db_rooms = []"
  "rooms db_booked = [sample_room]" "rooms db_slots = [sample_room]" "rooms db_rooms = [sample_room]"
  "schedules db_booked = []" "schedules db_slots = []" "schedules db_rooms = []"
  "us_ID ` set (users db_booked) = {dummyAdminID, dummyUserID}"
  "map ob_id (outbox db_booked) = [101]" "ob_id ` set (outbox db_booked) = {101}" "outbox db_slots = []"
  by (simp_all add: db_booked_def db_slots_def db_rooms_def migrated_def insert_commute)

text \<open>The booking cancelled by its user.\<close>

definition db_cancelled :: BookingDB where
  "db_cancelled = db_booked\<lparr>bookings := [cancelled sample_booking],
     outbox := outbox db_booked @ [\<lparr> ob_id = 200, ob_event_type = ''booking.cancelled'',
       ob_payload = booking_event sample_externals ''booking.cancelled'' 200 0 (cancelled sample_booking) sample_room sample_slot,
       ob_created_at = 0, ob_sent_at = None \<rparr>]\<rparr>"

lemma step_to_cancelled: "service_step sample_externals db_booked db_cancelled"
proof -
  have "CancelBooking_repo sample_externals 100 dummyUserID (later_world db_booked) =
      (Inr (cancelled sample_booking), (later_world db_booked)\<lparr>gen_pos := 101, store := db_cancelled\<rparr>)"
    by (simp add: CancelBooking_repo_def later_world_def sample_world_def begin_tx_def time_Now_def uuid_New_def
        exec_stmt_def next_fault_def commit_tx_def update_cancelled_def cancellable_def active_def
        update_where_def insert_event_def event_rows_def db_cancelled_def cancelled_def sample_db_defs Let_def)
  from service_step.cancel_booking [OF this] show ?thesis by simp
qed

end
