(* ===== verification/BookingProperties.thy ===== *)
theory BookingProperties
  imports BookingEndpoints RelayLoop Calendar Sample
begin

text \<open>
  The properties of the booking service, each with an instance on the sample data where it has
  hypotheses.
\<close>

section \<open>Bookings\<close>

text \<open>
  C1: whatever calls of the service and of its relay have run, in whatever order and with
  whatever failures, no slot has two active bookings.
\<close>

theorem no_double_booking:
  assumes "reachable L db"
    and "b1 \<in> set (bookings db)" "b2 \<in> set (bookings db)" "active b1" "active b2"
    and "bk_SlotID b1 = bk_SlotID b2"
  shows "b1 = b2"
proof -
  have "distinct (map bk_SlotID (filter active (bookings db)))"
    using reachable_ok [OF assms(1)] by (simp add: db_ok_defs)
  then show ?thesis using assms(2-6) by (auto simp: distinct_map dest: inj_onD)
qed

theorem no_double_booking_witness:
  "\<exists>!b. b \<in> set (bookings db_booked) \<and> active b \<and> bk_SlotID b = 7"
proof (rule ex_ex1I)
  show "\<exists>b. b \<in> set (bookings db_booked) \<and> active b \<and> bk_SlotID b = 7"
    by (rule exI [of _ sample_booking]) simp
  show "b1 = b2" if "b1 \<in> set (bookings db_booked) \<and> active b1 \<and> bk_SlotID b1 = 7"
      "b2 \<in> set (bookings db_booked) \<and> active b2 \<and> bk_SlotID b2 = 7" for b1 b2
    using no_double_booking [OF reachable_db_booked] that by auto
qed

text \<open>
  C3: in every reachable state each booking has exactly one \<open>booking.created\<close> row in the
  outbox, exactly one \<open>booking.cancelled\<close> row if it is cancelled and none if it is not, and
  every row describes an existing booking with the slot and the room it is for.
\<close>

theorem outbox_agrees:
  assumes "uuid_text_ok L" and "reachable L db"
  shows "(\<forall>b \<in> set (bookings db).
      length (events_of L ''booking.created'' (bk_ID b) db) = 1 \<and>
      length (events_of L ''booking.cancelled'' (bk_ID b) db) = (if active b then 0 else 1)) \<and>
    (\<forall>o1 \<in> set (outbox db). truthful L db o1)"
  using reachable_log_ok [OF assms] by (simp_all add: log_ok_def)

theorem outbox_agrees_witness:
  "length (events_of sample_externals ''booking.created'' 100 db_booked) = 1 \<and>
   length (events_of sample_externals ''booking.cancelled'' 100 db_booked) = 0"
  using outbox_agrees [OF sample_uuid_text_ok reachable_db_booked]
  by simp

text \<open>
  C6: the database implements a calendar of rooms.  Every call of the service and every batch of
  the relay, whatever its arguments, the clock and the failures, is for the calendar nothing, or
  one allowed entry: a free place is taken, or a place is given back by the booking and the user
  that held it.
\<close>

theorem store_refines_calendar:
  assumes "uuid_text_ok L" and "reachable L db" and "store_step L db db'"
  shows "calendar_step (calendar_of L db) (calendar_of L db')"
  using assms(1) reachable_ok [OF assms(2)] assms(3) by (rule store_step_calendar)

theorem store_refines_calendar_witness:
  "calendar_step (calendar_of sample_externals db_slots) (calendar_of sample_externals db_booked) \<and>
   calendar_of sample_externals db_slots \<noteq> calendar_of sample_externals db_booked"
proof
  show "calendar_step (calendar_of sample_externals db_slots) (calendar_of sample_externals db_booked)"
    by (rule store_refines_calendar [OF sample_uuid_text_ok reachable_db_slots store_step.service [OF step_to_booked]])
  have "calendar_of sample_externals db_slots p = None" for p
    by (simp add: calendar_of_def)
  moreover have "calendar_of sample_externals db_booked (sample_uuid_String (sl_RoomID sample_slot), sl_StartAt sample_slot) \<noteq> None"
    by (simp add: calendar_of_def place_of_def sample_db_defs sample_booking_def sample_externals_def find_by_Cons active_def)
  ultimately show "calendar_of sample_externals db_slots \<noteq> calendar_of sample_externals db_booked" by metis
qed

text \<open>
  C4: the outbox is a complete account.  Replayed from its first row, with nothing but the types
  and the payloads of the events, every event is allowed where it stands, and the end is the
  calendar that the tables describe: a consumer of all events in their order knows who holds
  which room and when.
\<close>

theorem outbox_is_the_ledger:
  assumes "uuid_text_ok L" and "reachable L db"
  shows "ledger (outbox db) = Some (calendar_of L db)"
  using assms by (rule reachable_ledger)

theorem outbox_is_the_ledger_witness:
  "ledger (outbox db_booked) = Some (calendar_of sample_externals db_booked) \<and> outbox db_booked \<noteq> []"
  using outbox_is_the_ledger [OF sample_uuid_text_ok reachable_db_booked] by (simp add: db_booked_def)

text \<open>
  C10: a booking that \<open>CreateBooking\<close> returns, whatever failed on the way, is now the last row
  of the table and active, for the slot and the user of the request; no other active booking
  had the slot, the slot exists and had not begun, every other row is as it was, and a link in
  the answer is stored.
\<close>

theorem created_booking_is_stored:
  assumes "CreateBooking (pg_booking_deps L) slotID userID link w = (Inr b, w')" and "db_ok (store w)"
  shows "\<exists>b'. bookings (store w') = bookings (store w) @ [b'] \<and> same_booking b b' \<and>
      bk_SlotID b' = slotID \<and> bk_UserID b' = userID \<and> active b' \<and>
      (\<forall>x \<in> set (bookings (store w)). active x \<longrightarrow> bk_SlotID x \<noteq> slotID) \<and>
      (\<exists>s \<in> set (slots (store w')). sl_ID s = slotID \<and> clock w \<le> sl_StartAt s)"
  by (rule pg_bookings.create_promise [OF assms])

lemma sample_create:
  "CreateBooking (pg_booking_deps sample_externals) 7 dummyUserID False (sample_world db_slots) =
     (Inr sample_booking, (sample_world db_slots)\<lparr>gen_pos := 2, store := db_booked\<rparr>)"
proof -
  have "find_by sl_ID 7 (slots db_slots) = Some sample_slot" "0 \<le> sl_StartAt sample_slot"
    by (simp_all add: find_by_Cons)
  then show ?thesis by (simp add: CreateBooking_def calm_GetSlotByID_repo sample_create_booking)
qed

theorem created_booking_is_stored_witness:
  "\<exists>b'. bookings db_booked = bookings db_slots @ [b'] \<and> same_booking sample_booking b' \<and> active b'"
  using created_booking_is_stored [OF sample_create] by auto

text \<open>
  When the database answers and identifiers are fresh, \<open>CreateBooking\<close> decides every
  request: unknown slot, slot begun, slot taken, unknown user (an error without a sentinel),
  or a new booking with the requested link.
\<close>

theorem create_booking_decides:
  assumes "calm w" and "db_ok (store w)"
    and "gen w (gen_pos w) \<notin> bk_ID ` set (bookings (store w))"
    and "gen w (Suc (gen_pos w)) \<notin> ob_id ` set (outbox (store w))"
  shows "outcome (fst (CreateBooking (pg_booking_deps L) slotID userID link w)) =
     create_answer (store w) slotID userID
       (if link then Some (''https://conference.example/meeting/'' @ uuid_String L (gen w (gen_pos w))) else None)
       (fst (time_Now w)) (gen w (gen_pos w)) (fst (time_Now (snd (time_Now w))))"
  using CreateBooking_decides [OF assms] .

theorem create_booking_decides_witness:
  "outcome (fst (CreateBooking (pg_booking_deps sample_externals) 7 dummyUserID False (later_world db_booked))) =
     Inl (Some ErrSlotAlreadyBooked)"
  using create_booking_decides [of "later_world db_booked" sample_externals 7 dummyUserID False]
  by (simp add: create_answer_def holder_def find_by_Cons)

text \<open>
  When the database answers, cancelling succeeds exactly for the owner of an existing
  booking and answers it as cancelled; a booking of somebody else is reported as not found.
\<close>

theorem cancel_booking_decides:
  assumes "calm w" and "db_ok (store w)" and "gen w (gen_pos w) \<notin> ob_id ` set (outbox (store w))"
  shows "outcome (fst (CancelBooking (pg_booking_deps L) bookingID userID w)) =
    (case find_by bk_ID bookingID (bookings (store w)) of
       None \<Rightarrow> Inl (Some ErrBookingNotFound)
     | Some b \<Rightarrow> if bk_UserID b = userID then Inr (cancelled b) else Inl (Some ErrBookingNotFound))"
  using CancelBooking_decides [OF assms] .

theorem cancel_booking_decides_witness:
  "outcome (fst (CancelBooking (pg_booking_deps sample_externals) 100 dummyUserID (sample_world db_booked))) =
     Inr (cancelled sample_booking)"
  using cancel_booking_decides [of "sample_world db_booked" sample_externals 100 dummyUserID]
  by (simp add: find_by_Cons)

text \<open>
  Cancelling again is idempotent: it answers the same booking and leaves the table as it
  is, whatever else it runs into.
\<close>

theorem cancel_is_idempotent:
  assumes "CancelBooking (pg_booking_deps L) bookingID userID w = (Inr b, w')" and "db_ok (store w)"
    and "store v = store w'" and "CancelBooking (pg_booking_deps L) bookingID userID v = (Inr b2, v')"
  shows "b2 = b \<and> bookings (store v') = bookings (store v)"
  by (rule pg_bookings.cancel_again [OF assms])

lemma sample_cancel:
  "CancelBooking (pg_booking_deps sample_externals) 100 dummyUserID (later_world db_booked) =
     (Inr (cancelled sample_booking), (later_world db_booked)\<lparr>gen_pos := 101, store := db_cancelled\<rparr>)"
  by (simp add: CancelBooking_def CancelBooking_repo_def later_world_def sample_world_def begin_tx_def time_Now_def uuid_New_def
      exec_stmt_def next_fault_def commit_tx_def update_cancelled_def cancellable_def active_def
      update_where_def insert_event_def event_rows_def db_cancelled_def cancelled_def sample_db_defs Let_def)

lemma sample_cancel_again:
  "CancelBooking (pg_booking_deps sample_externals) 100 dummyUserID (later_world db_cancelled) =
     (Inr (cancelled sample_booking), later_world db_cancelled)"
  by (simp add: CancelBooking_def CancelBooking_repo_def later_world_def sample_world_def begin_tx_def time_Now_def
      exec_stmt_def next_fault_def rollback_def update_cancelled_def cancellable_def active_def
      diagnoseCancelFailure_def GetBookingByID_repo_def query_def select_booking_def find_by_Cons
      db_cancelled_def cancelled_def sample_db_defs)

theorem cancel_is_idempotent_witness:
  "bookings (store (snd (CancelBooking (pg_booking_deps sample_externals) 100 dummyUserID (later_world db_cancelled))))
     = bookings db_cancelled"
  using cancel_is_idempotent [OF sample_cancel _ _ sample_cancel_again]
  by (simp add: sample_cancel_again)

text \<open>
  Cancelling the booking that holds a slot frees the slot.
\<close>

theorem cancel_frees_slot:
  assumes "CancelBooking (pg_booking_deps L) bookingID userID w = (Inr b, w')" and "db_ok (store w)"
    and "holder (store w) slotID = Some b0" and "bk_ID b0 = bookingID"
  shows "holder (store w') slotID = None"
proof -
  have t: "bookings (store w') = set_cancelled bookingID (bookings (store w))"
    using pg_bookings.cancel_promise [OF assms(1,2)] by simp
  have ok: "bookings_ok (store w)" using assms(2) by (simp add: db_ok_def)
  then have only: "x = b0" if "x \<in> set (bookings (store w))" "active x" "bk_SlotID x = slotID" for x
    using that assms(3) holder_iff [of "store w" slotID x] by simp
  show ?thesis
    unfolding holder_None
  proof (intro ballI impI notI)
    fix y
    assume y: "y \<in> set (bookings (store w'))" "active y" "bk_SlotID y = slotID"
    then obtain x where x: "x \<in> set (bookings (store w))"
      "y = (if bk_ID x = bookingID then x\<lparr>bk_Status := BookingStatusCancelled\<rparr> else x)"
      by (auto simp: t set_cancelled_def set_update_where)
    with y only [of x] assms(4) show False by (auto simp: active_def split: if_splits)
  qed
qed

theorem cancel_frees_slot_witness: "holder db_cancelled 7 = None"
  using cancel_frees_slot [OF sample_cancel, of 7 sample_booking]
  by (simp add: holder_def find_by_Cons)

section \<open>Access\<close>

text \<open>
  C7: a request changes rooms or schedules only if it carries a token that is accepted at a
  time not before the request and names the role admin, and bookings only if the token names
  the role user, and then only bookings of the user it names.
\<close>

theorem request_is_authorised:
  assumes "db_ok (store w)"
  shows "\<exists>now \<ge> clock w. permitted (bearer_claims L secret r now) (store w)
    (store (snd (NewRouter chi_Find L secret (app_services L secret) r w)))"
  by (rule request_changes [OF assms])

theorem request_is_authorised_witness:
  "\<forall>secret r chi_Find. \<exists>now \<ge> 0. permitted (bearer_claims sample_externals secret r now) db_booked
    (store (snd (NewRouter chi_Find sample_externals secret (app_services sample_externals secret) r (later_world db_booked))))"
proof (intro allI)
  fix secret r chi_Find
  show "\<exists>now \<ge> 0. permitted (bearer_claims sample_externals secret r now) db_booked
    (store (snd (NewRouter chi_Find sample_externals secret (app_services sample_externals secret) r (later_world db_booked))))"
    using request_is_authorised [of "later_world db_booked" sample_externals secret r chi_Find] by simp
qed

text \<open>
  C26: on every route that needs a role, a request without an accepted token is answered 401, a
  token with another role 403, and neither touches the store; with the role, the handler of
  the route runs with the user of the token.
\<close>

theorem roles_are_required:
  assumes "(pat, role, handler) \<in> set (role_routes L svc)"
  shows "\<exists>h. map_of (routes L secret svc) pat = Some h \<and>
    (\<forall>r w. case bearer_claims L secret r (fst (time_Now w)) of
       None \<Rightarrow> \<exists>w'. h r w = answer 401 (PText unauthorizedBody) w' \<and> store w' = store w
     | Some (u, role') \<Rightarrow>
         (if role' = role
          then h r w = handler (r\<lparr>rq_UserID := Some u, rq_Role := Some role\<rparr>) (snd (time_Now w))
          else \<exists>w'. h r w = answer 403 (PText forbiddenBody) w' \<and> store w' = store w))"
  using role_routes_guarded [OF assms] guarded_cases by blast

theorem roles_are_required_witness:
  "\<exists>h. map_of (routes sample_externals ''key'' (app_services sample_externals ''key'')) (''GET'', ''/bookings/my'') = Some h"
  using roles_are_required [of "(''GET'', ''/bookings/my'')" RoleUser
      "listUserBookings_handler sample_externals (app_services sample_externals ''key'')" sample_externals
      "app_services sample_externals ''key''" "''key''"]
  by (auto simp: role_routes_def)

text \<open>
  No registered route panics, whatever the request and the services: the handlers that
  read the user from the context are all behind the middleware that puts it there.
\<close>

theorem no_route_panics:
  assumes "map_of (routes L secret svc) pat = Some h"
  shows "fst (h r w) \<noteq> None"
  using routes_answer [OF assms] by (simp add: answered_def)

theorem no_route_panics_witness: "\<forall>r w. fst (InfoHandler r (w :: BookingDB world)) \<noteq> None"
  using no_route_panics [of sample_externals "''key''" "app_services sample_externals ''key''" "(''GET'', ''/'')" InfoHandler]
  by (simp add: routes_def)

section \<open>Endpoints\<close>

text \<open>
  C12: when the database answers and identifiers are fresh, \<open>POST /bookings/create\<close> is decided from
  the header of the request to the rows of the table: 401 without an accepted token, 403 for
  another role, 400 for a body or an identifier that cannot be read, 404, 409 or 500 by the state of
  the slot and the user, and otherwise 201 with the booking, which is then the only one added.  The
  times are those that the request reads from the clock: for the token, for the slot, and for the
  row.
\<close>

theorem create_request_decides:
  assumes "calm w" and "db_ok (store w)"
    and "gen w (gen_pos w) \<notin> bk_ID ` set (bookings (store w))"
    and "gen w (Suc (gen_pos w)) \<notin> ob_id ` set (outbox (store w))"
    and "chi_Find (map fst (routes L secret (app_services L secret))) (rq_Method r) (rq_Path r) =
      Some ((''POST'', ''/bookings/create''), params)"
  shows "let k = auth_reading r;
      (answer, new) = create_endpoint L (bearer_claims L secret r (reading w k)) r (store w) (reading w (k + 1))
        (gen w (gen_pos w)) (reading w (k + 2));
      run = NewRouter chi_Find L secret (app_services L secret) r w
    in fst run = Some answer \<and> bookings (store (snd run)) = bookings (store w) @ new"
  using create_request_decided [where chi_Find = chi_Find, OF assms] .

definition user_claims :: claims where
  "user_claims = \<lparr> ExpiresAt = 60 * Second, IssuedAt = 0, cl_UserID = dummyUserID, cl_Role = RoleUser \<rparr>"

definition user_request :: "string \<Rightarrow> string \<Rightarrow> jvalue option \<Rightarrow> request" where
  "user_request m path body = \<lparr> rq_Method = m, rq_Path = path,
     rq_Authorization = ''Bearer '' @ token_text ''HS256'' user_claims ''key'',
     rq_Query = [], rq_Params = [], rq_Body = body, rq_BodyBytes = 100, rq_UserID = None, rq_Role = None \<rparr>"

lemma user_request_claims:
  assumes "t < 60 * Second"
  shows "bearer_claims sample_externals ''key'' (user_request m path body) t = Some (dummyUserID, RoleUser)"
proof -
  have "token_read (token_text ''HS256'' user_claims ''key'') = Some (''HS256'', user_claims, ''key'')"
    by (rule token_read_text) (simp_all add: user_claims_def RoleUser_def MaxInt_def)
  moreover have "bearer_token (rq_Authorization (user_request m path body)) =
      Some (token_text ''HS256'' user_claims ''key'')"
    by (simp add: user_request_def bearer_token_def bearerPrefix_def HasPrefix_def ToLower_def lower_char_def char_of_def bit_0 token_text_def)
  ultimately show ?thesis using assms
    by (simp add: bearer_claims_def sample_externals_def hmac_key_def user_claims_def)
qed

lemma sample_reading [simp]: "reading (sample_world d) k = 0" "reading (later_world d) k = 0"
proof -
  have "elapsed k (sample_world d) = sample_world d" "elapsed k (later_world d) = later_world d"
    by (induction k) simp_all
  then show "reading (sample_world d) k = 0" "reading (later_world d) k = 0" by (simp_all add: reading_def)
qed

lemma sample_create_endpoint:
  "create_endpoint sample_externals (Some (dummyUserID, RoleUser))
     (user_request m path (Some (JvObject [(''slotId'', JvText (sample_uuid_String 7))]))) db_slots 0 100 0 =
   (\<lparr> rs_Status = 201, rs_Body = PBooking (toBookingResponse sample_externals sample_booking) \<rparr>, [sample_booking])"
proof -
  have "decode_body maxBodyBytes booking_fields \<lparr> bq_SlotID = '''', bq_CreateConferenceLink = False \<rparr>
      (user_request m path (Some (JvObject [(''slotId'', JvText (sample_uuid_String 7))]))) =
    Some \<lparr> bq_SlotID = sample_uuid_String 7, bq_CreateConferenceLink = False \<rparr>"
    by (simp add: decode_body_def user_request_def maxBodyBytes_def decode_struct_def booking_fields_def into_string_def lookup_field_def)
  moreover have "uuid_Parse sample_externals (sample_uuid_String 7) = Some 7"
    by (simp add: sample_externals_def sample_uuid_text)
  moreover have "create_answer db_slots 7 dummyUserID None 0 100 0 = Inr sample_booking"
    by (simp add: create_answer_def holder_def find_by_Cons sample_booking_def db_slots_def db_rooms_def migrated_def)
  ultimately show ?thesis by (simp add: create_endpoint_def)
qed

theorem create_request_decides_witness:
  "let r = user_request ''POST'' ''/bookings/create'' (Some (JvObject [(''slotId'', JvText (sample_uuid_String 7))]));
      run = NewRouter (\<lambda>_ _ _. Some ((''POST'', ''/bookings/create''), [])) sample_externals ''key''
        (app_services sample_externals ''key'') r (sample_world db_slots)
   in fst run = Some \<lparr> rs_Status = 201, rs_Body = PBooking (toBookingResponse sample_externals sample_booking) \<rparr> \<and>
      bookings (store (snd run)) = [sample_booking]"
  using create_request_decides [of "sample_world db_slots" "\<lambda>_ _ _. Some ((''POST'', ''/bookings/create''), [])"
      sample_externals "''key''"
      "user_request ''POST'' ''/bookings/create'' (Some (JvObject [(''slotId'', JvText (sample_uuid_String 7))]))" "[]"]
  by (simp add: user_request_claims sample_create_endpoint)

text \<open>
  What the API promises of \<open>POST /bookings/{bookingId}/cancel\<close>: who may cancel, what changes, and
  the answer; that a booking is somebody else's may be told or concealed.
\<close>

definition cancel_promise ::
    "externals \<Rightarrow> (uuid \<times> string) option \<Rightarrow> string \<Rightarrow> BookingDB \<Rightarrow> payload response \<Rightarrow> Booking list \<Rightarrow> bool" where
  "cancel_promise L who id_text db resp after \<longleftrightarrow>
    (case who of
       None \<Rightarrow> resp = \<lparr> rs_Status = 401, rs_Body = PText unauthorizedBody \<rparr> \<and> after = bookings db
     | Some (u, role) \<Rightarrow>
       if role \<noteq> RoleUser then resp = \<lparr> rs_Status = 403, rs_Body = PText forbiddenBody \<rparr> \<and> after = bookings db
       else case Option.bind (uuid_Parse L id_text) (\<lambda>i. find_by bk_ID i (bookings db)) of
         None \<Rightarrow> after = bookings db \<and>
           (if uuid_Parse L id_text = None then 400 \<le> rs_Status resp \<and> rs_Status resp < 500
            else resp = \<lparr> rs_Status = 404, rs_Body = PError BOOKING_NOT_FOUND ''booking not found'' \<rparr>)
       | Some b \<Rightarrow>
           if bk_UserID b = u
           then resp = \<lparr> rs_Status = 200, rs_Body = PBooking (toBookingResponse L (cancelled b)) \<rparr> \<and>
             after = update_where (\<lambda>x. bk_ID x = bk_ID b) cancelled (bookings db)
           else rs_Status resp \<in> {403, 404} \<and> after = bookings db)"

lemma cancel_endpoint_promise:
  "cancel_promise L who (get_param params ''bookingId'') db (fst (cancel_endpoint L who params db)) (snd (cancel_endpoint L who params db))"
proof -
  have "set_cancelled i bs = update_where (\<lambda>x. bk_ID x = i) cancelled bs" for i bs
    by (simp add: set_cancelled_def cancelled_def [abs_def])
  then show ?thesis
    by (auto simp: cancel_promise_def cancel_endpoint_def invalid_def error_answer_def dest!: find_by_Some
        split: option.split prod.split)
qed

text \<open>
  C13: when the database answers, \<open>POST /bookings/{bookingId}/cancel\<close> keeps this promise from the
  header of the request to the rows of the table: without an accepted token or with another role
  it is refused; a booking that does not exist is 404; the user's own booking is answered 200 as
  cancelled, also if it was before, and that row is the one that changes; and somebody else's
  booking is refused and stays as it is.
\<close>

theorem cancel_request_decides:
  assumes "calm w" and "db_ok (store w)" and "gen w (gen_pos w) \<notin> ob_id ` set (outbox (store w))"
    and "chi_Find (map fst (routes L secret (app_services L secret))) (rq_Method r) (rq_Path r) =
      Some ((''POST'', ''/bookings/{bookingId}/cancel''), params)"
  shows "let run = NewRouter chi_Find L secret (app_services L secret) r w
    in \<exists>resp. fst run = Some resp \<and>
      cancel_promise L (bearer_claims L secret r (reading w (auth_reading r))) (get_param params ''bookingId'') (store w)
        resp (bookings (store (snd run)))"
proof -
  let ?who = "bearer_claims L secret r (reading w (auth_reading r))"
  have "cancel_promise L ?who (get_param params ''bookingId'') (store w)
      (fst (cancel_endpoint L ?who params (store w))) (snd (cancel_endpoint L ?who params (store w)))"
    by (rule cancel_endpoint_promise)
  then show ?thesis using cancel_request_decided [where chi_Find = chi_Find, OF assms]
    by (auto simp: Let_def split: prod.splits)
qed

theorem cancel_request_decides_witness:
  "let r = user_request ''POST'' ''/bookings/100/cancel'' None;
      run = NewRouter (\<lambda>_ _ _. Some ((''POST'', ''/bookings/{bookingId}/cancel''), [(''bookingId'', sample_uuid_String 100)]))
        sample_externals ''key'' (app_services sample_externals ''key'') r (later_world db_booked)
   in fst run = Some \<lparr> rs_Status = 200, rs_Body = PBooking (toBookingResponse sample_externals (cancelled sample_booking)) \<rparr> \<and>
      bookings (store (snd run)) = [cancelled sample_booking]"
proof -
  let ?r = "user_request ''POST'' ''/bookings/100/cancel'' None"
  have "uuid_Parse sample_externals (sample_uuid_String 100) = Some 100"
    by (simp add: sample_externals_def sample_uuid_text)
  then have "cancel_promise sample_externals (Some (dummyUserID, RoleUser)) (sample_uuid_String 100) db_booked resp after \<longleftrightarrow>
      resp = \<lparr> rs_Status = 200, rs_Body = PBooking (toBookingResponse sample_externals (cancelled sample_booking)) \<rparr> \<and>
      after = [cancelled sample_booking]" for resp after
    by (simp add: cancel_promise_def find_by_Cons update_where_def)
  then show ?thesis
    using cancel_request_decides [of "later_world db_booked"
        "\<lambda>_ _ _. Some ((''POST'', ''/bookings/{bookingId}/cancel''), [(''bookingId'', sample_uuid_String 100)])"
        sample_externals "''key''" ?r "[(''bookingId'', sample_uuid_String 100)]"]
    by (auto simp: user_request_claims get_param_def Let_def)
qed

section \<open>Answers\<close>

text \<open>
  C27: the status, code and message of an error depend on nothing but the sentinel at its root,
  by the table of the API; an error without a sentinel is answered 500 with a fixed text.
\<close>

theorem error_is_mapped_by_root:
  "mapError err = (case root_sentinel err of
      None \<Rightarrow> (INTERNAL_ERROR, ''internal server error'', 500)
    | Some s \<Rightarrow> (fst (sentinel_status s), error_text s, snd (sentinel_status s)))"
  by (rule mapError_root)

definition reads_as :: "string \<Rightarrow> int \<Rightarrow> int \<Rightarrow> int \<Rightarrow> bool" where
  "reads_as v missing most n \<longleftrightarrow> (if v = '''' then n = missing else Atoi v = Some n \<and> 1 \<le> n \<and> n \<le> most)"

text \<open>
  C28: the pagination accepted by the handlers is exactly: a missing page is 1 and a missing
  page size 20, a given one is a decimal integer from 1 to 10000 and from 1 to 100.
\<close>

theorem pagination_is_exact:
  "parsePagination r = Inr (page, pageSize) \<longleftrightarrow>
     reads_as (get_param (rq_Query r) ''page'') 1 10000 page \<and>
     reads_as (get_param (rq_Query r) ''pageSize'') 20 100 pageSize"
  by (auto simp: parsePagination_def reads_as_def Let_def defaultPage_def defaultPageSize_def maxPage_def
      maxPageSize_def split: option.splits if_splits)

lemma foldl_constant: "(\<And>x. x \<in> set xs \<Longrightarrow> f x = c) \<Longrightarrow> foldl (\<lambda>a x. f x) c0 xs = (if xs = [] then c0 else c)"
  by (induction xs rule: rev_induct) auto

lemma listed_rows:
  assumes "ListBookings (pg_booking_deps L) page pageSize w = (Inr (bs, n), w')"
    and "1 \<le> page" "page \<le> maxPage" "1 \<le> pageSize" "pageSize \<le> maxPageSize"
  shows "bs = page_of (nat pageSize) (nat ((page - 1) * pageSize)) (by_created_desc (bookings (store w)))"
    and "n = (if bs = [] then 0 else int (length (bookings (store w))))"
proof -
  have pos: "0 \<le> pageSize" "0 \<le> (page - 1) * pageSize" using assms(2,4) by simp_all
  have "(page - 1) * pageSize \<le> 10000 * 100"
    using assms by (intro mult_mono) (simp_all add: maxPage_def maxPageSize_def)
  then have wrap: "wrap_int ((page - 1) * pageSize) = (page - 1) * pageSize"
    using pos by (intro wrap_int_id) (simp_all add: MinInt_def MaxInt_def)
  obtain rows where q: "select_page pageSize ((page - 1) * pageSize) (store w) = Inr rows"
    and bs: "bs = map fst rows" and n: "n = foldl (\<lambda>total row. snd row) 0 rows"
    using assms(1)
    by (auto simp: ListBookings_def ListBookings_repo_def wrap split: prod.splits sum.splits dest!: query_rows_Inr)
  let ?p = "page_of (nat pageSize) (nat ((page - 1) * pageSize)) (by_created_desc (bookings (store w)))"
  have rows: "rows = map (\<lambda>b. (b, int (length (bookings (store w))))) ?p"
    using q pos by (simp add: select_page_def)
  then show "bs = ?p" by (simp add: bs comp_def)
  have "n = (if rows = [] then 0 else int (length (bookings (store w))))"
    unfolding n by (rule foldl_constant) (auto simp: rows)
  then show "n = (if bs = [] then 0 else int (length (bookings (store w))))" by (simp add: bs)
qed

text \<open>
  C29: a page that is answered holds the rows of that page in the order of creation, newest
  first, no more than asked for, and the total is the number of all bookings, on the first page
  and on every page that has rows.
\<close>

theorem listed_page:
  assumes "ListBookings (pg_booking_deps L) page pageSize w = (Inr (bs, n), w')"
    and "1 \<le> page" "page \<le> maxPage" "1 \<le> pageSize" "pageSize \<le> maxPageSize"
  shows "bs = page_of (nat pageSize) (nat ((page - 1) * pageSize)) (by_created_desc (bookings (store w))) \<and>
    length bs \<le> nat pageSize \<and>
    (page = 1 \<or> bs \<noteq> [] \<longrightarrow> n = int (length (bookings (store w))))"
proof -
  have "bs = [] \<Longrightarrow> page = 1 \<Longrightarrow> bookings (store w) = []"
  proof -
    assume "bs = []" "page = 1"
    then have "by_created_desc (bookings (store w)) = []" using listed_rows(1) [OF assms] assms(4) by (simp add: page_of_def)
    then show "bookings (store w) = []"
      using length_sort [of "\<lambda>b. - bk_CreatedAt b" "bookings (store w)"] by (simp add: by_created_desc_def)
  qed
  then show ?thesis using listed_rows [OF assms] by (auto simp: length_page_of)
qed

theorem listed_page_witness:
  "fst (ListBookings (pg_booking_deps sample_externals) 1 20 (later_world db_booked)) = Inr ([sample_booking], 1)"
proof -
  obtain bs n w' where r: "ListBookings (pg_booking_deps sample_externals) 1 20 (later_world db_booked) = (Inr (bs, n), w')"
    by (simp add: ListBookings_def ListBookings_repo_def calm_query_rows select_page_def wrap_int_def)
  from listed_page [OF r] have "bs = [sample_booking] \<and> n = 1"
    by (simp add: maxPage_def maxPageSize_def page_of_def by_created_desc_def)
  with r show ?thesis by simp
qed

text \<open>Beyond the last row the total is lost.\<close>

lemma total_beyond_the_end:
  "fst (ListBookings (pg_booking_deps sample_externals) 2 20 (later_world db_booked)) = Inr ([], 0) \<and>
   length (bookings db_booked) = 1"
  by (simp add: ListBookings_def ListBookings_repo_def calm_query_rows select_page_def page_of_def by_created_desc_def wrap_int_def)

section \<open>Slots\<close>

text \<open>A time of day on a date.\<close>

definition at_time :: "time \<Rightarrow> time \<Rightarrow> time" where
  "at_time date t = Date (year date) (month date) (day date) (hour t) (minute t)"

text \<open>
  C20: for a schedule whose times parse, the loop ends and generates exactly the half hours
  from the start of the window: in order, inside the window, and so many that no other fits.
\<close>

theorem slots_are_the_grid:
  assumes "Parse_15_04 startTime = Some st" and "Parse_15_04 endTime = Some en"
  shows "\<exists>ss w'. generateSlots roomID date startTime endTime w = (Inr ss, w') \<and>
    map sl_StartAt ss = grid (at_time date st) (at_time date en) \<and>
    (\<forall>s \<in> set ss. sl_RoomID s = roomID \<and> sl_EndAt s = sl_StartAt s + slotDuration \<and>
       at_time date st \<le> sl_StartAt s \<and> sl_EndAt s \<le> at_time date en \<and> on_day date (sl_StartAt s)) \<and>
    (at_time date st \<le> at_time date en \<longrightarrow>
       at_time date en - (at_time date st + int (length ss) * slotDuration) < slotDuration)"
proof -
  define a b where "a = at_time date st" and "b = at_time date en"
  obtain ss w' where g: "generateSlots roomID date startTime endTime w = (Inr ss, w')"
    and ss: "ss = map (slot_at roomID (\<lambda>i. gen w (gen_pos w + i)) a) [0..<slot_count a b]"
    using generateSlots_Inr [OF assms(1,2), of roomID date w] unfolding a_def b_def at_time_def by blast
  have starts: "map sl_StartAt ss = grid a b" unfolding ss by (rule map_slot_at_starts)
  then have "length ss = length (grid a b)" by (metis length_map)
  moreover have "a \<le> sl_StartAt s \<and> sl_StartAt s + slotDuration \<le> b" if "s \<in> set ss" for s
    using that starts grid_bounds by (metis image_eqI list.set_map)
  ultimately show ?thesis
    using g starts generateSlots_spans [OF g] grid_complete [of a b]
    unfolding a_def [symmetric] b_def [symmetric] by auto
qed

lemma sample_times: "Parse_15_04 ''09:00'' = Some (Date 0 1 1 9 0)" "Parse_15_04 ''18:00'' = Some (Date 0 1 1 18 0)"
  by (simp_all add: Parse_15_04_def isDigit_def digit_val_def)

theorem slots_are_the_grid_witness:
  "\<exists>ss w'. generateSlots 100 0 ''09:00'' ''18:00'' (later_world db_slots) = (Inr ss, w')"
  using slots_are_the_grid [OF sample_times, of 100 0 "later_world db_slots"] by blast

text \<open>The sample room, open every day from one to two; its first half hour is booked.\<close>

definition sample_schedule :: ScheduleRow where
  "sample_schedule = \<lparr> sr_id = 300, sr_room_id = 100, sr_days_of_week = [1, 2, 3, 4, 5, 6, 7],
     sr_start_time = Date 0 1 1 1 0, sr_end_time = Date 0 1 1 2 0, sr_created_at = 0 \<rparr>"

definition db_sched :: BookingDB where "db_sched = db_booked\<lparr>schedules := [sample_schedule]\<rparr>"

definition second_slot :: Slot where
  "second_slot = \<lparr> sl_ID = 201, sl_RoomID = 100, sl_StartAt = Hour + 30 * Minute, sl_EndAt = 2 * Hour \<rparr>"

lemma db_sched_simps [simp]:
  "rooms db_sched = [sample_room]" "schedules db_sched = [sample_schedule]" "slots db_sched = [sample_slot]"
  "bookings db_sched = [sample_booking]"
  by (simp_all add: db_sched_def)

lemma db_ok_sched: "db_ok db_sched"
  using db_ok_samples(2) by (simp add: db_ok_defs db_sched_def sample_schedule_def Date_def)

lemma sample_open: "Parse_15_04 (to_char_HH24_MI (Date 0 1 1 1 0)) = Some (Date 0 1 1 1 0)"
    "Parse_15_04 (to_char_HH24_MI (Date 0 1 1 2 0)) = Some (Date 0 1 1 2 0)"
  by (rule Parse_to_char [of "''01:00''"], simp add: Parse_15_04_def isDigit_def digit_val_def)
    (rule Parse_to_char [of "''02:00''"], simp add: Parse_15_04_def isDigit_def digit_val_def)

lemma sample_window: "at_time 0 (Date 0 1 1 1 0) = Hour" "at_time 0 (Date 0 1 1 2 0) = 2 * Hour"
  unfolding at_time_def Date_in_day by (simp_all add: Date_fields)

lemma sample_grid: "grid Hour (2 * Hour) = [Hour, Hour + 30 * Minute]"
  by (simp add: grid_def slotDuration_def upt_rec)

lemma sample_generated:
  "generateSlots 100 0 (to_char_HH24_MI (Date 0 1 1 1 0)) (to_char_HH24_MI (Date 0 1 1 2 0)) (later_world db_sched) =
     (Inr [\<lparr> sl_ID = 200, sl_RoomID = 100, sl_StartAt = Hour, sl_EndAt = Hour + 30 * Minute \<rparr>, second_slot],
      (later_world db_sched)\<lparr>gen_pos := 102\<rparr>)"
  using generateSlots_Inr [OF sample_open, of 100 0 "later_world db_sched"] sample_window
  by (simp add: at_time_def slotDuration_def upt_rec slot_at_def second_slot_def)

lemma sample_listing:
  "ListAvailableSlots pg_slot_deps 100 0 (later_world db_sched) =
     (Inr [second_slot],
      (later_world db_sched)\<lparr>gen_pos := 102, store := db_sched\<lparr>slots := [sample_slot, second_slot]\<rparr>\<rparr>)"
proof -
  have "isDayInSchedule 0 (sr_days_of_week sample_schedule)"
    by (simp add: isDayInSchedule_def weekday_def sample_schedule_def)
  moreover have "Date (year 0) (month 0) (day 0) 0 0 = 0" "AddDays 0 1 = DayLength"
    using Date_midnight [of 0] AddDays_midnight [of 0 1] by simp_all
  ultimately show ?thesis
    by (simp add: ListAvailableSlots_def RoomExists_repo_def GetScheduleByRoomID_repo_def EnsureSlots_repo_def
        ListAvailableByRoomAndDate_repo_def calm_exec_stmt calm_query_rows query_def room_exists_def select_schedule_def
        find_by_Cons scan_schedule_def sample_schedule_def sample_generated ensure_slots_def slot_key_def
        select_available_def Let_def)
      (simp add: second_slot_def)
qed

text \<open>
  C30: the answer of \<open>ListAvailableSlots\<close> is sorted by start, has no slot twice, and consists
  of existing slots of the room on that day that no active booking holds.
\<close>

theorem offered_slots_are_free:
  assumes "ListAvailableSlots pg_slot_deps roomID date w = (Inr ss, w')" and "db_ok (store w)"
  shows "sorted (map sl_StartAt ss) \<and> distinct (map slot_key ss) \<and>
    (\<forall>s \<in> set ss. s \<in> set (slots (store w')) \<and> sl_RoomID s = roomID \<and>
       on_day date (sl_StartAt s) \<and> holder (store w') (sl_ID s) = None)"
  using pg_slots.answer_is_free_slots [OF assms] by (simp add: booked_def)

theorem offered_slots_are_free_witness:
  "holder (db_sched\<lparr>slots := [sample_slot, second_slot]\<rparr>) (sl_ID second_slot) = None \<and> on_day 0 (sl_StartAt second_slot)"
  using offered_slots_are_free [OF sample_listing] db_ok_sched by simp

text \<open>
  C31: nothing of the schedule is left out: on a working day each half hour of the window has
  a slot, which is offered unless an active booking holds it.
\<close>

theorem schedule_is_offered:
  assumes "ListAvailableSlots pg_slot_deps roomID date w = (Inr ss, w')" and "db_ok (store w)"
    and "sch \<in> set (schedules (store w))" "sr_room_id sch = roomID"
    and "isDayInSchedule date (sr_days_of_week sch)"
    and "Parse_15_04 (to_char_HH24_MI (sr_start_time sch)) = Some st"
    and "Parse_15_04 (to_char_HH24_MI (sr_end_time sch)) = Some en"
    and "t \<in> set (grid (at_time date st) (at_time date en))"
  shows "\<exists>s \<in> set (slots (store w')). sl_RoomID s = roomID \<and> sl_StartAt s = t \<and>
           (s \<in> set ss \<or> holder (store w') (sl_ID s) \<noteq> None)"
proof -
  have d: "find_by sr_room_id roomID (schedules (store w)) = Some sch"
    using assms(2-4) by (simp add: find_by_iff db_ok_defs)
  obtain w1 where ex: "dep_RoomExists pg_slot_deps roomID w = (Inr True, w1)" and s1: "store w1 = store w"
    using assms(1) by (cases rule: ListAvailableSlots_InrE) (auto dest: catalog_reads_store(1))
  have "\<exists>w2. dep_GetScheduleByRoomID pg_slot_deps roomID w1 = (Inr (scan_schedule sch), w2)"
    using assms(1)
  proof (cases rule: ListAvailableSlots_InrE)
    case (no_schedule e w1')
    then have "GetScheduleByRoomID_repo roomID w1 = (Inl e, w')" using ex by simp
    with no_schedule(3) d s1 show ?thesis
      by (auto simp: GetScheduleByRoomID_repo_def select_schedule_def errors_Is_root
          split: prod.splits sum.splits if_splits elim!: exec_stmt_InlE)
  next
    case (day_off sch' w1')
    then show ?thesis using ex d s1
      by (auto simp: GetScheduleByRoomID_repo_def select_schedule_def
          split: prod.splits sum.splits if_splits elim!: exec_stmt_InrE)
  next
    case (working_day sch' w1' w2 gs w3 u w4)
    then show ?thesis using ex d s1
      by (auto simp: GetScheduleByRoomID_repo_def select_schedule_def
          split: prod.splits sum.splits if_splits elim!: exec_stmt_InrE)
  qed
  then obtain w2 where gs: "dep_GetScheduleByRoomID pg_slot_deps roomID w1 = (Inr (scan_schedule sch), w2)" ..
  show ?thesis
    using pg_slots.grid_is_offered [OF assms(1,2) ex gs] assms(5-8)
    by (simp add: scan_schedule_def booked_def at_time_def)
qed

theorem schedule_is_offered_witness:
  "\<exists>s \<in> set [sample_slot, second_slot]. sl_RoomID s = 100 \<and> sl_StartAt s = Hour + 30 * Minute"
  using schedule_is_offered [OF sample_listing _ _ _ _ , of sample_schedule "Date 0 1 1 1 0" "Date 0 1 1 2 0" "Hour + 30 * Minute"]
    db_ok_sched sample_open
  by (simp add: sample_schedule_def sample_window sample_grid [simplified] isDayInSchedule_def weekday_def)

text \<open>
  C32: a call of \<open>ListAvailableSlots\<close>, answered or not, keeps every slot row and every booking
  and adds at most slots of this room and day that were not there.
\<close>

theorem listing_only_adds_slots:
  assumes "ListAvailableSlots pg_slot_deps roomID date w = (r, w')" and "db_ok (store w)"
  shows "db_ok (store w') \<and> bookings (store w') = bookings (store w) \<and>
    (\<exists>new. slots (store w') = slots (store w) @ new \<and>
       slot_key ` set new \<inter> slot_key ` set (slots (store w)) = {} \<and>
       (\<forall>s \<in> set new. sl_RoomID s = roomID \<and> on_day date (sl_StartAt s) \<and>
                       sl_EndAt s = sl_StartAt s + slotDuration))"
  using pg_slots.table_grows [OF assms] ListAvailableSlots_frame [OF assms(1)] by simp

theorem listing_only_adds_slots_witness: "db_ok (db_sched\<lparr>slots := [sample_slot, second_slot]\<rparr>)"
  using listing_only_adds_slots [OF sample_listing] db_ok_sched by simp

section \<open>Schedules\<close>

text \<open>
  C33: with a readable room identifier and body, the schedule handler calls its service exactly
  for the valid schedules (days from 1 to 7 without repetition, times on half hours, the end
  after the start), with what was sent, and answers 400 for all others without calling it.
\<close>

theorem schedule_is_validated:
  assumes "uuid_Parse L (get_param (rq_Params r) ''roomId'') = Some roomID"
    and "decode_body maxBodyBytes schedule_fields
        \<lparr> sq_DaysOfWeek = [], sq_StartTime = '''', sq_EndTime = '''' \<rparr> r = Some req"
  shows "if valid_schedule (sq_DaysOfWeek req) (sq_StartTime req) (sq_EndTime req)
    then createSchedule_handler L svc r w =
      (case sv_CreateSchedule svc roomID (sq_DaysOfWeek req) (sq_StartTime req) (sq_EndTime req) w of
         (Inl err, w1) \<Rightarrow> respondError err w1
       | (Inr schedule, w1) \<Rightarrow> answer 201 (PSchedule (toScheduleResponse L schedule)) w1)
    else (\<exists>message. createSchedule_handler L svc r w = answer 400 (PError INVALID_REQUEST message) w)"
  by (rule createSchedule_decides [OF assms])

definition sample_request :: request where
  "sample_request = \<lparr> rq_Method = ''POST'', rq_Path = '''', rq_Authorization = '''', rq_Query = [],
     rq_Params = [(''roomId'', sample_uuid_String 100)],
     rq_Body = Some (JvObject [(''daysOfWeek'', JvArray [JvNumber (Some 1), JvNumber (Some 1)]),
       (''startTime'', JvText ''09:00''), (''endTime'', JvText ''18:00'')]),
     rq_BodyBytes = 60, rq_UserID = None, rq_Role = None \<rparr>"

lemma sample_request_decodes:
  "decode_body maxBodyBytes schedule_fields \<lparr> sq_DaysOfWeek = [], sq_StartTime = '''', sq_EndTime = '''' \<rparr>
     sample_request = Some \<lparr> sq_DaysOfWeek = [1, 1], sq_StartTime = ''09:00'', sq_EndTime = ''18:00'' \<rparr>"
  by (simp add: decode_body_def maxBodyBytes_def sample_request_def decode_struct_def lookup_field_def
      schedule_fields_def into_int_list_def into_string_def json_int_def in_int_range_def MinInt_def MaxInt_def)

theorem schedule_is_validated_witness:
  "\<exists>message. createSchedule_handler sample_externals (app_services sample_externals ''key'') sample_request (later_world db_slots) =
     answer 400 (PError INVALID_REQUEST message) (later_world db_slots)"
  using schedule_is_validated [OF _ sample_request_decodes, of sample_externals 100 "app_services sample_externals ''key''"
      "later_world db_slots"]
  by (simp add: valid_schedule_def sample_externals_def sample_request_def get_param_def sample_uuid_text)

text \<open>
  C34: a valid schedule is refused by the database only because the room has one already or
  does not exist, and both are reported as such; once stored it is read back with the days and
  times that were sent, and on every working day it generates at least one slot, the slots
  following each other from the start of the window to its very end.
\<close>

theorem valid_schedule_is_usable:
  assumes "valid_schedule days st en" and "sid \<notin> sr_id ` set (schedules db)"
  shows "(case insert_schedule now sid roomID (map int32 days) st en db of
      Inl e \<Rightarrow> (roomID \<in> sr_room_id ` set (schedules db) \<and> errors_Is (create_schedule_error e) ErrScheduleExists) \<or>
               (roomID \<notin> rm_ID ` set (rooms db) \<and> errors_Is (create_schedule_error e) ErrRoomNotFound)
    | Inr (row, db') \<Rightarrow> sc_DaysOfWeek (scan_schedule row) = days \<and>
               Parse_15_04 (sc_StartTime (scan_schedule row)) = Parse_15_04 st \<and>
               Parse_15_04 (sc_EndTime (scan_schedule row)) = Parse_15_04 en) \<and>
    (\<exists>a n ids w'. 0 < n \<and> generateSlots roomID date st en w = (Inr (map (slot_at roomID ids a) [0..<n]), w') \<and>
       (\<exists>s e. Parse_15_04 st = Some s \<and> Parse_15_04 en = Some e \<and>
          a = at_time date s \<and> a + int n * slotDuration = at_time date e))"
  using valid_schedule_inserts [OF assms] generateSlots_valid [OF assms(1)] by (simp add: at_time_def)

theorem valid_schedule_is_usable_witness:
  "\<exists>a n ids w'. 0 < n \<and>
     generateSlots 100 0 ''09:00'' ''18:00'' (later_world db_slots) = (Inr (map (slot_at 100 ids a) [0..<n]), w')"
proof -
  have "valid_schedule [1, 2, 3, 4, 5] ''09:00'' ''18:00''"
    by (simp add: valid_schedule_def sample_times Date_fields) (simp add: Date_def)
  from valid_schedule_is_usable [where sid = 1 and db = db_slots and roomID = 100 and date = 0 and now = 0
      and w = "later_world db_slots", OF this, THEN conjunct2] show ?thesis by auto
qed

section \<open>Authentication\<close>

text \<open>
  C35: a token made by \<open>GenerateToken\<close> is read back as the same user and role with the same
  secret until its expiry, which is a day after it was made cut to seconds, and refused from
  then on.
\<close>

theorem token_roundtrip:
  assumes "jwt_ok L" and "GenerateToken L u role secret w = (Inr tok, w')"
  shows "\<exists>expiry. fst (time_Now w) + tokenTTL - Second < expiry \<and> expiry \<le> fst (time_Now w) + tokenTTL \<and>
    (\<forall>v :: 'd world. outcome (fst (ParseToken L tok secret v)) =
       (if fst (time_Now v) < expiry then Inr (u, role) else Inl None))"
  using token_lifetime [OF assms(1), of "fst (time_Now w)"]
  by (intro exI [of _ "jwt_NewNumericDate L (fst (time_Now w) + tokenTTL)"])
    (simp add: generated_token_parses [OF assms])

lemma sample_token:
  "\<exists>tok. GenerateToken sample_externals dummyUserID RoleUser ''key'' (later_world db_slots) = (Inr tok, later_world db_slots)"
proof -
  have "tokenTTL - tokenTTL mod Second = tokenTTL" by (simp add: tokenTTL_def)
  moreover have "token_read (token_text ''HS256'' \<lparr> ExpiresAt = tokenTTL, IssuedAt = 0, cl_UserID = dummyUserID,
      cl_Role = RoleUser \<rparr> ''key'') = Some (''HS256'', \<lparr> ExpiresAt = tokenTTL, IssuedAt = 0, cl_UserID = dummyUserID,
      cl_Role = RoleUser \<rparr>, ''key'')"
    by (rule token_read_text) (simp_all add: tokenTTL_def MaxInt_def RoleUser_def)
  ultimately show ?thesis by (simp add: GenerateToken_def sample_externals_def Let_def)
qed

theorem token_roundtrip_witness:
  "\<exists>tok. GenerateToken sample_externals dummyUserID RoleUser ''key'' (later_world db_slots) = (Inr tok, later_world db_slots) \<and>
     outcome (fst (ParseToken sample_externals tok ''key'' (later_world db_slots))) = Inr (dummyUserID, RoleUser)"
proof -
  obtain tok where tok: "GenerateToken sample_externals dummyUserID RoleUser ''key'' (later_world db_slots) =
      (Inr tok, later_world db_slots)" using sample_token by blast
  from token_roundtrip [OF sample_jwt_ok tok] obtain expiry where "tokenTTL - Second < expiry"
    and p: "\<forall>v :: BookingDB world. outcome (fst (ParseToken sample_externals tok ''key'' v)) =
       (if fst (time_Now v) < expiry then Inr (dummyUserID, RoleUser) else Inl None)" by auto
  then show ?thesis using tok spec [OF p, of "later_world db_slots"] by (auto simp: tokenTTL_def)
qed

text \<open>
  C36: a token that \<open>Login\<close> answers belongs to the user with that email whose stored hash
  matches the password, and is read back as that user and that user's role.
\<close>

theorem login_is_the_user:
  assumes "jwt_ok L" and "Login pg_user_deps L secret email password w = (Inr tok, w')"
  shows "\<exists>u \<in> set (users (store w)). us_Email u = email \<and>
    (\<exists>h. us_Password u = Some h \<and> bcrypt_CompareHashAndPassword L h password = BcryptMatch) \<and>
    (\<exists>t. \<forall>v. outcome (fst (ParseToken L tok secret v)) =
       (if fst (time_Now v) < jwt_NewNumericDate L (t + tokenTTL) then Inr (us_ID u, us_Role u) else Inl None))"
  by (rule pg_users.login_identifies [OF assms])

definition sample_user :: User where
  "sample_user = \<lparr> us_ID = 201, us_Email = ''ann@example.com'', us_Password = Some ''bcrypt:secret'',
     us_Role = RoleUser, us_CreatedAt = 0 \<rparr>"

definition db_user :: BookingDB where "db_user = db_slots\<lparr>users := users db_slots @ [sample_user]\<rparr>"

lemma sample_register:
  "Register pg_user_deps sample_externals ''ann@example.com'' ''secret'' RoleUser (later_world db_slots) =
     (Inr sample_user, (later_world db_user)\<lparr>gen_pos := 102\<rparr>)"
  by (simp add: Register_def CreateUser_repo_def uuid_New_def later_world_def sample_world_def time_Now_def exec_stmt_def
      next_fault_def insert_user_def db_user_def sample_user_def sample_db_defs sample_externals_def Let_def)

lemma db_ok_user: "db_ok db_user"
  using db_ok_samples(1) by (auto simp: db_ok_defs db_user_def sample_user_def sample_db_defs)

lemma sample_login:
  "\<exists>tok w'. Login pg_user_deps sample_externals ''key'' ''ann@example.com'' ''secret'' (later_world db_user) = (Inr tok, w')"
proof -
  have f: "find_by us_Email ''ann@example.com'' (users db_user) = Some sample_user"
    by (simp add: db_user_def sample_user_def sample_db_defs find_by_Cons)
  have "jwt_SignedString sample_externals ''HS256'' \<lparr> ExpiresAt = tokenTTL, IssuedAt = 0, cl_UserID = 201,
      cl_Role = RoleUser \<rparr> ''key'' \<noteq> None"
    by (simp add: sample_externals_def token_read_text tokenTTL_def MaxInt_def RoleUser_def)
  moreover have "bcrypt_CompareHashAndPassword sample_externals ''bcrypt:secret'' ''secret'' = BcryptMatch"
    "jwt_NewNumericDate sample_externals tokenTTL = tokenTTL" "jwt_NewNumericDate sample_externals 0 = 0"
    by (simp_all add: sample_externals_def tokenTTL_def)
  ultimately show ?thesis
    by (auto simp: Login_def GetUserByEmail_repo_def calm_exec_stmt query_def select_user_def f GenerateToken_def
        sample_user_def Let_def)
qed

theorem login_is_the_user_witness:
  "\<exists>tok w'. Login pg_user_deps sample_externals ''key'' ''ann@example.com'' ''secret'' (later_world db_user) = (Inr tok, w') \<and>
     (\<exists>u \<in> set (users db_user). us_Email u = ''ann@example.com'')"
proof -
  have "\<exists>tok w'. Login pg_user_deps sample_externals ''key'' ''ann@example.com'' ''secret'' (later_world db_user) = (Inr tok, w')"
    using sample_login by blast
  then obtain tok w' where r: "Login pg_user_deps sample_externals ''key'' ''ann@example.com'' ''secret'' (later_world db_user) =
      (Inr tok, w')" by blast
  from login_is_the_user [OF sample_jwt_ok r] have "\<exists>u \<in> set (users db_user). us_Email u = ''ann@example.com''" by auto
  with r show ?thesis by blast
qed

text \<open>
  A user who has registered and is still in the table is never told that the credentials
  are invalid when logging in with the password of the registration.
\<close>

theorem registered_user_can_login:
  assumes "bcrypt_ok L" and "Register pg_user_deps L email password role w = (Inr user, w')"
    and "user \<in> set (users (store v))" and "db_ok (store v)"
  shows "outcome (fst (Login pg_user_deps L secret email password v)) \<noteq> Inl (Some ErrInvalidCredentials)"
  by (rule pg_users.registered_can_login [OF assms])

theorem registered_user_can_login_witness:
  "outcome (fst (Login pg_user_deps sample_externals ''key'' ''ann@example.com'' ''secret'' (later_world db_user))) \<noteq>
     Inl (Some ErrInvalidCredentials)"
  using registered_user_can_login [OF sample_bcrypt_ok sample_register, of "later_world db_user" "''key''"] db_ok_user
  by (simp add: db_user_def)

section \<open>Dates\<close>

lemma Format_date_day: "s div DayLength = t div DayLength \<Longrightarrow> Format_date s = Format_date t"
  by (simp add: Format_date_def year_def month_def day_def)

text \<open>
  Every slot in an answer to a request for a date starts on that date: its text begins
  with the date as the request wrote it.
\<close>

theorem slots_are_on_the_date:
  assumes "listSlots_handler L (app_services L secret) r w = (Some resp, w')" and "db_ok (store w)"
    and "rs_Body resp = PSlots xs" and "x \<in> set xs"
  shows "HasPrefix (lr_Start x) (get_param (rq_Query r) ''date'')"
proof -
  obtain roomID date ss w1 where date: "Parse_2006_01_02 (get_param (rq_Query r) ''date'') = Some date"
    and run: "ListAvailableSlots pg_slot_deps roomID date w = (Inr ss, w1)" and xs: "xs = map (toSlotResponse L) ss"
    using assms(1,3)
    by (auto simp: listSlots_handler_def Let_def app_services_def bad_request_def respondError_def
        split: option.splits if_splits sum.splits prod.splits)
  obtain s where s: "s \<in> set ss" "lr_Start x = Format_RFC3339 (sl_StartAt s)"
    using assms(4) by (auto simp: xs toSlotResponse_def)
  have "on_day date (sl_StartAt s)" using pg_slots.answer_is_free_slots [OF run assms(2)] s(1) by blast
  then have "Format_date (sl_StartAt s) = get_param (rq_Query r) ''date''"
    using Format_date_day [of "sl_StartAt s" date] Format_Parse_date [OF date] by (simp add: on_day_def)
  then show ?thesis by (simp add: s(2) Format_RFC3339_def HasPrefix_def)
qed

definition slots_request :: request where
  "slots_request = sample_request\<lparr>rq_Method := ''GET'', rq_Query := [(''date'', ''1970-01-01'')]\<rparr>"

lemma sample_date: "Parse_2006_01_02 ''1970-01-01'' = Some 0"
  by (simp add: Parse_2006_01_02_def isDigit_def digit_val_def digits_value_def Date_def dateDays_def
      daysBeforeYear_def validDate_def)

theorem slots_are_on_the_date_witness:
  "\<exists>resp w'. listSlots_handler sample_externals (app_services sample_externals ''key'') slots_request (later_world db_sched) =
     (Some resp, w') \<and> HasPrefix (lr_Start (toSlotResponse sample_externals second_slot)) ''1970-01-01''"
proof -
  have r: "listSlots_handler sample_externals (app_services sample_externals ''key'') slots_request (later_world db_sched) =
      (Some \<lparr> rs_Status = 200, rs_Body = PSlots [toSlotResponse sample_externals second_slot] \<rparr>,
       snd (ListAvailableSlots pg_slot_deps 100 0 (later_world db_sched)))"
    by (simp add: listSlots_handler_def app_services_def slots_request_def sample_request_def get_param_def
        sample_externals_def sample_uuid_text sample_date sample_listing)
  from slots_are_on_the_date [OF r, of "[toSlotResponse sample_externals second_slot]"
      "toSlotResponse sample_externals second_slot"] db_ok_sched r show ?thesis
    by (simp add: slots_request_def get_param_def)
qed

lemma iso_day: "(if (m::int) mod 7 = 0 then 7 else m mod 7) = (m - 1) mod 7 + 1"
  by presburger

lemma week_unique:
  fixes x y m :: int
  assumes "0 \<le> x" "x < 7" "0 \<le> y" "y < 7" "(m + x) mod 7 = (m + y) mod 7"
  shows "x = y"
proof -
  have "7 dvd x - y" using assms(5) by (simp add: mod_eq_dvd_iff)
  then show ?thesis using assms(1-4) by presburger
qed

lemma week_hit:
  fixes m d :: int
  assumes "1 \<le> d" "d \<le> 7"
  shows "(m + (d - 1 - m) mod 7) mod 7 = d - 1"
  using assms by (simp add: mod_add_right_eq)

lemma isDayInSchedule_single: "isDayInSchedule date [d] \<longleftrightarrow> (date div DayLength + 3) mod 7 + 1 = d"
  using iso_day [of "date div DayLength + 4"] by (auto simp: isDayInSchedule_def weekday_def Let_def ac_simps)

text \<open>
  The day numbers of a schedule are those of ISO 8601: in any seven days each number from
  1 to 7 names exactly one, and the first of January 1970 was a Thursday, day 4.
\<close>

theorem day_numbers_are_iso:
  "(1 \<le> d \<and> d \<le> 7 \<longleftrightarrow> (\<exists>!k. k < 7 \<and> isDayInSchedule (date + int k * DayLength) [d])) \<and>
   isDayInSchedule 0 [4]"
proof -
  define m where "m = date div DayLength + 3"
  have day: "isDayInSchedule (date + int k * DayLength) [d] \<longleftrightarrow> (m + int k) mod 7 = d - 1" for k
    unfolding isDayInSchedule_single m_def by (auto simp: ac_simps)
  let ?k = "nat ((d - 1 - m) mod 7)"
  have k: "int ?k = (d - 1 - m) mod 7" "?k < 7" by simp_all
  have "\<exists>!k. k < 7 \<and> isDayInSchedule (date + int k * DayLength) [d]" if d: "1 \<le> d" "d \<le> 7"
  proof (rule ex1I [of _ ?k])
    show "?k < 7 \<and> isDayInSchedule (date + int ?k * DayLength) [d]"
      unfolding day using week_hit [OF d, of m] k by metis
  next
    fix j
    assume j: "j < 7 \<and> isDayInSchedule (date + int j * DayLength) [d]"
    then have "(m + int j) mod 7 = (m + int ?k) mod 7"
      unfolding day using week_hit [OF d, of m] k by metis
    then show "j = ?k" using week_unique [of "int j" "int ?k" m] j k(2) by linarith
  qed
  moreover have "1 \<le> d \<and> d \<le> 7" if "isDayInSchedule (date + int j * DayLength) [d]" for j
  proof -
    have "0 \<le> (m + int j) mod 7" "(m + int j) mod 7 < 7" by simp_all
    then show ?thesis using that unfolding day by linarith
  qed
  moreover have "isDayInSchedule 0 [4]" by (simp add: isDayInSchedule_single)
  ultimately show ?thesis by blast
qed

section \<open>The outbox relay\<close>

text \<open>
  When the database and Kafka answer before the deadline, the last pass of the relay
  writes every unsent row to the topic, oldest first and each once, and leaves none unsent.
\<close>

theorem drain_sends_everything:
  assumes "calm w" "ticks w = []" "write_script k = []" "clock w < deadline"
    and "distinct (map ob_id (outbox (store w)))"
  shows "\<exists>w'. drain nobody deadline k w =
       (k\<lparr>topic := topic k @ map row_message (unsent_in_order (store w))\<rparr>, w') \<and>
     unsent_in_order (store w') = []"
  by (rule drain_complete [OF assms])

theorem drain_sends_everything_witness:
  "\<exists>k' w'. drain nobody 1 \<lparr> topic = [], write_script = [] \<rparr> (sample_world db_booked) = (k', w') \<and>
     length (topic k') = 1 \<and> unsent_in_order (store w') = []"
  using drain_sends_everything [of "sample_world db_booked" "\<lparr> topic = [], write_script = [] \<rparr>" 1]
  by (auto simp: unsent_in_order_def db_booked_def unsent_def)

text \<open>
  Whatever fails, a batch only adds to the topic, and if it changes the table then the
  message of every row of the batch was accepted, the rows were those oldest first, and exactly
  they are no longer unsent.
\<close>

theorem marked_rows_were_published:
  assumes "processBatch locked k w = (n, k', w')"
  shows "topic_grows k k' \<and>
    (store w' \<noteq> store w \<longrightarrow>
       accepted k (map row_message (pending locked (store w))) k' \<and>
       sorted (map ob_created_at (pending locked (store w))) \<and>
       filter unsent (outbox (store w')) =
         filter (\<lambda>o1. unsent o1 \<and> ob_id o1 \<notin> ob_id ` set (pending locked (store w))) (outbox (store w)))"
  using processBatch_topic(1) [OF assms] processBatch_accepted [OF assms] processBatch_effect [OF assms] sorted_pending [of locked "store w"]
    unsent_after_mark by blast

theorem marked_rows_were_published_witness:
  "\<exists>n k' w'. processBatch nobody \<lparr> topic = [], write_script = [([\<lambda>_. True], Some ''broker down'')] \<rparr> (sample_world db_booked) =
     (n, k', w') \<and> topic_grows \<lparr> topic = [], write_script = [([\<lambda>_. True], Some ''broker down'')] \<rparr> k'"
proof -
  obtain n k' w' where r: "processBatch nobody \<lparr> topic = [], write_script = [([\<lambda>_. True], Some ''broker down'')] \<rparr>
      (sample_world db_booked) = (n, k', w')" by (metis prod_cases3)
  from marked_rows_were_published [OF r] r show ?thesis by blast
qed

text \<open>
  The outbox delivers at least once and invents nothing: after any calls of the service and
  any batches of the relay, whatever failed, every row that is marked as sent has its message in
  the topic, and every message of the topic is that of a row.
\<close>

theorem outbox_delivers_at_least_once:
  assumes "publishing L db ms"
  shows "(\<forall>o1 \<in> set (outbox db). ob_sent_at o1 = None \<or> row_message o1 \<in> set ms) \<and>
    set ms \<subseteq> row_message ` set (outbox db)"
  using publishing_delivers [OF assms] by (auto simp: outbox_delivers_def unsent_def)

theorem outbox_delivers_at_least_once_witness:
  "\<exists>db ms. publishing sample_externals db ms \<and> length ms = 1 \<and> set ms \<subseteq> row_message ` set (outbox db)"
proof -
  let ?k = "\<lparr> topic = [], write_script = [] \<rparr>"
  obtain k' w' where d: "drain nobody 1 ?k (sample_world db_booked) = (k', w')" and l: "length (topic k') = 1"
    using drain_complete [of "sample_world db_booked" ?k 1] by (auto simp: unsent_in_order_def db_booked_def unsent_def)
  have p: "publishing sample_externals (store w') (topic k')"
    by (rule drain_publishing [OF d]) (simp add: publishing_samples)
  from outbox_delivers_at_least_once [OF p] p l show ?thesis by blast
qed

text \<open>
  C37: a batch that reports records sent leaves strictly fewer unsent, so the last pass of the
  relay, which repeats while records are sent, ends whatever the database and Kafka do.
\<close>

theorem batch_makes_progress:
  assumes "processBatch locked k w = (n, k', w')" and "0 < n"
  shows "backlog (store w') < backlog (store w)"
  by (rule processBatch_progress [OF assms])

theorem batch_makes_progress_witness:
  "\<exists>db'. backlog db' < backlog db_booked"
proof -
  have p: "pending nobody db_booked \<noteq> []" by (simp add: pending_empty db_booked_def unsent_def)
  then obtain k' w' where r: "processBatch nobody \<lparr> topic = [], write_script = [] \<rparr> (sample_world db_booked) =
      (length (pending nobody db_booked), k', w')"
    using calm_processBatch [of "sample_world db_booked" "\<lparr> topic = [], write_script = [] \<rparr>"] by simp
  from batch_makes_progress [OF r] p show ?thesis by auto
qed

end
