(* ===== verification/Typing.thy ===== *)
theory Typing
  imports BookingAccess BookingStore
begin

text \<open>
  What the rows of the booking database mean beyond the constraints of its schema, because of
  what the handlers and services check before they write: rooms have names, schedules have days
  of the week and half hours, and every slot is one of the half hours of the schedule of its
  room.  The calls of the repositories with the arguments that the services give them are a
  step relation; requests are sequences of such steps, and between them the calls of other
  requests and of the relay may come in any order.
\<close>

section \<open>Types of rows\<close>

definition room_typed :: "Room \<Rightarrow> bool" where
  "room_typed r \<longleftrightarrow> rm_Name r \<noteq> '''' \<and> pred_option (\<lambda>n. 1 \<le> n) (rm_Capacity r)"

text \<open>A time of day is one that the text of a \<open>TIME\<close> column can be read back as.\<close>

definition time_of_day_typed :: "time \<Rightarrow> bool" where
  "time_of_day_typed t \<longleftrightarrow> Parse_15_04 (to_char_HH24_MI t) = Some t \<and> minute t mod 30 = 0"

definition schedule_typed :: "ScheduleRow \<Rightarrow> bool" where
  "schedule_typed s \<longleftrightarrow> sr_days_of_week s \<noteq> [] \<and> distinct (sr_days_of_week s) \<and> set (sr_days_of_week s) \<subseteq> {1..7} \<and>
     time_of_day_typed (sr_start_time s) \<and> time_of_day_typed (sr_end_time s) \<and> sr_start_time s < sr_end_time s"

text \<open>The time of day of a schedule on the day of an instant.\<close>

definition on_date :: "time \<Rightarrow> time \<Rightarrow> time" where
  "on_date t tod = Date (year t) (month t) (day t) (hour tod) (minute tod)"

definition slot_typed :: "ScheduleRow list \<Rightarrow> Slot \<Rightarrow> bool" where
  "slot_typed ss s \<longleftrightarrow> sl_EndAt s = sl_StartAt s + slotDuration \<and>
     (\<exists>sch \<in> set ss. sr_room_id sch = sl_RoomID s \<and> isDayInSchedule (sl_StartAt s) (sr_days_of_week sch) \<and>
        on_date (sl_StartAt s) (sr_start_time sch) \<le> sl_StartAt s \<and>
        sl_EndAt s \<le> on_date (sl_StartAt s) (sr_end_time sch) \<and>
        (sl_StartAt s - on_date (sl_StartAt s) (sr_start_time sch)) mod slotDuration = 0)"

definition db_typed :: "BookingDB \<Rightarrow> bool" where
  "db_typed db \<longleftrightarrow> list_all room_typed (rooms db) \<and> list_all schedule_typed (schedules db) \<and>
     list_all (slot_typed (schedules db)) (slots db)"

section \<open>The calls that services make\<close>

inductive typed_call :: "externals \<Rightarrow> BookingDB \<Rightarrow> BookingDB \<Rightarrow> bool" for L :: externals where
  create_booking: "CreateBooking_repo L slotID userID w = (r, w') \<Longrightarrow> typed_call L (store w) (store w')"
| cancel_booking: "CancelBooking_repo L bid userID w = (r, w') \<Longrightarrow> typed_call L (store w) (store w')"
| update_link: "UpdateConferenceLink_repo bid link w = (r2, w') \<Longrightarrow> typed_call L (store w) (store w')"
| create_room: "name \<noteq> '''' \<Longrightarrow> pred_option (\<lambda>n. 1 \<le> n) c \<Longrightarrow> CreateRoom_repo name d c w = (r3, w') \<Longrightarrow>
    typed_call L (store w) (store w')"
| create_schedule: "valid_schedule days st en \<Longrightarrow> CreateSchedule_repo roomID days st en w = (r4, w') \<Longrightarrow>
    typed_call L (store w) (store w')"
| create_user: "Role_Valid role \<Longrightarrow> CreateUser_repo email h role w = (r5, w') \<Longrightarrow> typed_call L (store w) (store w')"
| ensure: "sch \<in> set (schedules (store w)) \<Longrightarrow> isDayInSchedule date (sr_days_of_week sch) \<Longrightarrow>
    generateSlots (sr_room_id sch) date (sc_StartTime (scan_schedule sch)) (sc_EndTime (scan_schedule sch))
      (v :: BookingDB world) = (Inr ss, v') \<Longrightarrow>
    EnsureSlots_repo ss w = (r6, w') \<Longrightarrow> typed_call L (store w) (store w')"
| relay: "processBatch locked k w = (n, k', w') \<Longrightarrow> typed_call L (store w) (store w')"

lemma typed_call_store_step: "typed_call L db db' \<Longrightarrow> store_step L db db'"
  by (induction rule: typed_call.induct) (blast intro: store_step.intros service_step.intros)+

section \<open>The calls keep the types\<close>

lemma on_date_same_day: "on_day t u \<Longrightarrow> on_date t tod = on_date u tod"
proof -
  assume "on_day t u"
  then have "t - t mod DayLength = u - u mod DayLength" by (simp only: on_day_def minus_mod_eq_mult_div)
  then show ?thesis by (simp only: on_date_def Date_in_day)
qed

lemma isDayInSchedule_same_day: "on_day t u \<Longrightarrow> isDayInSchedule t days = isDayInSchedule u days"
  by (simp only: on_day_def isDayInSchedule_def weekday_def)

lemma generated_slots_typed:
  assumes sch: "sch \<in> set ss" "schedule_typed sch" and day: "isDayInSchedule date (sr_days_of_week sch)"
    and g: "generateSlots (sr_room_id sch) date (sc_StartTime (scan_schedule sch)) (sc_EndTime (scan_schedule sch)) v = (Inr gs, v')"
    and s: "s \<in> set gs"
  shows "slot_typed ss s"
proof -
  have p: "Parse_15_04 (sc_StartTime (scan_schedule sch)) = Some (sr_start_time sch)"
    "Parse_15_04 (sc_EndTime (scan_schedule sch)) = Some (sr_end_time sch)"
    using sch(2) by (simp_all add: schedule_typed_def time_of_day_typed_def scan_schedule_def)
  let ?a = "on_date date (sr_start_time sch)" and ?b = "on_date date (sr_end_time sch)"
  have gs: "gs = map (slot_at (sr_room_id sch) (\<lambda>i. gen v (gen_pos v + i)) ?a) [0..<slot_count ?a ?b]"
    using g generateSlots_Inr [OF p, of "sr_room_id sch" date v] by (simp add: on_date_def)
  then obtain i where i: "s = slot_at (sr_room_id sch) (\<lambda>i. gen v (gen_pos v + i)) ?a i" using s by auto
  have "sl_StartAt s \<in> set (grid ?a ?b)"
    using s unfolding gs map_slot_at_starts [of "sr_room_id sch" "\<lambda>i. gen v (gen_pos v + i)", symmetric] set_map by (rule imageI)
  from grid_bounds [OF this] have b: "?a \<le> sl_StartAt s" "sl_StartAt s + slotDuration \<le> ?b" by simp_all
  note spans = generateSlots_spans [OF g s]
  have "(sl_StartAt s - ?a) mod slotDuration = 0" by (simp add: i slot_at_def)
  then show ?thesis
    using sch(1) day b spans on_date_same_day [OF spans(3)] isDayInSchedule_same_day [OF spans(3)]
    by (auto simp: slot_typed_def)
qed

lemma slot_typed_mono: "slot_typed ss s \<Longrightarrow> set ss \<subseteq> set ss' \<Longrightarrow> slot_typed ss' s"
  by (auto simp: slot_typed_def)

lemma db_typed_grow:
  assumes "db_typed db" and "rooms db' = rooms db @ rs" "list_all room_typed rs"
    and "schedules db' = schedules db @ scs" "list_all schedule_typed scs"
    and "slots db' = slots db @ ss" "list_all (slot_typed (schedules db')) ss"
  shows "db_typed db'"
  using assms by (auto simp: db_typed_def list_all_iff intro: slot_typed_mono)

lemma db_typed_same: "db_typed db \<Longrightarrow> rooms db' = rooms db \<Longrightarrow> schedules db' = schedules db \<Longrightarrow> slots db' = slots db \<Longrightarrow> db_typed db'"
  by (simp add: db_typed_def)

lemma valid_schedule_typed:
  assumes "valid_schedule days st en"
    and "insert_schedule now sid roomID (map int32 days) st en db = Inr (row, db')"
  shows "schedule_typed row"
proof -
  from assms(1) obtain s e where v: "Parse_15_04 st = Some s" "Parse_15_04 en = Some e" "minute s mod 30 = 0"
    "minute e mod 30 = 0" "s < e" "days \<noteq> []" "distinct days" "\<forall>d \<in> set days. 1 \<le> d \<and> d \<le> 7" by (rule valid_scheduleE)
  show ?thesis
    using assms(2) v Parse_to_char [OF v(1)] Parse_to_char [OF v(2)] map_int32_days [OF v(8)]
    by (auto elim!: insert_schedule_InrE simp: schedule_typed_def time_of_day_typed_def)
qed

lemma creates_tables: "creates L s u db b db' \<Longrightarrow> rooms db' = rooms db \<and> schedules db' = schedules db \<and> slots db' = slots db"
  by (auto simp: creates_def insert_event_def Let_def elim!: insert_booking_InrE split: if_splits)

lemma cancels_tables: "cancels L bid u db b db' \<Longrightarrow> rooms db' = rooms db \<and> schedules db' = schedules db \<and> slots db' = slots db"
  by (auto simp: cancels_def insert_event_def Let_def elim!: update_cancelled_InrE split: if_splits)

lemma link_tables: "update_conference_link bid link db = Inr (u, db') \<Longrightarrow> rooms db' = rooms db \<and> schedules db' = schedules db \<and> slots db' = slots db"
  by (auto simp: update_conference_link_def)

lemma mark_tables: "mark_sent now ids db = Inr (u, db') \<Longrightarrow> rooms db' = rooms db \<and> schedules db' = schedules db \<and> slots db' = slots db"
  by (auto simp: mark_sent_def)

lemma created_schedule_typed:
  assumes "CreateSchedule_repo roomID days st en w = (r, w')"
    and "valid_schedule days st en" and "db_typed (store w)"
  shows "db_typed (store w')"
  using CreateSchedule_repo_effect [OF assms(1)]
proof
  assume "\<exists>now sid row. insert_schedule now sid roomID (map int32 days) st en (store w) = Inr (row, store w')"
  then obtain now sid row where i: "insert_schedule now sid roomID (map int32 days) st en (store w) = Inr (row, store w')" by blast
  have row: "schedule_typed row" by (rule valid_schedule_typed [OF assms(2) i])
  have "store w' = (store w)\<lparr>schedules := schedules (store w) @ [row]\<rparr>" using i by (auto elim!: insert_schedule_InrE)
  then show ?thesis using assms(3) row by (intro db_typed_grow [of "store w" "store w'" "[]" "[row]" "[]"]) simp_all
qed (use assms(3) in simp)

lemma ensured_slots_typed:
  assumes "EnsureSlots_repo ss w = (r, w')" and "sch \<in> set (schedules (store w))"
    and "isDayInSchedule date (sr_days_of_week sch)"
    and "generateSlots (sr_room_id sch) date (sc_StartTime (scan_schedule sch)) (sc_EndTime (scan_schedule sch)) v = (Inr ss, v')"
    and "db_typed (store w)"
  shows "db_typed (store w')"
  using EnsureSlots_repo_effect(1) [OF assms(1)]
proof
  assume "ensure_slots ss (store w) = Inr ((), store w')"
  then show ?thesis
  proof (rule ensure_slots_InrE)
    fix new
    assume new: "set new \<subseteq> set ss" "store w' = (store w)\<lparr>slots := slots (store w) @ new\<rparr>"
    have "schedule_typed sch" using assms(2,5) by (simp add: db_typed_def list_all_iff)
    then have "slot_typed (schedules (store w)) s" if "s \<in> set new" for s
      using generated_slots_typed [OF assms(2) _ assms(3,4)] new(1) that by blast
    then show ?thesis
      using assms(5) new(2) by (intro db_typed_grow [of "store w" "store w'" "[]" "[]" new]) (simp_all add: list_all_iff)
  qed
qed (use assms(5) in simp)

lemma typed_call_keeps:
  assumes "typed_call L db db'" and "db_typed db"
  shows "db_typed db'"
  using assms
proof (induction rule: typed_call.induct)
  case (create_booking s u w r w')
  have "store w' = store w \<or> (\<exists>b. creates L s u (store w) b (store w'))"
    using create_booking(1) by (cases r) (auto dest!: CreateBooking_repo_Inl CreateBooking_repo_Inr)
  then show ?case using create_booking(2) creates_tables db_typed_same by metis
next
  case (cancel_booking b u w r w')
  have "store w' = store w \<or> (\<exists>x. cancels L b u (store w) x (store w'))"
    using cancel_booking(1) by (cases r) (auto dest!: CancelBooking_repo_Inl CancelBooking_repo_Inr)
  then show ?case using cancel_booking(2) cancels_tables db_typed_same by metis
next
  case (update_link bid link w r w')
  then show ?case using link_tables db_typed_same UpdateConferenceLink_repo_effect(1) [OF update_link(1)] by metis
next
  case create_room
  then show ?case by (auto dest!: CreateRoom_repo_effect elim!: insert_room_InrE simp: db_typed_def room_typed_def)
next
  case create_schedule
  then show ?case using created_schedule_typed by blast
next
  case create_user
  then show ?case by (auto dest!: CreateUser_repo_effect elim!: insert_user_InrE simp: db_typed_def)
next
  case ensure
  then show ?case using ensured_slots_typed by blast
next
  case (relay locked k w n k' w')
  then show ?case using mark_tables db_typed_same processBatch_effect [OF relay(1)] by metis
qed

lemma typed_calls_keep:
  "(typed_call L)\<^sup>*\<^sup>* db db' \<Longrightarrow> db_ok db \<Longrightarrow> db_typed db \<Longrightarrow> db_ok db' \<and> db_typed db'"
  by (induction rule: rtranclp_induct) (auto intro: typed_call_keeps store_step_ok typed_call_store_step)

lemma db_typed_migrated: "db_typed (migrated now)"
  by (simp add: db_typed_def migrated_def)

section \<open>A request is a sequence of such calls\<close>

definition calls :: "externals \<Rightarrow> BookingDB \<Rightarrow> BookingDB \<Rightarrow> bool" where
  "calls L = (typed_call L)\<^sup>*\<^sup>*"

lemma calls_refl [simp]: "calls L db db"
  by (simp add: calls_def)

lemma calls_one: "typed_call L db db' \<Longrightarrow> calls L db db'"
  by (simp add: calls_def)

lemma calls_trans: "calls L db db1 \<Longrightarrow> calls L db1 db2 \<Longrightarrow> calls L db db2"
  by (simp add: calls_def)

lemma calls_store: "store w' = store w \<Longrightarrow> calls L (store w) (store w')"
  by simp

lemma link_calls: "UpdateConferenceLink_repo bid link w = (r, w') \<Longrightarrow> calls L (store w) (store w')"
  by (rule calls_one, rule typed_call.update_link)

lemma CreateBooking_calls:
  assumes run: "CreateBooking (pg_booking_deps L) slotID userID link w = (r, w')"
  shows "calls L (store w) (store w')"
proof (cases r)
  case (Inl e)
  from run [unfolded Inl] show ?thesis
  proof (cases rule: CreateBooking_InlE)
    case (refused slot w1 now w2 e1)
    have "store w2 = store w" using refused(1,2) by (auto dest!: GetSlotByID_repo_store time_Now_storeD)
    moreover have "CreateBooking_repo L slotID userID w2 = (Inl e1, w')" using refused(4) by simp
    ultimately show ?thesis by (metis calls_one typed_call.create_booking)
  qed (auto dest!: GetSlotByID_repo_store time_Now_storeD)
next
  case (Inr b)
  from run [unfolded Inr] obtain slot w1 now w2 b0 w3 where g: "dep_GetSlotByID (pg_booking_deps L) slotID w = (Inr slot, w1)"
      "time_Now w1 = (now, w2)"
    and c: "dep_CreateBooking (pg_booking_deps L) slotID userID w2 = (Inr b0, w3)"
    and t: "w' = w3 \<or> (\<exists>e. dep_CreateLink (pg_booking_deps L) (bk_ID b0) w3 = (Inl e, w')) \<or>
      (\<exists>l w4 u. dep_CreateLink (pg_booking_deps L) (bk_ID b0) w3 = (Inr l, w4) \<and>
         dep_UpdateConferenceLink (pg_booking_deps L) (bk_ID b0) l w4 = (u, w'))"
    by (rule CreateBooking_InrE) blast
  have "store w2 = store w" using g by (auto dest!: GetSlotByID_repo_store time_Now_storeD)
  moreover have "calls L (store w2) (store w3)"
    using c by (auto intro: calls_one typed_call.create_booking)
  moreover have "calls L (store w3) (store w')"
    using t by (auto simp: CreateLink_def dest: link_calls [of _ _ _ _ _ L])
  ultimately show ?thesis by (auto intro: calls_trans)
qed

lemma CancelBooking_calls:
  assumes "CancelBooking (pg_booking_deps L) bid userID w = (r, w')"
  shows "calls L (store w) (store w')"
proof -
  obtain r' where "CancelBooking_repo L bid userID w = (r', w')"
    using assms by (auto simp: CancelBooking_def split: prod.splits sum.splits)
  then show ?thesis by (rule calls_one [OF typed_call.cancel_booking])
qed

lemma CreateRoom_calls:
  "CreateRoom pg_room_deps name d c w = (r, w') \<Longrightarrow> name \<noteq> [] \<Longrightarrow> pred_option (\<lambda>n. 1 \<le> n) c \<Longrightarrow> calls L (store w) (store w')"
  by (auto simp: CreateRoom_def pg_room_deps_def split: prod.splits sum.splits intro: calls_one typed_call.create_room)

lemma CreateSchedule_calls:
  "CreateSchedule pg_schedule_deps roomID days st en w = (r, w') \<Longrightarrow> valid_schedule days st en \<Longrightarrow> calls L (store w) (store w')"
  by (auto simp: CreateSchedule_def pg_schedule_deps_def split: prod.splits sum.splits intro: calls_one typed_call.create_schedule)

lemma Register_calls:
  "Register pg_user_deps E email pw role w = (r, w') \<Longrightarrow> Role_Valid role \<Longrightarrow> calls L (store w) (store w')"
  by (auto simp: Register_def Let_def split: prod.splits sum.splits option.splits
      dest!: uuid_New_storeD intro: calls_one typed_call.create_user) (metis calls_one typed_call.create_user)+

lemma ListAvailableSlots_calls:
  assumes "ListAvailableSlots pg_slot_deps roomID date w = (r, w')"
  shows "calls L (store w) (store w')"
  using assms
proof (cases rule: pg_slots.ListAvailableSlots_storeE)
  case (ensured sch w1 w2 gs w3 u w4)
  have s: "store w1 = store w" "store w2 = store w1" "store w3 = store w"
    using ensured(1,2) generateSlots_store [OF ensured(3)] by (simp_all add: catalog_reads_store)
  obtain row where row: "row \<in> set (schedules (store w))" "sr_room_id row = roomID" "sch = scan_schedule row"
    using ensured(2) s(1)
    by (auto simp: GetScheduleByRoomID_repo_def select_schedule_def
        split: prod.splits sum.splits if_splits option.splits elim!: exec_stmt_InrE dest!: find_by_Some)
  have "typed_call L (store w3) (store w4)"
    by (rule typed_call.ensure [where sch = row and date = date and v = w2 and ss = gs and v' = w3])
      (use ensured row s in \<open>simp_all add: scan_schedule_def\<close>)
  then show ?thesis using s ensured(5) calls_one by simp
qed simp

section \<open>Requests\<close>

text \<open>The handlers make these calls, or none.\<close>

definition handler_calls :: "externals \<Rightarrow> (payload, BookingDB) handler \<Rightarrow> bool" where
  "handler_calls L h \<longleftrightarrow> (\<forall>r w. calls L (store w) (store (snd (h r w))))"

lemma handler_callsI: "(\<And>r w. calls L (store w) (store (snd (h r w)))) \<Longrightarrow> handler_calls L h"
  by (simp add: handler_calls_def)

lemma reads_only: "(\<And>r w. store (snd (h r w)) = store w) \<Longrightarrow> handler_calls L h"
  by (simp add: handler_calls_def)

lemma reading_handlers_call:
  "handler_calls L (\<lambda>r w. answer 200 PEmpty w)"
  "handler_calls L InfoHandler"
  "handler_calls L (dummyLogin_handler (app_services E secret))"
  "handler_calls L (login_handler (app_services E secret))"
  "handler_calls L (listRooms_handler E (app_services E secret))"
  "handler_calls L (listBookings_handler E (app_services E secret))"
  "handler_calls L (listUserBookings_handler E (app_services E secret))"
  by (rule reads_only, simp add: InfoHandler_def dummyLogin_changes login_changes listRooms_changes
      listBookings_changes listUserBookings_changes)+

lemma register_calls: "handler_calls L (register_handler E (app_services E secret))"
  by (rule handler_callsI)
    (auto simp: register_handler_def app_services_def split: option.split sum.split prod.split dest: Register_calls)

lemma createRoom_calls: "handler_calls L (createRoom_handler E (app_services E secret))"
  by (rule handler_callsI)
    (auto simp: createRoom_handler_def app_services_def minRoomCapacity_def split: option.split sum.split prod.split
      dest: CreateRoom_calls)

lemma createSchedule_calls: "handler_calls L (createSchedule_handler E (app_services E secret))"
proof (rule handler_callsI)
  fix r and w :: "BookingDB world"
  let ?z = "\<lparr> sq_DaysOfWeek = [], sq_StartTime = [], sq_EndTime = [] \<rparr>"
  show "calls L (store w) (store (snd (createSchedule_handler E (app_services E secret) r w)))"
  proof (cases "uuid_Parse E (get_param (rq_Params r) ''roomId'')")
    case None
    then show ?thesis by (simp add: createSchedule_handler_def)
  next
    case roomID: (Some roomID)
    show ?thesis
    proof (cases "decode_body maxBodyBytes schedule_fields ?z r")
      case None
      with roomID show ?thesis by (simp add: createSchedule_handler_def)
    next
      case (Some req)
      show ?thesis
      proof (cases "valid_schedule (sq_DaysOfWeek req) (sq_StartTime req) (sq_EndTime req)")
        case True
        with createSchedule_decides [OF roomID Some, of "app_services E secret" w] show ?thesis
          by (auto simp: app_services_def split: prod.split sum.split dest: CreateSchedule_calls)
      next
        case False
        with createSchedule_decides [OF roomID Some, of "app_services E secret" w] show ?thesis by auto
      qed
    qed
  qed
qed

lemma listSlots_calls: "handler_calls L (listSlots_handler E (app_services E secret))"
  by (rule handler_callsI)
    (auto simp: listSlots_handler_def app_services_def Let_def split: option.split sum.split prod.split
      dest: ListAvailableSlots_calls)

lemma createBooking_calls: "handler_calls L (createBooking_handler L (app_services L secret))"
  by (rule handler_callsI)
    (auto simp: createBooking_handler_def app_services_def counter_Add_store split: option.split sum.split prod.split
      dest: CreateBooking_calls)

lemma cancelBooking_calls: "handler_calls L (cancelBooking_handler L (app_services L secret))"
  by (rule handler_callsI)
    (auto simp: cancelBooking_handler_def app_services_def split: option.split sum.split prod.split
      dest: CancelBooking_calls)

lemma Auth_calls: "handler_calls L h \<Longrightarrow> handler_calls L (Auth E secret h)"
  by (auto simp: handler_calls_def Auth_def split: option.split sum.split prod.split dest!: ParseToken_store) metis

lemma RequireRole_calls: "handler_calls L h \<Longrightarrow> handler_calls L (RequireRole roles h)"
  by (simp add: handler_calls_def RequireRole_def)

lemma route_calls:
  assumes "map_of (routes L secret (app_services L secret)) pat = Some h"
  shows "handler_calls L h"
  using assms unfolding routes_def map_of.simps
  by (auto split: if_splits
      intro!: Auth_calls RequireRole_calls register_calls createRoom_calls createSchedule_calls listSlots_calls
        createBooking_calls cancelBooking_calls
        reading_handlers_call)

lemma request_calls: "calls L (store w) (store (snd (NewRouter chi_Find L secret (app_services L secret) r w)))"
proof (cases rule: NewRouter_cases [of chi_Find L secret "app_services L secret" r w])
  case (unmatched pattern)
  show ?thesis unfolding unmatched
    by (rule Metrics_changes [of w pattern "\<lambda>r w. answer 404 PEmpty w" r]) auto
next
  case (matched pat params h)
  let ?r = "r\<lparr>rq_Params := params, rq_UserID := None, rq_Role := None\<rparr>"
  let ?h = "Recoverer (\<lambda>r. h (r\<lparr>rq_Params := params, rq_UserID := None, rq_Role := None\<rparr>))"
  obtain v where v: "store v = store w"
    "store (snd (NewRouter chi_Find L secret (app_services L secret) r w)) = store (snd (h ?r v))"
    unfolding matched(2) by (rule Metrics_changes [of w "snd pat" ?h r]) (auto simp: Recoverer_changes)
  have "calls L (store v) (store (snd (h ?r v)))"
    using route_calls [OF matched(1)] by (simp add: handler_calls_def)
  then show ?thesis using v by simp
qed

end
