(* ===== verification/TypingProperties.thy ===== *)
theory TypingProperties
  imports Typing Sample
begin

text \<open>
  The properties of the booking service that rest on the types of its rows, with a run of the
  sample service that opens a room for an hour a day and books its first half hour.
\<close>

section \<open>A sample run\<close>

definition hour_schedule :: ScheduleRow where
  "hour_schedule = \<lparr> sr_id = 100, sr_room_id = 100, sr_days_of_week = [1, 2, 3, 4, 5, 6, 7],
     sr_start_time = Date 0 1 1 1 0, sr_end_time = Date 0 1 1 2 0, sr_created_at = 0 \<rparr>"

definition half_hour :: "uuid \<Rightarrow> time \<Rightarrow> Slot" where
  "half_hour sid t = \<lparr> sl_ID = sid, sl_RoomID = 100, sl_StartAt = t, sl_EndAt = t + 30 * Minute \<rparr>"

definition db_open :: BookingDB where "db_open = db_rooms\<lparr>schedules := [hour_schedule]\<rparr>"

definition db_day :: BookingDB where
  "db_day = db_open\<lparr>slots := [half_hour 200 Hour, half_hour 201 (Hour + 30 * Minute)]\<rparr>"

lemma hour_times: "Parse_15_04 ''01:00'' = Some (Date 0 1 1 1 0)" "Parse_15_04 ''02:00'' = Some (Date 0 1 1 2 0)"
  by (simp_all add: Parse_15_04_def isDigit_def digit_val_def)

lemma call_to_rooms: "typed_call L (migrated 0) db_rooms"
proof -
  have "CreateRoom_repo ''Blue'' None (Some 6) (sample_world (migrated 0)) =
      (Inr sample_room, (sample_world (migrated 0))\<lparr>gen_pos := 1, store := db_rooms\<rparr>)"
    by (simp add: CreateRoom_repo_def sample_world_def time_Now_def uuid_New_def exec_stmt_def next_fault_def
        insert_room_def fits_int4_def migrated_def db_rooms_def sample_room_def Let_def)
  from typed_call.create_room [OF _ _ this, of L] show ?thesis by simp
qed

lemma call_to_open: "typed_call L db_rooms db_open"
proof -
  have v: "valid_schedule [1, 2, 3, 4, 5, 6, 7] ''01:00'' ''02:00''"
    by (simp add: valid_schedule_def hour_times Date_fields) (simp add: Date_def)
  have days: "map int32 [1, 2, 3, 4, 5, 6, 7] = [1, 2, 3, 4, 5, 6, 7]" by (rule map_int32_days) simp
  have "insert_schedule 0 100 100 [1, 2, 3, 4, 5, 6, 7] ''01:00'' ''02:00'' db_rooms = Inr (hour_schedule, db_open)"
    by (simp add: insert_schedule_def hour_times db_open_def hour_schedule_def Date_def Let_def)
  then have "CreateSchedule_repo 100 [1, 2, 3, 4, 5, 6, 7] ''01:00'' ''02:00'' (sample_world db_rooms) =
      (Inr (scan_schedule hour_schedule), (sample_world db_rooms)\<lparr>gen_pos := 1, store := db_open\<rparr>)"
    unfolding CreateSchedule_repo_def days
    by (simp add: sample_world_def time_Now_def uuid_New_def exec_stmt_def next_fault_def Let_def)
  from typed_call.create_schedule [OF v this, of L] show ?thesis by simp
qed

lemma call_to_day: "typed_call L db_open db_day"
proof -
  have p: "Parse_15_04 (sc_StartTime (scan_schedule hour_schedule)) = Some (Date 0 1 1 1 0)"
    "Parse_15_04 (sc_EndTime (scan_schedule hour_schedule)) = Some (Date 0 1 1 2 0)"
    using Parse_to_char [OF hour_times(1)] Parse_to_char [OF hour_times(2)] by (simp_all add: scan_schedule_def hour_schedule_def)
  have w: "Date (year 0) (month 0) (day 0) (hour (Date 0 1 1 1 0)) (minute (Date 0 1 1 1 0)) = Hour"
    "Date (year 0) (month 0) (day 0) (hour (Date 0 1 1 2 0)) (minute (Date 0 1 1 2 0)) = 2 * Hour"
    unfolding Date_in_day by (simp_all add: Date_fields)
  have g: "generateSlots (sr_room_id hour_schedule) 0 (sc_StartTime (scan_schedule hour_schedule)) (sc_EndTime (scan_schedule hour_schedule))
      (later_world db_open) =
      (Inr [half_hour 200 Hour, half_hour 201 (Hour + 30 * Minute)], (later_world db_open)\<lparr>gen_pos := 102\<rparr>)"
    using generateSlots_Inr [OF p, of "sr_room_id hour_schedule" 0 "later_world db_open"]
    by (simp add: w slotDuration_def upt_rec slot_at_def half_hour_def hour_schedule_def)
  have "ensure_slots [half_hour 200 Hour, half_hour 201 (Hour + 30 * Minute)] db_open = Inr ((), db_day)"
    by (simp add: ensure_slots_def half_hour_def slot_key_def db_open_def db_day_def)
  then have e: "EnsureSlots_repo [half_hour 200 Hour, half_hour 201 (Hour + 30 * Minute)] (sample_world db_open) =
      (Inr (), (sample_world db_open)\<lparr>store := db_day\<rparr>)"
    by (simp add: EnsureSlots_repo_def calm_exec_stmt)
  show ?thesis
    using typed_call.ensure [OF _ _ g e, of L]
    by (simp add: db_open_def hour_schedule_def isDayInSchedule_def weekday_def)
qed

lemma calls_to_day: "calls L (migrated 0) db_day"
  using call_to_rooms call_to_open call_to_day by (blast intro: calls_one calls_trans)

lemma day_is_booked:
  "\<exists>db b. calls sample_externals (migrated 0) db \<and> bookings db = [b] \<and> bk_SlotID b = 200 \<and>
     slots db = slots db_day \<and> schedules db = [hour_schedule]"
proof -
  have ok: "db_ok db_day" using typed_calls_keep [OF calls_to_day [unfolded calls_def] db_ok_migrated db_typed_migrated] by simp
  obtain r w' where run: "CreateBooking_repo sample_externals 200 dummyUserID (sample_world db_day) = (r, w')" by fastforce
  then have "\<exists>b. r = Inr b"
    by (auto simp: CreateBooking_repo_def sample_world_def begin_tx_def time_Now_def uuid_New_def exec_stmt_def
      next_fault_def commit_tx_def insert_booking_def insert_event_def event_rows_def holder_def
      db_day_def db_open_def half_hour_def db_rooms_def migrated_def sample_room_def dummyUserID_def dummyAdminID_def Let_def)
  then obtain b where b: "r = Inr b" ..
  have c: "creates sample_externals 200 dummyUserID db_day b (store w')"
    using CreateBooking_repo_Inr [OF run [unfolded b]] by simp
  have "bookings (store w') = [b]" "bk_SlotID b = 200"
    using creates_frame [OF c] c by (auto simp: db_day_def db_open_def creates_def elim!: insert_booking_InrE)
  moreover have "slots (store w') = slots db_day" "schedules (store w') = [hour_schedule]"
    using creates_tables [OF c] by (simp_all add: db_day_def db_open_def)
  moreover have "calls sample_externals (migrated 0) (store w')"
    using calls_trans [OF calls_to_day calls_one] typed_call.create_booking [OF run] by simp
  ultimately show ?thesis by blast
qed

section \<open>Properties\<close>

text \<open>
  C22: whatever the calls of the service and of its relay, in whatever interleaving and with
  whatever failures, the rows stay well typed: the constraints of the schema hold, rooms have a
  name and a positive capacity, schedules have distinct days from 1 to 7 and an opening before
  a closing on half hours, and every slot is one of the half hours of its room's schedule.
\<close>

theorem rows_are_typed:
  assumes "calls L (migrated now) db"
  shows "db_ok db \<and> db_typed db"
  by (rule typed_calls_keep [OF assms [unfolded calls_def] db_ok_migrated db_typed_migrated])

theorem rows_are_typed_witness: "slot_typed [hour_schedule] (half_hour 201 (Hour + 30 * Minute))"
  using rows_are_typed [OF calls_to_day] by (simp add: db_typed_def db_day_def db_open_def)

text \<open>
  C24: no request, whatever it contains and whatever fails, changes the database otherwise than by
  such typed calls.
\<close>

theorem requests_make_typed_calls:
  "calls L (store w) (store (snd (NewRouter chi_Find L secret (app_services L secret) r w)))"
  by (rule request_calls)

text \<open>
  C5: nobody is ever booked outside the working hours of a room: the slot of every booking,
  cancelled ones included, lies on a working day of the schedule of its room, between its
  opening and its closing, and lasts half an hour.
\<close>

theorem bookings_are_in_working_hours:
  assumes "calls L (migrated now) db" and "b \<in> set (bookings db)"
  shows "\<exists>s \<in> set (slots db). \<exists>sch \<in> set (schedules db). sl_ID s = bk_SlotID b \<and> sr_room_id sch = sl_RoomID s \<and>
    isDayInSchedule (sl_StartAt s) (sr_days_of_week sch) \<and>
    on_date (sl_StartAt s) (sr_start_time sch) \<le> sl_StartAt s \<and>
    sl_EndAt s \<le> on_date (sl_StartAt s) (sr_end_time sch) \<and> sl_EndAt s = sl_StartAt s + slotDuration"
proof -
  have "db_ok db" "db_typed db"
    using typed_calls_keep [OF assms(1) [unfolded calls_def] db_ok_migrated db_typed_migrated] by simp_all
  moreover from this(1) assms(2) obtain s where "s \<in> set (slots db)" "sl_ID s = bk_SlotID b"
    by (auto simp: db_ok_defs list_all_iff)
  ultimately show ?thesis by (fastforce simp: db_typed_def slot_typed_def list_all_iff)
qed

theorem bookings_are_in_working_hours_witness:
  "\<exists>(db :: BookingDB) b. calls sample_externals (migrated 0) db \<and> bookings db = [b] \<and> (\<exists>s \<in> set (slots db_day). sl_ID s = bk_SlotID b \<and>
     on_date (sl_StartAt s) (Date 0 1 1 1 0) \<le> sl_StartAt s \<and> sl_EndAt s \<le> on_date (sl_StartAt s) (Date 0 1 1 2 0))"
proof -
  obtain db b where r: "calls sample_externals (migrated 0) db" "bookings db = [b]" "slots db = slots db_day"
    "schedules db = [hour_schedule]" using day_is_booked by blast
  have "b \<in> set (bookings db)" by (simp add: r(2))
  from bookings_are_in_working_hours [OF r(1) this] r obtain s where s: "s \<in> set (slots db_day)" "sl_ID s = bk_SlotID b"
    "on_date (sl_StartAt s) (sr_start_time hour_schedule) \<le> sl_StartAt s"
    "sl_EndAt s \<le> on_date (sl_StartAt s) (sr_end_time hour_schedule)" by auto
  show ?thesis
    by (rule exI [of _ db], rule exI [of _ b], rule conjI, rule r(1), rule conjI, rule r(2), rule bexI [OF _ s(1)])
      (use s in \<open>simp add: hour_schedule_def\<close>)
qed

end
