(* ===== verification/NotifModel.thy ===== *)
theory NotifModel
  imports Prelude GoTime
begin

text \<open>
  The data of the notification service: \<open>internal/model\<close>, the table that its migration
  creates, and the state the process keeps in memory (the hub of open streams and the store of
  one-time tokens, \<open>internal/hub\<close>).
\<close>

section \<open>Domain types\<close>

datatype notif_error = ErrNotificationNotFound | ErrNotifForbidden

type_synonym NotificationType = string

definition TypeBookingCreated :: NotificationType where "TypeBookingCreated = ''booking.created''"
definition TypeBookingCancelled :: NotificationType where "TypeBookingCancelled = ''booking.cancelled''"

text \<open>All identifiers are strings in this service.\<close>

record Notification =
  nf_ID :: string
  nf_UserID :: string
  nf_Type :: NotificationType
  nf_BookingID :: string
  nf_RoomName :: string
  nf_SlotStart :: time
  nf_SlotEnd :: time
  nf_IsRead :: bool
  nf_CreatedAt :: time

lemma types_differ [simp]: "TypeBookingCreated \<noteq> TypeBookingCancelled" "TypeBookingCancelled \<noteq> TypeBookingCreated"
  by (simp_all add: TypeBookingCreated_def TypeBookingCancelled_def)

section \<open>The table\<close>

text \<open>
  The columns of identifiers have the type \<open>UUID\<close>, and a \<open>TIMESTAMPTZ\<close> counts microseconds.
\<close>

record NotificationRow =
  nr_id :: uuid
  nr_user_id :: uuid
  nr_type :: NotificationType
  nr_booking_id :: uuid
  nr_room_name :: string
  nr_slot_start :: time
  nr_slot_end :: time
  nr_is_read :: bool
  nr_created_at :: time

text \<open>The key of the unique index \<open>idx_notifications_booking_type\<close>.\<close>

definition event_key :: "NotificationRow \<Rightarrow> uuid \<times> NotificationType" where
  "event_key r = (nr_booking_id r, nr_type r)"

definition row_checks :: "NotificationRow \<Rightarrow> bool" where
  "row_checks r \<longleftrightarrow> nr_type r \<in> {''booking.created'', ''booking.cancelled''} \<and> nr_slot_start r < nr_slot_end r"

definition table_ok :: "NotificationRow list \<Rightarrow> bool" where
  "table_ok rows \<longleftrightarrow> distinct (map nr_id rows) \<and> distinct (map event_key rows) \<and> list_all row_checks rows"

section \<open>The state in memory\<close>

text \<open>
  Channels are references: the map of the hub holds their addresses, and \<open>chan_buf\<close> is what
  each channel buffers.  An address that was never allocated buffers nothing.
\<close>

type_synonym chan = nat

record Hub =
  subs :: "string \<Rightarrow> chan list option"
  chan_buf :: "chan \<Rightarrow> Notification list"
  chan_next :: chan

record tokenEntry =
  te_userID :: string
  te_expiresAt :: time

record NotifState =
  notifications :: "NotificationRow list"
  hub :: Hub
  tokens :: "string \<Rightarrow> tokenEntry option"

end
