(* ===== verification/NotifContract.thy ===== *)
theory NotifContract
  imports NotifModel
begin

text \<open>
  What the notification service asks of its repository
  (\<open>internal/service/notification/contract.go\<close>), as a record of methods and the laws about
  them.  The table of the laws is the list of stored rows; \<open>enc\<close> says which row a notification
  becomes, if its identifiers can be stored at all.
\<close>

record 'd NotifDeps =
  dep_Create :: "Notification \<Rightarrow> 'd world \<Rightarrow> (notif_error, bool) result \<times> 'd world"
  dep_ListByUserID ::
    "string \<Rightarrow> int \<Rightarrow> int \<Rightarrow> bool \<Rightarrow> 'd world \<Rightarrow> (notif_error, Notification list \<times> int) result \<times> 'd world"
  dep_MarkAsRead :: "string \<Rightarrow> string \<Rightarrow> 'd world \<Rightarrow> (notif_error, unit) result \<times> 'd world"
  dep_MarkAllAsRead :: "string \<Rightarrow> 'd world \<Rightarrow> (notif_error, unit) result \<times> 'd world"

definition set_read :: "NotificationRow \<Rightarrow> NotificationRow" where
  "set_read r = r\<lparr>nr_is_read := True\<rparr>"

lemma set_read_simps [simp]:
  "nr_id (set_read r) = nr_id r" "nr_user_id (set_read r) = nr_user_id r" "event_key (set_read r) = event_key r"
  "nr_is_read (set_read r)" "row_checks (set_read r) = row_checks r" "nr_type (set_read r) = nr_type r"
  "nr_booking_id (set_read r) = nr_booking_id r" "set_read (set_read r) = set_read r"
  by (simp_all add: set_read_def event_key_def row_checks_def)

text \<open>Two tables that differ only in what has been read.\<close>

definition same_but_read :: "NotificationRow list \<Rightarrow> NotificationRow list \<Rightarrow> bool" where
  "same_but_read rows rows' \<longleftrightarrow> map set_read rows' = map set_read rows"

lemma same_but_read_refl [simp]: "same_but_read rows rows"
  by (simp add: same_but_read_def)

lemma same_but_read_trans: "same_but_read r1 r2 \<Longrightarrow> same_but_read r2 r3 \<Longrightarrow> same_but_read r1 r3"
  by (simp add: same_but_read_def)

lemma same_but_read_map:
  assumes "same_but_read rows rows'" and "\<And>r. f (set_read r) = f r"
  shows "map f rows' = map f rows"
proof -
  have "map f rows' = map f (map set_read rows')" by (simp add: assms(2))
  also have "\<dots> = map f (map set_read rows)" using assms(1) by (simp add: same_but_read_def)
  finally show ?thesis by (simp add: assms(2))
qed

lemma same_but_read_keys: "same_but_read rows rows' \<Longrightarrow> map event_key rows' = map event_key rows"
  by (erule same_but_read_map) simp

lemma same_but_read_update: "same_but_read rows (update_where P set_read rows)"
  by (auto simp: same_but_read_def update_where_def)

locale notif_backend =
  fixes D :: "'d NotifDeps"
    and table :: "'d \<Rightarrow> NotificationRow list"
    and enc :: "Notification \<Rightarrow> NotificationRow option"
    and frame :: "'d \<Rightarrow> 'x"
  assumes create_effect:
      "dep_Create D n w = (r, w') \<Longrightarrow>
       frame (store w') = frame (store w) \<and>
       (table (store w') = table (store w) \<or>
        (\<exists>row. enc n = Some row \<and> table (store w') = table (store w) @ [row] \<and>
          row_checks row \<and> event_key row \<notin> event_key ` set (table (store w)) \<and> nr_id row \<notin> nr_id ` set (table (store w))))"
    and create_inserts: "dep_Create D n w = (Inr True, w') \<Longrightarrow> table (store w') \<noteq> table (store w)"
    and create_skips:
      "dep_Create D n w = (Inr False, w') \<Longrightarrow>
       table (store w') = table (store w) \<and>
       (\<exists>row. enc n = Some row \<and> event_key row \<in> event_key ` set (table (store w)))"
    and enc_key:
      "enc n = Some row \<Longrightarrow> enc n' = Some row' \<Longrightarrow> nf_BookingID n = nf_BookingID n' \<Longrightarrow> nf_Type n = nf_Type n' \<Longrightarrow>
       event_key row = event_key row'"
    and list_reads: "dep_ListByUserID D u limit offset unread w = (r1, w') \<Longrightarrow> store w' = store w"
    and mark_effect:
      "dep_MarkAsRead D i u w = (r2, w') \<Longrightarrow>
       frame (store w') = frame (store w) \<and> same_but_read (table (store w)) (table (store w'))"
    and mark_all_effect:
      "dep_MarkAllAsRead D u w = (r2, w') \<Longrightarrow>
       frame (store w') = frame (store w) \<and> same_but_read (table (store w)) (table (store w'))"
begin

text \<open>Keys stay once they are there, and the table stays well formed.\<close>

definition has_key :: "uuid \<times> NotificationType \<Rightarrow> 'd world \<Rightarrow> bool" where
  "has_key k w \<longleftrightarrow> k \<in> event_key ` set (table (store w))"

lemma create_table_ok: "dep_Create D n w = (r, w') \<Longrightarrow> table_ok (table (store w)) \<Longrightarrow> table_ok (table (store w'))"
  using create_effect [of n w r w'] by (auto simp: table_ok_def)

lemma same_but_read_ok: "same_but_read rows rows' \<Longrightarrow> table_ok rows \<Longrightarrow> table_ok rows'"
proof -
  assume s: "same_but_read rows rows'"
  have "list_all row_checks rows' = list_all (\<lambda>b. b) (map row_checks rows')" by (simp add: list.pred_map comp_def)
  also have "\<dots> = list_all row_checks rows"
    unfolding same_but_read_map [OF s, of row_checks, simplified] by (simp add: list.pred_map comp_def)
  finally show "table_ok rows \<Longrightarrow> table_ok rows'"
    using same_but_read_map [OF s, of nr_id] same_but_read_keys [OF s] by (simp add: table_ok_def)
qed

lemma create_keeps_key: "dep_Create D n w = (r, w') \<Longrightarrow> has_key k w \<Longrightarrow> has_key k w'"
  using create_effect [of n w r w'] by (auto simp: has_key_def)

lemma create_has_key:
  assumes "dep_Create D n w = (Inr b, w')"
  shows "\<exists>row. enc n = Some row \<and> has_key (event_key row) w'"
proof (cases b)
  case True
  then show ?thesis using create_effect [OF assms] create_inserts [of n w w'] assms by (auto simp: has_key_def)
next
  case False
  then show ?thesis using create_skips [of n w w'] assms by (auto simp: has_key_def)
qed

lemma marks_keep_keys:
  "dep_MarkAsRead D i u w = (r, w') \<Longrightarrow> has_key k w' \<longleftrightarrow> has_key k w"
  "dep_MarkAllAsRead D u w = (r, w') \<Longrightarrow> has_key k w' \<longleftrightarrow> has_key k w"
  using same_but_read_keys mark_effect [of i u w r w'] mark_all_effect [of u w r w']
  unfolding has_key_def by (metis list.set_map)+

end

end
