(* ===== verification/NotifRepo.thy ===== *)
theory NotifRepo
  imports NotifContract
begin

text \<open>
  \<open>notification-service/internal/repo/notification/notification.go\<close>: notifications in
  PostgreSQL.  Identifiers are strings in the code and of type \<open>UUID\<close> in the table; which
  strings the driver accepts for a \<open>UUID\<close> is its own business and a parameter \<open>pgx\<close>.
\<close>

section \<open>Rows\<close>

definition pg_timestamp :: "time \<Rightarrow> time" where
  "pg_timestamp t = t - t mod 1000"

definition row_of :: "(string \<Rightarrow> uuid option) \<Rightarrow> Notification \<Rightarrow> NotificationRow option" where
  "row_of pgx n = (case (pgx (nf_ID n), pgx (nf_UserID n), pgx (nf_BookingID n)) of
      (Some i, Some u, Some b) \<Rightarrow> Some
         \<lparr> nr_id = i, nr_user_id = u, nr_type = nf_Type n, nr_booking_id = b, nr_room_name = nf_RoomName n,
           nr_slot_start = pg_timestamp (nf_SlotStart n), nr_slot_end = pg_timestamp (nf_SlotEnd n),
           nr_is_read = nf_IsRead n, nr_created_at = pg_timestamp (nf_CreatedAt n) \<rparr>
    | _ \<Rightarrow> None)"

definition scan_notification :: "externals \<Rightarrow> NotificationRow \<Rightarrow> Notification" where
  "scan_notification L r =
    \<lparr> nf_ID = uuid_String L (nr_id r), nf_UserID = uuid_String L (nr_user_id r), nf_Type = nr_type r,
      nf_BookingID = uuid_String L (nr_booking_id r), nf_RoomName = nr_room_name r,
      nf_SlotStart = nr_slot_start r, nf_SlotEnd = nr_slot_end r, nf_IsRead = nr_is_read r,
      nf_CreatedAt = nr_created_at r \<rparr>"

section \<open>Statements\<close>

text \<open>
  \<open>INSERT ... ON CONFLICT (booking_id, type) DO NOTHING\<close>: the checks of the row come first,
  then the named index decides whether anything is inserted, then the primary key.  The answer
  is the number of rows affected.
\<close>

definition insert_notification ::
    "(string \<Rightarrow> uuid option) \<Rightarrow> Notification \<Rightarrow> NotifState \<Rightarrow> db_error + (nat \<times> NotifState)" where
  "insert_notification pgx n d =
    (case row_of pgx n of
       None \<Rightarrow> Inl (ConnError ''unable to encode into uuid'')
     | Some row \<Rightarrow>
         (if \<not> row_checks row then Inl (PgError CheckViolation ''notifications_check'')
          else if event_key row \<in> event_key ` set (notifications d) then Inr (0, d)
          else if nr_id row \<in> nr_id ` set (notifications d) then Inl (PgError UniqueViolation ''notifications_pkey'')
          else Inr (1, d\<lparr>notifications := notifications d @ [row]\<rparr>)))"

text \<open>
  One page of the rows of a user, newest first, each with the window count.  The server leaves
  the order of rows of the same instant open; the model takes the order of insertion.
\<close>

definition user_rows :: "uuid \<Rightarrow> bool \<Rightarrow> NotificationRow list \<Rightarrow> NotificationRow list" where
  "user_rows u unreadOnly rows =
    sort_key (\<lambda>r. - nr_created_at r) (filter (\<lambda>r. nr_user_id r = u \<and> (unreadOnly \<longrightarrow> \<not> nr_is_read r)) rows)"

definition select_notifications ::
    "externals \<Rightarrow> (string \<Rightarrow> uuid option) \<Rightarrow> string \<Rightarrow> int \<Rightarrow> int \<Rightarrow> bool \<Rightarrow> NotifState \<Rightarrow>
     db_error + ((Notification \<times> int) list)" where
  "select_notifications L pgx userID limit offset unreadOnly d =
    (case pgx userID of
       None \<Rightarrow> Inl (ConnError ''unable to encode into uuid'')
     | Some u \<Rightarrow>
         (if limit < 0 then Inl (PgError (OtherCode ''2201W'') '''')
          else if offset < 0 then Inl (PgError (OtherCode ''2201X'') '''')
          else let rows = user_rows u unreadOnly (notifications d)
               in Inr (map (\<lambda>r. (scan_notification L r, int (length rows))) (page_of (nat limit) (nat offset) rows))))"

definition mark_rows :: "(NotificationRow \<Rightarrow> bool) \<Rightarrow> NotifState \<Rightarrow> nat \<times> NotifState" where
  "mark_rows P d = (length (filter P (notifications d)),
     d\<lparr>notifications := update_where P set_read (notifications d)\<rparr>)"

definition update_read ::
    "(string \<Rightarrow> uuid option) \<Rightarrow> string \<Rightarrow> string \<Rightarrow> NotifState \<Rightarrow> db_error + (nat \<times> NotifState)" where
  "update_read pgx nid userID d =
    (case (pgx nid, pgx userID) of
       (Some i, Some u) \<Rightarrow> Inr (mark_rows (\<lambda>r. nr_id r = i \<and> nr_user_id r = u) d)
     | _ \<Rightarrow> Inl (ConnError ''unable to encode into uuid''))"

definition update_all_read ::
    "(string \<Rightarrow> uuid option) \<Rightarrow> string \<Rightarrow> NotifState \<Rightarrow> db_error + (nat \<times> NotifState)" where
  "update_all_read pgx userID d =
    (case pgx userID of
       Some u \<Rightarrow> Inr (mark_rows (\<lambda>r. nr_user_id r = u \<and> \<not> nr_is_read r) d)
     | None \<Rightarrow> Inl (ConnError ''unable to encode into uuid''))"

section \<open>Repository methods\<close>

definition Create_repo ::
    "(string \<Rightarrow> uuid option) \<Rightarrow> Notification \<Rightarrow> NotifState world \<Rightarrow> (notif_error, bool) result \<times> NotifState world" where
  "Create_repo pgx n w =
    (case exec_stmt (insert_notification pgx n) w of
       (Inl e, w1) \<Rightarrow> (Inl (Wrap ''create notification'' (DbError e)), w1)
     | (Inr affected, w1) \<Rightarrow> (Inr (affected = 1), w1))"

definition ListByUserID_repo ::
    "externals \<Rightarrow> (string \<Rightarrow> uuid option) \<Rightarrow> string \<Rightarrow> int \<Rightarrow> int \<Rightarrow> bool \<Rightarrow> NotifState world \<Rightarrow>
     (notif_error, Notification list \<times> int) result \<times> NotifState world" where
  "ListByUserID_repo L pgx userID limit offset unreadOnly w =
    (case query_rows ''list notifications'' ''list notifications rows''
            (select_notifications L pgx userID limit offset unreadOnly) w of
       (Inl e, w1) \<Rightarrow> (Inl e, w1)
     | (Inr rows, w1) \<Rightarrow> (Inr (map fst rows, if rows = [] then 0 else snd (last rows)), w1))"

definition MarkAsRead_repo ::
    "(string \<Rightarrow> uuid option) \<Rightarrow> string \<Rightarrow> string \<Rightarrow> NotifState world \<Rightarrow> (notif_error, unit) result \<times> NotifState world" where
  "MarkAsRead_repo pgx nid userID w =
    (case exec_stmt (update_read pgx nid userID) w of
       (Inl e, w1) \<Rightarrow> (Inl (Wrap ''mark as read'' (DbError e)), w1)
     | (Inr affected, w1) \<Rightarrow>
         if affected = 0 then (Inl (Wrap ''mark as read'' (Sentinel ErrNotificationNotFound)), w1)
         else (Inr (), w1))"

definition MarkAllAsRead_repo ::
    "(string \<Rightarrow> uuid option) \<Rightarrow> string \<Rightarrow> NotifState world \<Rightarrow> (notif_error, unit) result \<times> NotifState world" where
  "MarkAllAsRead_repo pgx userID w =
    (case exec_stmt (update_all_read pgx userID) w of
       (Inl e, w1) \<Rightarrow> (Inl (Wrap ''mark all as read'' (DbError e)), w1)
     | (Inr affected, w1) \<Rightarrow> (Inr (), w1))"

section \<open>Effects\<close>

abbreviation memory :: "NotifState \<Rightarrow> Hub \<times> (string \<Rightarrow> tokenEntry option)" where
  "memory d \<equiv> (hub d, tokens d)"

lemma insert_notification_InrE:
  assumes "insert_notification pgx n d = Inr (k, d')"
  obtains (skipped) row where "row_of pgx n = Some row" "row_checks row"
      "event_key row \<in> event_key ` set (notifications d)" "k = 0" "d' = d"
  | (inserted) row where "row_of pgx n = Some row" "row_checks row"
      "event_key row \<notin> event_key ` set (notifications d)" "nr_id row \<notin> nr_id ` set (notifications d)"
      "k = 1" "d' = d\<lparr>notifications := notifications d @ [row]\<rparr>"
  using assms by (auto simp: insert_notification_def split: option.splits if_splits)

lemma mark_rows_effect:
  "mark_rows P d = (k, d') \<Longrightarrow> memory d' = memory d \<and> same_but_read (notifications d) (notifications d')"
  by (auto simp: mark_rows_def same_but_read_update)

lemma update_read_effect:
  "update_read pgx i u d = Inr (k, d') \<Longrightarrow> memory d' = memory d \<and> same_but_read (notifications d) (notifications d')"
  by (auto simp: update_read_def split: option.splits dest!: mark_rows_effect)

lemma update_all_read_effect:
  "update_all_read pgx u d = Inr (k, d') \<Longrightarrow> memory d' = memory d \<and> same_but_read (notifications d) (notifications d')"
  by (auto simp: update_all_read_def split: option.splits dest!: mark_rows_effect)

lemma Create_repo_effect:
  assumes "Create_repo pgx n w = (r, w')"
  shows "memory (store w') = memory (store w) \<and>
    (notifications (store w') = notifications (store w) \<or>
     (\<exists>row. row_of pgx n = Some row \<and> notifications (store w') = notifications (store w) @ [row] \<and> row_checks row \<and>
       event_key row \<notin> event_key ` set (notifications (store w)) \<and> nr_id row \<notin> nr_id ` set (notifications (store w))))"
proof -
  obtain x where "exec_stmt (insert_notification pgx n) w = (x, w')"
    using assms by (auto simp: Create_repo_def split: prod.splits sum.splits)
  from exec_stmt_effect [OF this] show ?thesis by (auto elim!: insert_notification_InrE)
qed

lemma Create_repo_Inr:
  assumes "Create_repo pgx n w = (Inr b, w')"
  obtains k where "insert_notification pgx n (store w) = Inr (k, store w')" "b = (k = 1)"
  using assms by (auto simp: Create_repo_def split: prod.splits sum.splits elim!: exec_stmt_InrE)

lemma MarkAsRead_repo_effect:
  assumes "MarkAsRead_repo pgx i u w = (r, w')"
  shows "memory (store w') = memory (store w) \<and> same_but_read (notifications (store w)) (notifications (store w'))"
proof -
  obtain x where "exec_stmt (update_read pgx i u) w = (x, w')"
    using assms by (auto simp: MarkAsRead_repo_def split: prod.splits sum.splits if_splits)
  from exec_stmt_effect [OF this] show ?thesis using update_read_effect by fastforce
qed

lemma MarkAllAsRead_repo_effect:
  assumes "MarkAllAsRead_repo pgx u w = (r, w')"
  shows "memory (store w') = memory (store w) \<and> same_but_read (notifications (store w)) (notifications (store w'))"
proof -
  obtain x where "exec_stmt (update_all_read pgx u) w = (x, w')"
    using assms by (auto simp: MarkAllAsRead_repo_def split: prod.splits sum.splits)
  from exec_stmt_effect [OF this] show ?thesis using update_all_read_effect by fastforce
qed

lemma ListByUserID_repo_store: "ListByUserID_repo L pgx u l k b w = (r, w') \<Longrightarrow> store w' = store w"
  by (auto simp: ListByUserID_repo_def split: prod.splits sum.splits dest!: query_rows_store)

definition pg_notif_deps :: "externals \<Rightarrow> (string \<Rightarrow> uuid option) \<Rightarrow> NotifState NotifDeps" where
  "pg_notif_deps L pgx = \<lparr> dep_Create = Create_repo pgx, dep_ListByUserID = ListByUserID_repo L pgx,
     dep_MarkAsRead = MarkAsRead_repo pgx, dep_MarkAllAsRead = MarkAllAsRead_repo pgx \<rparr>"

lemma pg_notif_deps_simps [simp]:
  "dep_Create (pg_notif_deps L pgx) = Create_repo pgx"
  "dep_ListByUserID (pg_notif_deps L pgx) = ListByUserID_repo L pgx"
  "dep_MarkAsRead (pg_notif_deps L pgx) = MarkAsRead_repo pgx"
  "dep_MarkAllAsRead (pg_notif_deps L pgx) = MarkAllAsRead_repo pgx"
  by (simp_all add: pg_notif_deps_def)

interpretation pg_notifs: notif_backend "pg_notif_deps L pgx" notifications "row_of pgx" memory for L pgx
proof (unfold_locales, goal_cases)
  case (1 n w r w')
  then show ?case using Create_repo_effect by simp
next
  case (2 n w w')
  then show ?case by (auto elim!: Create_repo_Inr insert_notification_InrE)
next
  case (3 n w w')
  then show ?case by (auto elim!: Create_repo_Inr insert_notification_InrE)
next
  case (4 n row n' row')
  then show ?case by (auto simp: row_of_def event_key_def split: option.splits)
next
  case (5 u l k b w r w')
  then show ?case using ListByUserID_repo_store by simp
next
  case (6 i u w r w')
  then show ?case using MarkAsRead_repo_effect by simp
next
  case (7 u w r w')
  then show ?case using MarkAllAsRead_repo_effect by simp
qed

end
