(* ===== verification/HubContract.thy ===== *)
theory HubContract
  imports NotifModel
begin

text \<open>
  What the stream handler and the service ask of the hub (the interfaces \<open>sseHub\<close> and \<open>Hub\<close>
  of \<open>internal/http/handlers/sse.go\<close> and \<open>internal/service/notification/contract.go\<close>): its
  methods as a record, and the laws in terms of mailboxes: for each user, the open channels
  with what they hold.
\<close>

record 'h HubDeps =
  hb_Subscribe :: "string \<Rightarrow> 'h \<Rightarrow> (string + chan) \<times> 'h"
  hb_unsubscribe :: "string \<Rightarrow> chan \<Rightarrow> 'h \<Rightarrow> 'h"
  hb_Broadcast :: "string \<Rightarrow> Notification \<Rightarrow> 'h \<Rightarrow> 'h"
  hb_receive :: "chan \<Rightarrow> 'h \<Rightarrow> (Notification \<times> 'h) option"

type_synonym mailboxes = "string \<Rightarrow> chan \<Rightarrow> Notification list option"

text \<open>A bounded mailbox takes a message if it has room, and drops it otherwise.\<close>

definition push :: "nat \<Rightarrow> Notification \<Rightarrow> Notification list \<Rightarrow> Notification list" where
  "push cap n q = (if length q < cap then q @ [n] else q)"

definition open_box :: "string \<Rightarrow> chan \<Rightarrow> mailboxes \<Rightarrow> mailboxes" where
  "open_box u ch m = m(u := (m u)(ch \<mapsto> []))"

definition close_box :: "string \<Rightarrow> chan \<Rightarrow> mailboxes \<Rightarrow> mailboxes" where
  "close_box u ch m = m(u := (m u)(ch := None))"

definition deliver :: "nat \<Rightarrow> string \<Rightarrow> Notification \<Rightarrow> mailboxes \<Rightarrow> mailboxes" where
  "deliver cap u n m = m(u := (\<lambda>ch. map_option (push cap n) (m u ch)))"

locale hub_backend =
  fixes D :: "'h HubDeps"
    and ok :: "'h \<Rightarrow> bool"
    and boxes :: "'h \<Rightarrow> mailboxes"
    and limit :: nat
    and cap :: nat
  assumes boxes_bounded: "ok h \<Longrightarrow> finite (dom (boxes h u)) \<and> card (dom (boxes h u)) \<le> limit"
    and subscribe_ok: "hb_Subscribe D u h = (r, h') \<Longrightarrow> ok h \<Longrightarrow> ok h'"
    and subscribe_opens:
      "hb_Subscribe D u h = (Inr ch, h') \<Longrightarrow> ok h \<Longrightarrow>
       boxes h' = open_box u ch (boxes h) \<and> (\<forall>v. boxes h v ch = None)"
    and subscribe_refuses:
      "hb_Subscribe D u h = (Inl e, h') \<Longrightarrow> ok h \<Longrightarrow> h' = h \<and> card (dom (boxes h u)) = limit"
    and unsubscribe_ok: "ok h \<Longrightarrow> ok (hb_unsubscribe D u ch h)"
    and unsubscribe_closes: "ok h \<Longrightarrow> boxes (hb_unsubscribe D u ch h) = close_box u ch (boxes h)"
    and broadcast_ok: "ok h \<Longrightarrow> ok (hb_Broadcast D u n h)"
    and broadcast_delivers: "ok h \<Longrightarrow> boxes (hb_Broadcast D u n h) = deliver cap u n (boxes h)"
    and receive_ok: "hb_receive D ch h = Some (n, h') \<Longrightarrow> ok h \<Longrightarrow> ok h'"
    and receive_takes:
      "boxes h u ch = Some q \<Longrightarrow> ok h \<Longrightarrow>
       (case q of [] \<Rightarrow> hb_receive D ch h = None
        | n # q' \<Rightarrow> \<exists>h'. hb_receive D ch h = Some (n, h') \<and> boxes h' = (boxes h)(u := (boxes h u)(ch \<mapsto> q')))"
begin

text \<open>
  What a stream gets: everything broadcast to its user since it subscribed, in order, as long
  as it does not fall behind by more than its channel holds, and nothing of other users.
\<close>

definition mail_for :: "string \<Rightarrow> (string \<times> Notification) list \<Rightarrow> Notification list" where
  "mail_for u ms = map snd (filter (\<lambda>(v, n). v = u) ms)"

definition broadcast_all :: "(string \<times> Notification) list \<Rightarrow> 'h \<Rightarrow> 'h" where
  "broadcast_all ms h = fold (\<lambda>(v, n). hb_Broadcast D v n) ms h"

lemma broadcast_all_ok: "ok h \<Longrightarrow> ok (broadcast_all ms h)"
  unfolding broadcast_all_def by (induction ms arbitrary: h) (auto intro: broadcast_ok)

lemma mail_for_Cons: "mail_for u ((v, n) # ms) = (if v = u then [n] else []) @ mail_for u ms"
  by (simp add: mail_for_def)

lemma broadcast_box:
  assumes "ok h" "boxes h u ch = Some q"
  shows "boxes (hb_Broadcast D v n h) u ch = Some (if v = u then push cap n q else q)"
  using assms by (cases "v = u") (simp_all add: broadcast_delivers deliver_def)

lemma broadcast_all_box:
  assumes "ok h" "boxes h u ch = Some q" "length q + length (mail_for u ms) \<le> cap"
  shows "boxes (broadcast_all ms h) u ch = Some (q @ mail_for u ms)"
  using assms
proof (induction ms arbitrary: h q)
  case Nil
  then show ?case by (simp add: broadcast_all_def mail_for_def)
next
  case (Cons m ms)
  obtain v n where m: "m = (v, n)" by (cases m)
  let ?h = "hb_Broadcast D v n h"
  let ?q = "q @ (if v = u then [n] else [])"
  have step: "broadcast_all (m # ms) h = broadcast_all ms ?h" by (simp add: broadcast_all_def m)
  have b: "boxes ?h u ch = Some ?q"
    using broadcast_box [OF Cons.prems(1,2), of v n] Cons.prems(3) by (simp add: push_def m mail_for_Cons split: if_splits)
  have len: "length ?q + length (mail_for u ms) \<le> cap" using Cons.prems(3) by (simp add: m mail_for_Cons split: if_splits)
  show ?case
    unfolding step Cons.IH [OF broadcast_ok [OF Cons.prems(1)] b len] by (simp add: m mail_for_Cons)
qed

lemma subscribed_then_sent:
  assumes "ok h" "hb_Subscribe D u h = (Inr ch, h')" "length (mail_for u ms) \<le> cap"
  shows "boxes (broadcast_all ms h') u ch = Some (mail_for u ms)"
  using broadcast_all_box [OF subscribe_ok [OF assms(2,1)], of u ch "[]" ms]
    subscribe_opens [OF assms(2,1)] assms(3) by (simp add: open_box_def)

lemma close_frees:
  assumes "ok h" "ch \<in> dom (boxes h u)"
  shows "\<exists>ch' h'. hb_Subscribe D u (hb_unsubscribe D u ch h) = (Inr ch', h')"
proof (rule ccontr)
  let ?h = "hb_unsubscribe D u ch h"
  obtain r h' where s: "hb_Subscribe D u ?h = (r, h')" by (cases "hb_Subscribe D u ?h")
  assume "\<not> ?thesis"
  with s obtain e where "hb_Subscribe D u ?h = (Inl e, h')" by (cases r) auto
  from subscribe_refuses [OF this unsubscribe_ok [OF assms(1)]]
  have "card (dom (boxes ?h u)) = limit" by simp
  moreover have "dom (boxes ?h u) = dom (boxes h u) - {ch}"
    using unsubscribe_closes [OF assms(1)] by (auto simp: close_box_def)
  moreover have "card (dom (boxes h u) - {ch}) < card (dom (boxes h u))"
    using boxes_bounded [OF assms(1), of u] assms(2) by (intro card_Diff1_less) auto
  ultimately show False using boxes_bounded [OF assms(1), of u] by simp
qed

end

end
