(* ===== verification/Hub.thy ===== *)
theory Hub
  imports HubContract "HOL-Library.Multiset"
begin

text \<open>
  \<open>notification-service/internal/hub/hub.go\<close>: the open streams of each user.  Every
  operation holds the mutex while it touches the map, so each definition below is one atomic
  step; \<open>Broadcast\<close> copies the list of channels under the mutex and sends after it released
  it, so it is two kinds of steps, which may interleave with everything else.
\<close>

section \<open>Operations\<close>

definition maxSubsPerUser :: nat where "maxSubsPerUser = 10"
definition chanCap :: nat where "chanCap = 16"

definition NewHub :: Hub where
  "NewHub = \<lparr> subs = (\<lambda>_. None), chan_buf = (\<lambda>_. []), chan_next = 0 \<rparr>"

text \<open>A missing key of a Go map reads as the empty slice.\<close>

definition subs_of :: "Hub \<Rightarrow> string \<Rightarrow> chan list" where
  "subs_of h userID = (case subs h userID of None \<Rightarrow> [] | Some cs \<Rightarrow> cs)"

definition Subscribe :: "string \<Rightarrow> Hub \<Rightarrow> (string + chan) \<times> Hub" where
  "Subscribe userID h =
    (if maxSubsPerUser \<le> length (subs_of h userID)
     then (Inl ''too many active SSE connections for user'', h)
     else let ch = chan_next h
          in (Inr ch, h\<lparr>subs := (subs h)(userID \<mapsto> subs_of h userID @ [ch]),
                        chan_buf := (chan_buf h)(ch := []),
                        chan_next := Suc ch\<rparr>))"

text \<open>The loop of \<open>unsubscribe\<close>: the first entry that is the channel is overwritten by the last one.\<close>

fun index_of :: "chan \<Rightarrow> chan list \<Rightarrow> nat option" where
  "index_of ch [] = None"
| "index_of ch (c # cs) = (if c = ch then Some 0 else map_option Suc (index_of ch cs))"

definition swap_remove :: "nat \<Rightarrow> 'a list \<Rightarrow> 'a list" where
  "swap_remove i cs = (let n = length cs - 1 in take n (cs[i := cs ! n]))"

definition unsubscribe :: "string \<Rightarrow> chan \<Rightarrow> Hub \<Rightarrow> Hub" where
  "unsubscribe userID ch h =
    (let h1 = (case index_of ch (subs_of h userID) of
                 None \<Rightarrow> h
               | Some i \<Rightarrow> h\<lparr>subs := (subs h)(userID \<mapsto> swap_remove i (subs_of h userID))\<rparr>)
     in if length (subs_of h1 userID) = 0 then h1\<lparr>subs := (subs h1)(userID := None)\<rparr> else h1)"

text \<open>\<open>select\<close> with a \<open>default\<close>: a send that would block drops the message.\<close>

definition try_send :: "Notification \<Rightarrow> chan \<Rightarrow> Hub \<Rightarrow> Hub" where
  "try_send n ch h =
    (if length (chan_buf h ch) < chanCap
     then h\<lparr>chan_buf := (chan_buf h)(ch := chan_buf h ch @ [n])\<rparr> else h)"

definition Broadcast :: "string \<Rightarrow> Notification \<Rightarrow> Hub \<Rightarrow> Hub" where
  "Broadcast userID n h = fold (try_send n) (subs_of h userID) h"

text \<open>A receive from a channel that holds something.\<close>

definition receive :: "chan \<Rightarrow> Hub \<Rightarrow> (Notification \<times> Hub) option" where
  "receive ch h = (case chan_buf h ch of
      [] \<Rightarrow> None
    | n # ns \<Rightarrow> Some (n, h\<lparr>chan_buf := (chan_buf h)(ch := ns)\<rparr>))"

section \<open>Lists of channels\<close>

lemma subs_of_update [simp]:
  "subs_of (h\<lparr>subs := (subs h)(u \<mapsto> cs)\<rparr>) u' = (if u' = u then cs else subs_of h u')"
  "subs_of (h\<lparr>subs := (subs h)(u := None)\<rparr>) u' = (if u' = u then [] else subs_of h u')"
  "subs_of (h\<lparr>chan_buf := b\<rparr>) u' = subs_of h u'"
  by (simp_all add: subs_of_def)

lemma index_of_Some: "index_of ch cs = Some i \<Longrightarrow> i < length cs \<and> cs ! i = ch"
  by (induction cs arbitrary: i) (auto split: if_splits)

lemma index_of_None: "index_of ch cs = None \<longleftrightarrow> ch \<notin> set cs"
  by (induction cs) auto

lemma mset_swap_remove:
  assumes "i < length cs"
  shows "mset (swap_remove i cs) = mset cs - {#cs ! i#}"
proof -
  let ?c = "cs ! (length cs - 1)"
  let ?xs = "cs[i := ?c]"
  have ne: "?xs \<noteq> []" using assms by auto
  have "last ?xs = ?c" using ne assms by (simp add: last_conv_nth nth_list_update)
  moreover have "mset ?xs = mset (butlast ?xs) + {#last ?xs#}"
    using ne by (metis append_butlast_last_id mset.simps mset_append)
  moreover have "mset ?xs = add_mset ?c (mset cs - {#cs ! i#})"
    using assms by (simp add: mset_update)
  ultimately show ?thesis by (simp add: swap_remove_def Let_def butlast_conv_take)
qed

lemma mset_remove_chan: "index_of ch cs = Some i \<Longrightarrow> mset (swap_remove i cs) = mset cs - {#ch#}"
  using mset_swap_remove [of i cs] index_of_Some [of ch cs i] by simp

text \<open>What the operations do to the list of one user: nothing else changes.\<close>

lemma Subscribe_subs:
  "Subscribe u h = (Inr ch, h') \<Longrightarrow> subs_of h' u' = (if u' = u then subs_of h u @ [ch] else subs_of h u')"
  by (auto simp: Subscribe_def subs_of_def Let_def split: if_splits)

lemma unsubscribe_mset:
  "mset (subs_of (unsubscribe u ch h) u') = mset (subs_of h u') - (if u' = u then {#ch#} else {#})"
proof -
  consider (out) "index_of ch (subs_of h u) = None" | (hit) i where "index_of ch (subs_of h u) = Some i"
    by (cases "index_of ch (subs_of h u)") auto
  then show ?thesis
  proof cases
    case out
    then have "ch \<notin># mset (subs_of h u)" by (simp add: index_of_None)
    then show ?thesis using out by (simp add: unsubscribe_def diff_single_trivial)
  next
    case hit
    have "swap_remove i (subs_of h u) = [] \<Longrightarrow> mset (subs_of h u) - {#ch#} = {#}"
      by (metis hit mset.simps(1) mset_remove_chan)
    then show ?thesis using hit mset_remove_chan [OF hit] by (simp add: unsubscribe_def Let_def)
  qed
qed

section \<open>The hub keeps mailboxes\<close>

definition mailboxes_of :: "Hub \<Rightarrow> mailboxes" where
  "mailboxes_of h u ch = (if ch \<in> set (subs_of h u) then Some (chan_buf h ch) else None)"

definition hub_ok :: "Hub \<Rightarrow> bool" where
  "hub_ok h \<longleftrightarrow>
     (\<forall>u. length (subs_of h u) \<le> maxSubsPerUser \<and> distinct (subs_of h u) \<and> subs h u \<noteq> Some []) \<and>
     (\<forall>u v ch. ch \<in> set (subs_of h u) \<longrightarrow> ch \<in> set (subs_of h v) \<longrightarrow> u = v) \<and>
     (\<forall>u. \<forall>ch \<in> set (subs_of h u). ch < chan_next h) \<and>
     (\<forall>ch. length (chan_buf h ch) \<le> chanCap) \<and>
     (\<forall>ch. chan_next h \<le> ch \<longrightarrow> chan_buf h ch = [])"

lemma hub_okD:
  assumes "hub_ok h"
  shows "length (subs_of h u) \<le> maxSubsPerUser" "distinct (subs_of h u)"
    "ch \<in> set (subs_of h u) \<Longrightarrow> ch < chan_next h" "length (chan_buf h ch) \<le> chanCap"
    "chan_next h \<le> ch \<Longrightarrow> chan_buf h ch = []"
  using assms by (auto simp: hub_ok_def)

text \<open>What touches only the buffers has to look after the buffers.\<close>

lemma hub_ok_frame:
  assumes "hub_ok h" "subs h' = subs h" "chan_next h' = chan_next h"
    and "\<And>c. length (chan_buf h' c) \<le> chanCap" "\<And>c. chan_next h \<le> c \<Longrightarrow> chan_buf h' c = []"
  shows "hub_ok h'"
proof -
  have "subs_of h' = subs_of h" using assms(2) by (simp add: subs_of_def fun_eq_iff)
  then show ?thesis using assms by (simp add: hub_ok_def)
qed

lemma subs_of_NewHub [simp]: "subs_of NewHub u = []"
  by (simp add: subs_of_def NewHub_def)

lemma hub_ok_NewHub: "hub_ok NewHub"
  by (simp add: hub_ok_def) (simp add: NewHub_def)

lemma mem_unsubscribe:
  "hub_ok h \<Longrightarrow> c \<in> set (subs_of (unsubscribe u ch h) v) \<longleftrightarrow> c \<in> set (subs_of h v) \<and> (v = u \<longrightarrow> c \<noteq> ch)"
proof -
  assume "hub_ok h"
  then have "distinct (subs_of h v)" by (simp add: hub_ok_def)
  then have "set_mset (mset (subs_of h v) - {#ch#}) = set (subs_of h v) - {ch}"
    by (metis distinct_remove1_removeAll mset_remove1 set_mset_mset set_removeAll)
  then show ?thesis
    using arg_cong [OF unsubscribe_mset [of u ch h v], of set_mset] by (auto split: if_splits)
qed

lemma unsubscribe_rest [simp]:
  "chan_buf (unsubscribe u ch h) = chan_buf h" "chan_next (unsubscribe u ch h) = chan_next h"
  by (simp_all add: unsubscribe_def Let_def split: option.split)

lemma unsubscribe_no_empty: "subs h v \<noteq> Some [] \<Longrightarrow> subs (unsubscribe u ch h) v \<noteq> Some []"
  by (auto simp: unsubscribe_def subs_of_def Let_def split: option.splits)

lemma unsubscribe_remove1: "mset (subs_of (unsubscribe u ch h) v) = mset (if v = u then remove1 ch (subs_of h v) else subs_of h v)"
  by (simp add: unsubscribe_mset)

lemma unsubscribe_hub_ok:
  assumes "hub_ok h"
  shows "hub_ok (unsubscribe u ch h)"
proof -
  have "length (subs_of (unsubscribe u ch h) v) \<le> length (subs_of h v)" for v
    using mset_eq_length [OF unsubscribe_remove1 [of u ch h v]] by (simp add: length_remove1)
  then have "length (subs_of (unsubscribe u ch h) v) \<le> maxSubsPerUser" for v
    using assms by (meson hub_ok_def le_trans)
  moreover have "distinct (subs_of (unsubscribe u ch h) v)" for v
    using mset_eq_imp_distinct_iff [OF unsubscribe_remove1 [of u ch h v]] assms
    by (simp add: hub_ok_def)
  ultimately show ?thesis
    using assms mem_unsubscribe [OF assms] unsubscribe_no_empty [of h _ u ch]
    unfolding hub_ok_def by simp blast
qed

lemma Subscribe_hub_ok:
  assumes "hub_ok h" "Subscribe u h = (r, h')"
  shows "hub_ok h'"
proof (cases r)
  case (Inl e)
  then show ?thesis using assms by (auto simp: Subscribe_def Let_def split: if_splits)
next
  case (Inr ch)
  with assms(2) have full: "length (subs_of h u) < maxSubsPerUser" and ch: "ch = chan_next h"
    and rest: "chan_buf h' = (chan_buf h)(ch := [])" "chan_next h' = Suc ch"
      "subs h' = (subs h)(u \<mapsto> subs_of h u @ [ch])"
    by (auto simp: Subscribe_def Let_def split: if_splits)
  note s = Subscribe_subs [OF assms(2) [unfolded Inr]]
  have new: "ch \<notin> set (subs_of h v)" for v using assms(1) ch by (auto simp: hub_ok_def)
  show ?thesis
    unfolding hub_ok_def
  proof (intro conjI allI)
    fix v
    show "length (subs_of h' v) \<le> maxSubsPerUser" "distinct (subs_of h' v)" "subs h' v \<noteq> Some []"
      using assms(1) full new by (auto simp: hub_ok_def s rest)
    show "\<forall>c \<in> set (subs_of h' v). c < chan_next h'"
      using assms(1) ch by (auto simp: hub_ok_def s rest less_Suc_eq)
  next
    fix v v' c
    show "c \<in> set (subs_of h' v) \<longrightarrow> c \<in> set (subs_of h' v') \<longrightarrow> v = v'"
      using assms(1) new by (auto simp: hub_ok_def s)
  next
    fix c
    show "length (chan_buf h' c) \<le> chanCap" using assms(1) by (auto simp: hub_ok_def rest)
    show "chan_next h' \<le> c \<longrightarrow> chan_buf h' c = []" using assms(1) ch by (auto simp: hub_ok_def rest)
  qed
qed

text \<open>A send touches one buffer, and a broadcast the buffers of one user.\<close>

lemma try_send_simps [simp]:
  "subs (try_send n ch h) = subs h" "chan_next (try_send n ch h) = chan_next h"
  "subs_of (try_send n ch h) u = subs_of h u"
  "chan_buf (try_send n ch h) c = (if c = ch then push chanCap n (chan_buf h c) else chan_buf h c)"
  by (simp_all add: try_send_def push_def subs_of_def)

lemma length_push: "length q \<le> cap \<Longrightarrow> length (push cap n q) \<le> cap"
  by (simp add: push_def)

lemma try_send_hub_ok: "hub_ok h \<Longrightarrow> ch < chan_next h \<Longrightarrow> hub_ok (try_send n ch h)"
  by (auto simp: hub_ok_def length_push)

lemma fold_send_simps [simp]:
  "subs (fold (try_send n) cs h) = subs h" "chan_next (fold (try_send n) cs h) = chan_next h"
  "subs_of (fold (try_send n) cs h) u = subs_of h u"
  by (induction cs arbitrary: h) auto

lemma fold_send_buf:
  "distinct cs \<Longrightarrow> chan_buf (fold (try_send n) cs h) c =
     (if c \<in> set cs then push chanCap n (chan_buf h c) else chan_buf h c)"
  by (induction cs arbitrary: h) auto

lemma Broadcast_buf:
  "hub_ok h \<Longrightarrow> chan_buf (Broadcast u n h) c =
     (if c \<in> set (subs_of h u) then push chanCap n (chan_buf h c) else chan_buf h c)"
  by (simp add: Broadcast_def fold_send_buf hub_ok_def)

lemma Broadcast_simps [simp]:
  "subs (Broadcast u n h) = subs h" "chan_next (Broadcast u n h) = chan_next h"
  "subs_of (Broadcast u n h) v = subs_of h v"
  by (simp_all add: Broadcast_def)

lemma Broadcast_hub_ok: "hub_ok h \<Longrightarrow> hub_ok (Broadcast u n h)"
  by (rule hub_ok_frame [of h]) (auto simp: Broadcast_buf length_push hub_okD dest: hub_okD)

lemma receive_SomeD:
  "receive ch h = Some (n, h') \<Longrightarrow>
   subs h' = subs h \<and> subs_of h' = subs_of h \<and> chan_next h' = chan_next h \<and> chan_buf h ch = n # chan_buf h' ch \<and>
   (\<forall>c. c \<noteq> ch \<longrightarrow> chan_buf h' c = chan_buf h c)"
  by (auto simp: receive_def subs_of_def split: list.splits)

lemma receive_hub_ok: "hub_ok h \<Longrightarrow> receive ch h = Some (n, h') \<Longrightarrow> hub_ok h'"
proof -
  assume ok: "hub_ok h" and r: "receive ch h = Some (n, h')"
  have buf: "length (chan_buf h' c) \<le> length (chan_buf h c)" for c
    using receive_SomeD [OF r] by (cases "c = ch") auto
  show "hub_ok h'"
  proof (rule hub_ok_frame [OF ok])
    fix c
    show "length (chan_buf h' c) \<le> chanCap" using buf hub_okD(4) [OF ok] by (rule le_trans)
    show "chan_next h \<le> c \<Longrightarrow> chan_buf h' c = []" using buf [of c] hub_okD(5) [OF ok, of c] by simp
  qed (use receive_SomeD [OF r] in auto)
qed

lemma mailboxes_dom: "dom (mailboxes_of h u) = set (subs_of h u)"
  by (auto simp: mailboxes_of_def split: if_splits)

lemma Subscribe_opens:
  assumes "hub_ok h" "Subscribe u h = (Inr ch, h')"
  shows "mailboxes_of h' = open_box u ch (mailboxes_of h)" and "mailboxes_of h v ch = None"
proof -
  have ch: "ch = chan_next h" and buf: "chan_buf h' = (chan_buf h)(ch := [])"
    using assms(2) by (auto simp: Subscribe_def Let_def split: if_splits)
  have new: "ch \<notin> set (subs_of h v)" for v using hub_okD(3) [OF assms(1), of ch v] ch by auto
  then show "mailboxes_of h v ch = None" by (simp add: mailboxes_of_def)
  show "mailboxes_of h' = open_box u ch (mailboxes_of h)"
    using new by (auto simp: fun_eq_iff mailboxes_of_def open_box_def Subscribe_subs [OF assms(2)] buf)
qed

lemma Subscribe_refuses:
  assumes "hub_ok h" "Subscribe u h = (Inl e, h')"
  shows "h' = h" "card (dom (mailboxes_of h u)) = maxSubsPerUser"
proof -
  have "maxSubsPerUser \<le> length (subs_of h u)" and "h' = h"
    using assms(2) by (auto simp: Subscribe_def Let_def split: if_splits)
  then show "h' = h" "card (dom (mailboxes_of h u)) = maxSubsPerUser"
    using hub_okD(1,2) [OF assms(1), of u] by (auto simp: mailboxes_dom distinct_card)
qed

lemma unsubscribe_closes: "hub_ok h \<Longrightarrow> mailboxes_of (unsubscribe u ch h) = close_box u ch (mailboxes_of h)"
  by (auto simp: fun_eq_iff mailboxes_of_def close_box_def mem_unsubscribe)

lemma Broadcast_delivers: "hub_ok h \<Longrightarrow> mailboxes_of (Broadcast u n h) = deliver chanCap u n (mailboxes_of h)"
proof (intro ext)
  fix v ch
  assume ok: "hub_ok h"
  have "v = u" if "ch \<in> set (subs_of h v)" "ch \<in> set (subs_of h u)"
    using ok that by (auto simp: hub_ok_def)
  then show "mailboxes_of (Broadcast u n h) v ch = deliver chanCap u n (mailboxes_of h) v ch"
    using Broadcast_buf [OF ok, of u n ch] by (auto simp: mailboxes_of_def deliver_def)
qed

lemma receive_takes:
  assumes "hub_ok h" "mailboxes_of h u ch = Some q"
  shows "case q of [] \<Rightarrow> receive ch h = None
    | n # q' \<Rightarrow> \<exists>h'. receive ch h = Some (n, h') \<and> mailboxes_of h' = (mailboxes_of h)(u := (mailboxes_of h u)(ch \<mapsto> q'))"
proof -
  have q: "q = chan_buf h ch" "ch \<in> set (subs_of h u)" using assms(2) by (auto simp: mailboxes_of_def split: if_splits)
  have only: "ch \<in> set (subs_of h v) \<Longrightarrow> v = u" for v using assms(1) q(2) by (auto simp: hub_ok_def)
  then have only': "v \<noteq> u \<Longrightarrow> ch \<notin> set (subs_of h v)" for v by blast
  show ?thesis
  proof (cases q)
    case Nil
    then show ?thesis using q(1) by (simp add: receive_def)
  next
    case (Cons n q')
    let ?h = "h\<lparr>chan_buf := (chan_buf h)(ch := q')\<rparr>"
    have r: "receive ch h = Some (n, ?h)" using Cons q(1) by (simp add: receive_def)
    have "mailboxes_of ?h = (mailboxes_of h)(u := (mailboxes_of h u)(ch \<mapsto> q'))"
    proof (intro ext)
      fix v c
      show "mailboxes_of ?h v c = ((mailboxes_of h)(u := (mailboxes_of h u)(ch \<mapsto> q'))) v c"
        using q(2) only' [of v] by (cases "v = u"; cases "c = ch") (simp_all add: mailboxes_of_def)
    qed
    then show ?thesis using r Cons by simp
  qed
qed

definition go_hub :: "Hub HubDeps" where
  "go_hub = \<lparr> hb_Subscribe = Subscribe, hb_unsubscribe = unsubscribe, hb_Broadcast = Broadcast, hb_receive = receive \<rparr>"

lemma go_hub_simps [simp]:
  "hb_Subscribe go_hub = Subscribe" "hb_unsubscribe go_hub = unsubscribe" "hb_Broadcast go_hub = Broadcast"
  "hb_receive go_hub = receive"
  by (simp_all add: go_hub_def)

interpretation go_hub_laws: hub_backend go_hub hub_ok mailboxes_of maxSubsPerUser chanCap
proof (unfold_locales, goal_cases)
  case (1 h u)
  then show ?case using hub_okD(1,2) [of h u] by (simp add: mailboxes_dom distinct_card)
next
  case (2 u h r h')
  then show ?case by (auto intro: Subscribe_hub_ok)
next
  case (3 u h ch h')
  then show ?case using Subscribe_opens by simp
next
  case (4 u h e h')
  then show ?case using Subscribe_refuses [of h u e h'] by simp
next
  case (5 h u ch)
  then show ?case by (simp add: unsubscribe_hub_ok)
next
  case (6 h u ch)
  then show ?case by (simp add: unsubscribe_closes)
next
  case (7 h u n)
  then show ?case by (simp add: Broadcast_hub_ok)
next
  case (8 h u n)
  then show ?case by (simp add: Broadcast_delivers)
next
  case (9 ch h n h')
  then show ?case by (auto intro: receive_hub_ok)
next
  case (10 h u ch q)
  then show ?case using receive_takes [of h u ch q] by (simp split: list.splits)
qed

end
