(* ===== verification/Events.thy ===== *)
theory Events
  imports Http GoTime
begin

text \<open>
  \<open>src/shared/events/events.go\<close>: the message that the booking service publishes and the
  notification service reads, and how \<open>json.Unmarshal\<close> reads it.  Its timestamps are decoded by
  \<open>time.Time.UnmarshalJSON\<close>, which accepts the text forms of RFC 3339 and nothing else (on the
  characters of the JSON text; a timestamp written with escapes is not modelled).
\<close>

section \<open>Timestamps\<close>

text \<open>
  A fraction of a second has at least one digit; digits after the ninth are dropped.  A zone is
  \<open>Z\<close> or an offset in hours and minutes.
\<close>

definition parse_fraction :: "string \<Rightarrow> int \<times> string" where
  "parse_fraction s = (case s of
      c # d # cs \<Rightarrow>
        if c = CHR ''.'' \<and> isDigit d
        then (digits_value (take 9 (takeWhile isDigit (d # cs) @ replicate 9 CHR ''0'')), dropWhile isDigit (d # cs))
        else (0, s)
    | _ \<Rightarrow> (0, s))"

definition parse_zone :: "string \<Rightarrow> int option" where
  "parse_zone s =
    (if s = ''Z'' then Some 0
     else case s of
       [] \<Rightarrow> None
     | sign # s1 \<Rightarrow>
         if sign \<noteq> CHR ''+'' \<and> sign \<noteq> CHR ''-'' then None
         else Option.bind (getnum True s1) (\<lambda>(hr, s2).
           if 23 < hr then None
           else Option.bind (skip (CHR '':'') s2) (\<lambda>s3.
             Option.bind (getnum True s3) (\<lambda>(mm, s4).
               if 59 < mm \<or> s4 \<noteq> [] then None
               else Some ((if sign = CHR ''-'' then -1 else 1) * (hr * 60 + mm) * 60)))))"

text \<open>A two-digit number up to a bound, after a literal byte.\<close>

definition field_after :: "char \<Rightarrow> int \<Rightarrow> string \<Rightarrow> (int \<times> string) option" where
  "field_after c bound s =
    Option.bind (skip c s) (\<lambda>s1. Option.bind (getnum True s1) (\<lambda>(n, s2). if bound < n then None else Some (n, s2)))"

definition Parse_RFC3339 :: "string \<Rightarrow> time option" where
  "Parse_RFC3339 s =
    Option.bind (Parse_2006_01_02 (take 10 s)) (\<lambda>midnight.
      Option.bind (field_after (CHR ''T'') 23 (drop 10 s)) (\<lambda>(h, s1).
        Option.bind (field_after (CHR '':'') 59 s1) (\<lambda>(mi, s2).
          Option.bind (field_after (CHR '':'') 59 s2) (\<lambda>(sec, s3).
            let (nsec, s4) = parse_fraction s3
            in Option.bind (parse_zone s4) (\<lambda>offset.
                 Some (midnight + h * Hour + mi * Minute + sec * Second + nsec - offset * Second))))))"

section \<open>The message\<close>

definition TopicBookingEvents :: string where "TopicBookingEvents = ''booking.events''"

type_synonym EventType = string

definition EventTypeBookingCreated :: EventType where "EventTypeBookingCreated = ''booking.created''"
definition EventTypeBookingCancelled :: EventType where "EventTypeBookingCancelled = ''booking.cancelled''"

record BookingEvent =
  ev_EventID :: string
  ev_EventType :: EventType
  ev_OccurredAt :: time
  ev_BookingID :: string
  ev_UserID :: string
  ev_RoomID :: string
  ev_RoomName :: string
  ev_SlotStart :: time
  ev_SlotEnd :: time

text \<open>The zero value of \<open>time.Time\<close> is the first of January of year 1.\<close>

definition zero_time :: time where "zero_time = Date 1 1 1 0 0"

definition zero_event :: BookingEvent where
  "zero_event = \<lparr> ev_EventID = '''', ev_EventType = '''', ev_OccurredAt = zero_time, ev_BookingID = '''',
     ev_UserID = '''', ev_RoomID = '''', ev_RoomName = '''', ev_SlotStart = zero_time, ev_SlotEnd = zero_time \<rparr>"

definition into_time :: "(time \<Rightarrow> 'a \<Rightarrow> 'a) \<Rightarrow> 'a field_decoder" where
  "into_time set_field v a = (case v of
      JvNull \<Rightarrow> Some a
    | JvText s \<Rightarrow> map_option (\<lambda>t. set_field t a) (Parse_RFC3339 s)
    | _ \<Rightarrow> None)"

definition event_fields :: "(string \<times> BookingEvent field_decoder) list" where
  "event_fields =
    [(''event_id'', into_string (\<lambda>v e. e\<lparr>ev_EventID := v\<rparr>)),
     (''event_type'', into_string (\<lambda>v e. e\<lparr>ev_EventType := v\<rparr>)),
     (''occurred_at'', into_time (\<lambda>v e. e\<lparr>ev_OccurredAt := v\<rparr>)),
     (''booking_id'', into_string (\<lambda>v e. e\<lparr>ev_BookingID := v\<rparr>)),
     (''user_id'', into_string (\<lambda>v e. e\<lparr>ev_UserID := v\<rparr>)),
     (''room_id'', into_string (\<lambda>v e. e\<lparr>ev_RoomID := v\<rparr>)),
     (''room_name'', into_string (\<lambda>v e. e\<lparr>ev_RoomName := v\<rparr>)),
     (''slot_start'', into_time (\<lambda>v e. e\<lparr>ev_SlotStart := v\<rparr>)),
     (''slot_end'', into_time (\<lambda>v e. e\<lparr>ev_SlotEnd := v\<rparr>))]"

text \<open>\<open>json.Unmarshal(msg.Value, &event)\<close>; a value that is not JSON is \<open>None\<close>.\<close>

definition decode_event :: "jvalue option \<Rightarrow> BookingEvent option" where
  "decode_event value = Option.bind value (\<lambda>v. decode_struct event_fields v zero_event)"

section \<open>Reading back what was written\<close>

lemma field_after_pad:
  "0 \<le> n \<Longrightarrow> n \<le> bound \<Longrightarrow> n < 100 \<Longrightarrow> field_after c bound (c # pad_digits 2 n @ s) = Some (n, s)"
  by (simp add: field_after_def)

lemma Format_date_length: "0 \<le> year t \<Longrightarrow> year t \<le> 9999 \<Longrightarrow> length (Format_date t) = 10"
  by (simp add: Format_date_def Format_year_4)

lemma Parse_date_of:
  assumes "0 \<le> year t" "year t \<le> 9999"
  shows "Parse_2006_01_02 (Format_date t) = Some (t - t mod DayLength)"
proof -
  obtain y m d where c: "civil (t div DayLength) = (y, m, d)" by (cases "civil (t div DayLength)") auto
  then have f: "year t = y" "month t = m" "day t = d" by (simp_all add: year_def month_def day_def)
  have v: "validDate y m d" using civil_valid [OF c] .
  have "Format_date (Date y m d 0 0) = Format_date t"
    using Format_date_Date [OF v] assms f by (simp add: Format_date_def Format_year_4)
  then show ?thesis using Parse_Format_date [OF v] Date_midnight [of t] assms f by simp
qed

lemma time_of_day:
  "0 \<le> hour t" "hour t \<le> 23" "0 \<le> minute t" "minute t \<le> 59" "0 \<le> second t" "second t \<le> 59"
  by (simp_all add: hour_def minute_def second_def pos_imp_zdiv_nonneg_iff)

lemma mod_digits: "t mod (b * k) = b * (t mod (b * k) div b) + t mod (b::int)"
  by (metis dvd_triv_left mod_mod_cancel mult_div_mod_eq)

lemma time_split: "t - t mod DayLength + hour t * Hour + minute t * Minute + second t * Second = t - t mod Second"
  using mod_digits [of t Hour 24] mod_digits [of t Minute 60] mod_digits [of t Second 60]
  by (simp add: hour_def minute_def second_def)

lemma Parse_RFC3339_text:
  assumes y: "0 \<le> year t" "year t \<le> 9999" and f: "parse_fraction rest = (nsec, zone)" and z: "parse_zone zone = Some offset"
  shows "Parse_RFC3339 (Format_date t @ ''T'' @ pad_digits 2 (hour t) @ '':'' @ pad_digits 2 (minute t) @ '':'' @
     pad_digits 2 (second t) @ rest) = Some (t - t mod Second + nsec - offset * Second)"
proof -
  have "Parse_RFC3339 (Format_date t @ ''T'' @ pad_digits 2 (hour t) @ '':'' @ pad_digits 2 (minute t) @ '':'' @
     pad_digits 2 (second t) @ rest) =
     Some (t - t mod DayLength + hour t * Hour + minute t * Minute + second t * Second + nsec - offset * Second)"
    using time_of_day [of t]
    by (simp add: Parse_RFC3339_def Format_date_length [OF y] Parse_date_of [OF y] field_after_pad f z)
  then show ?thesis by (simp only: time_split)
qed

text \<open>What the code prints is read back, cut to seconds.\<close>

lemma Parse_Format_RFC3339:
  assumes "0 \<le> year t" "year t \<le> 9999"
  shows "Parse_RFC3339 (Format_RFC3339 t) = Some (t - t mod Second)"
proof -
  have "parse_fraction ''Z'' = (0, ''Z'')" "parse_zone ''Z'' = Some 0"
    by (simp_all add: parse_fraction_def parse_zone_def)
  from Parse_RFC3339_text [OF assms this] show ?thesis by (simp add: Format_RFC3339_def)
qed

end
