(* ===== verification/NotifService.thy ===== *)
theory NotifService
  imports NotifRepo Hub Events
begin

text \<open>
  \<open>notification-service/internal/service/notification/notification.go\<close>: what becomes of an
  event.  The other methods of the service pass their arguments to the repository.
\<close>

section \<open>The service methods\<close>

definition notif_type :: "EventType \<Rightarrow> NotificationType option" where
  "notif_type t = (if t = EventTypeBookingCreated then Some TypeBookingCreated
                   else if t = EventTypeBookingCancelled then Some TypeBookingCancelled else None)"

definition notification_for :: "NotificationType \<Rightarrow> BookingEvent \<Rightarrow> string \<Rightarrow> time \<Rightarrow> Notification" where
  "notification_for ty event nid now =
    \<lparr> nf_ID = nid, nf_UserID = ev_UserID event, nf_Type = ty, nf_BookingID = ev_BookingID event,
      nf_RoomName = ev_RoomName event, nf_SlotStart = ev_SlotStart event, nf_SlotEnd = ev_SlotEnd event,
      nf_IsRead = False, nf_CreatedAt = now \<rparr>"

text \<open>The hub is a field that may be \<open>nil\<close>.\<close>

type_synonym 'd broadcaster = "string \<Rightarrow> Notification \<Rightarrow> 'd world \<Rightarrow> 'd world"

definition CreateFromEvent ::
    "externals \<Rightarrow> 'd NotifDeps \<Rightarrow> 'd broadcaster option \<Rightarrow> BookingEvent \<Rightarrow> 'd world \<Rightarrow>
     (notif_error, unit) result \<times> 'd world" where
  "CreateFromEvent L D hub_field event w =
    (case notif_type (ev_EventType event) of
       None \<Rightarrow> (Inr (), w)
     | Some ty \<Rightarrow>
         (let (u, w1) = uuid_New w; (now, w2) = time_Now w1;
              n = notification_for ty event (uuid_String L u) now
          in case dep_Create D n w2 of
               (Inl e, w3) \<Rightarrow> (Inl e, w3)
             | (Inr inserted, w3) \<Rightarrow>
                 (Inr (), if inserted
                          then (case hub_field of None \<Rightarrow> w3 | Some broadcast \<Rightarrow> broadcast (ev_UserID event) n w3)
                          else w3)))"

definition ListByUserID ::
    "'d NotifDeps \<Rightarrow> string \<Rightarrow> int \<Rightarrow> int \<Rightarrow> bool \<Rightarrow> 'd world \<Rightarrow> (notif_error, Notification list \<times> int) result \<times> 'd world" where
  "ListByUserID D = dep_ListByUserID D"

definition MarkAsRead ::
    "'d NotifDeps \<Rightarrow> string \<Rightarrow> string \<Rightarrow> 'd world \<Rightarrow> (notif_error, unit) result \<times> 'd world" where
  "MarkAsRead D = dep_MarkAsRead D"

definition MarkAllAsRead :: "'d NotifDeps \<Rightarrow> string \<Rightarrow> 'd world \<Rightarrow> (notif_error, unit) result \<times> 'd world" where
  "MarkAllAsRead D = dep_MarkAllAsRead D"

section \<open>What an event does\<close>

text \<open>A hub that leaves the table alone.\<close>

locale notif_service = notif_backend D table enc frame
  for D :: "'d NotifDeps" and table :: "'d \<Rightarrow> NotificationRow list"
    and enc :: "Notification \<Rightarrow> NotificationRow option" and frame :: "'d \<Rightarrow> 'x" +
  fixes broadcast :: "'d broadcaster"
    and uuid_text :: externals
  assumes broadcast_table: "table (store (broadcast u n w)) = table (store w)"
begin

abbreviation handle_event :: "BookingEvent \<Rightarrow> 'd world \<Rightarrow> (notif_error, unit) result \<times> 'd world" where
  "handle_event \<equiv> CreateFromEvent uuid_text D (Some broadcast)"

text \<open>The row of an event, up to its own identifier and time.\<close>

definition row_for :: "BookingEvent \<Rightarrow> NotificationRow \<Rightarrow> bool" where
  "row_for e row \<longleftrightarrow> (\<exists>ty nid now. notif_type (ev_EventType e) = Some ty \<and> enc (notification_for ty e nid now) = Some row)"

lemma row_for_key: "row_for e row \<Longrightarrow> row_for e row' \<Longrightarrow> event_key row = event_key row'"
  unfolding row_for_def by (auto simp: notification_for_def intro: enc_key)

lemma handle_event_cases:
  assumes "handle_event e w = (r, w')"
  obtains (unknown) "notif_type (ev_EventType e) = None" "r = Inr ()" "w' = w"
  | (failed) ty nid now w2 w3 err where "notif_type (ev_EventType e) = Some ty" "store w2 = store w"
      "dep_Create D (notification_for ty e nid now) w2 = (Inl err, w3)" "r = Inl err" "w' = w3"
  | (duplicate) ty nid now w2 w3 where "notif_type (ev_EventType e) = Some ty" "store w2 = store w"
      "dep_Create D (notification_for ty e nid now) w2 = (Inr False, w3)" "r = Inr ()" "w' = w3"
  | (fresh) ty nid now w2 w3 where "notif_type (ev_EventType e) = Some ty" "store w2 = store w"
      "dep_Create D (notification_for ty e nid now) w2 = (Inr True, w3)" "r = Inr ()"
      "w' = broadcast (ev_UserID e) (notification_for ty e nid now) w3"
proof (cases "notif_type (ev_EventType e)")
  case None
  then show thesis using assms unknown by (simp add: CreateFromEvent_def)
next
  case (Some ty)
  obtain u w1 where u: "uuid_New w = (u, w1)" by (cases "uuid_New w")
  obtain now w2 where t: "time_Now w1 = (now, w2)" by (cases "time_Now w1")
  have st: "store w2 = store w" using uuid_New_storeD [OF u] time_Now_storeD [OF t] by simp
  let ?n = "notification_for ty e (uuid_String uuid_text u) now"
  obtain x w3 where c: "dep_Create D ?n w2 = (x, w3)" by (cases "dep_Create D ?n w2")
  show thesis
  proof (cases x)
    case (Inl err)
    then show thesis using assms Some c u t st failed by (auto simp: CreateFromEvent_def)
  next
    case (Inr b)
    then show thesis using assms Some c u t st duplicate fresh by (cases b) (auto simp: CreateFromEvent_def)
  qed
qed

lemma handle_event_effect:
  assumes "handle_event e w = (r, w')"
  shows "table (store w') = table (store w) \<or>
    (\<exists>row. row_for e row \<and> table (store w') = table (store w) @ [row] \<and> row_checks row \<and>
       event_key row \<notin> event_key ` set (table (store w)) \<and> nr_id row \<notin> nr_id ` set (table (store w)))"
  using assms
proof (cases rule: handle_event_cases)
  case unknown
  then show ?thesis by simp
next
  case failed
  then show ?thesis using create_effect [OF failed(3)] by (auto simp: row_for_def)
next
  case duplicate
  then show ?thesis using create_effect [OF duplicate(3)] by (auto simp: row_for_def)
next
  case fresh
  then show ?thesis using create_effect [OF fresh(3)] by (auto simp: row_for_def broadcast_table)
qed

lemma handle_event_ok: "handle_event e w = (r, w') \<Longrightarrow> table_ok (table (store w)) \<Longrightarrow> table_ok (table (store w'))"
  by (drule handle_event_effect) (auto simp: table_ok_def)

lemma handle_event_keeps_key: "handle_event e w = (r, w') \<Longrightarrow> has_key k w \<Longrightarrow> has_key k w'"
  by (drule handle_event_effect) (auto simp: has_key_def)

lemma handle_event_stores:
  assumes "handle_event e w = (Inr u, w')" "notif_type (ev_EventType e) = Some ty"
  shows "\<exists>row. row_for e row \<and> has_key (event_key row) w'"
  using assms(1)
proof (cases rule: handle_event_cases)
  case duplicate
  then show ?thesis using create_has_key [OF duplicate(3)] assms by (auto simp: row_for_def)
next
  case fresh
  then show ?thesis using create_has_key [OF fresh(3)] assms
    by (auto simp: row_for_def has_key_def broadcast_table)
qed (use assms in auto)

text \<open>An event whose notification is there does nothing: no second row, and no broadcast.\<close>

lemma create_known:
  assumes "dep_Create D (notification_for ty e nid now) w = (r, w')" and "notif_type (ev_EventType e) = Some ty"
    and "row_for e row" and "has_key (event_key row) w"
  shows "table (store w') = table (store w) \<and> frame (store w') = frame (store w)"
proof -
  have "event_key row' = event_key row" if "enc (notification_for ty e nid now) = Some row'" for row'
  proof (rule row_for_key [OF _ assms(3)])
    show "row_for e row'" using that assms(2) by (auto simp: row_for_def)
  qed
  then show ?thesis using create_effect [OF assms(1)] assms(4) by (auto simp: has_key_def)
qed

lemma handle_event_again:
  assumes "handle_event e w = (r, w')" and "row_for e row" and "has_key (event_key row) w"
  shows "table (store w') = table (store w) \<and> frame (store w') = frame (store w)"
  using assms(1)
proof (cases rule: handle_event_cases)
  case unknown
  then show ?thesis by simp
next
  case (failed ty nid now w2 w3 err)
  then show ?thesis using create_known [OF failed(3,1) assms(2)] assms(3) by (simp add: has_key_def)
next
  case (duplicate ty nid now w2 w3)
  then show ?thesis using create_known [OF duplicate(3,1) assms(2)] assms(3) by (simp add: has_key_def)
next
  case (fresh ty nid now w2 w3)
  then show ?thesis
    using create_known [OF fresh(3,1) assms(2)] create_inserts [OF fresh(3)] assms(3) by (simp add: has_key_def)
qed

end

section \<open>Wiring\<close>

definition app_broadcast :: "NotifState broadcaster" where
  "app_broadcast userID n w = w\<lparr>store := (store w)\<lparr>hub := Broadcast userID n (hub (store w))\<rparr>\<rparr>"

interpretation notif_app: notif_service "pg_notif_deps L pgx" notifications "row_of pgx" memory app_broadcast L for L pgx
  by unfold_locales (simp add: app_broadcast_def)

end
