(* ===== verification/Consumer.thy ===== *)
theory Consumer
  imports NotifService
begin

text \<open>
  \<open>notification-service/internal/kafka/consumer.go\<close> and the goroutine of \<open>cmd/main.go\<close> that
  runs it again after an error.

  The Kafka client is outside the repository.  A reader is the partition it reads, the position
  of the next message it hands out, and the position that is committed for its group; a script
  says what each round meets: a message, whose commit then succeeds or fails, an error of the
  fetch, or the end of the context.  A script that has ended, and a round that would fetch
  beyond the end of the partition, is a consumer that waits.
\<close>

record Reader =
  rd_log :: "jvalue option list"
  rd_pos :: nat
  rd_committed :: nat

datatype fetch = FetchNext "string option" | FetchFails string | FetchCancelled

type_synonym 'd round = "fetch \<times> ('d \<Rightarrow> 'd)"

datatype run_end = RunStopped | RunFailed string | RunWaiting

section \<open>One message\<close>

type_synonym 'd event_handler = "BookingEvent \<Rightarrow> 'd world \<Rightarrow> (notif_error, unit) result \<times> 'd world"

text \<open>\<open>metrics.DeliveryLatency.Observe(time.Since(event.OccurredAt))\<close>: the histogram is not modelled, the clock is read.\<close>

definition observe_latency :: "BookingEvent \<Rightarrow> 'd world \<Rightarrow> 'd world" where
  "observe_latency event w = (if ev_OccurredAt event \<noteq> zero_time then snd (time_Now w) else w)"

text \<open>The text is what an error of the commit that follows is wrapped in.\<close>

definition process_message :: "'d event_handler \<Rightarrow> jvalue option \<Rightarrow> 'd world \<Rightarrow> string \<times> 'd world" where
  "process_message svc value w =
    (case decode_event value of
       None \<Rightarrow> (''commit after invalid payload'', counter_Add (me_Name KafkaConsumerErrorsTotal) 1 w)
     | Some event \<Rightarrow>
         (case svc event w of
            (Inl e, w1) \<Rightarrow> (''commit after processing error'', counter_Add (me_Name KafkaConsumerErrorsTotal) 1 w1)
          | (Inr _, w1) \<Rightarrow> (''commit message'', counter_Add (me_Name KafkaConsumedTotal) 1 (observe_latency event w1))))"

section \<open>The loop\<close>

abbreviation meanwhile :: "('d \<Rightarrow> 'd) \<Rightarrow> 'd world \<Rightarrow> 'd world" where
  "meanwhile others w \<equiv> w\<lparr>store := others (store w)\<rparr>"

fun Run_consumer ::
    "'d event_handler \<Rightarrow> 'd round list \<Rightarrow> Reader \<Rightarrow> 'd world \<Rightarrow> run_end \<times> Reader \<times> 'd world" where
  "Run_consumer svc [] k w = (RunWaiting, k, w)"
| "Run_consumer svc ((FetchCancelled, others) # script) k w = (RunStopped, k, meanwhile others w)"
| "Run_consumer svc ((FetchFails e, others) # script) k w =
     (RunFailed (''fetch message: '' @ e), k, meanwhile others w)"
| "Run_consumer svc ((FetchNext commit, others) # script) k w =
    (if length (rd_log k) \<le> rd_pos k then (RunWaiting, k, meanwhile others w)
     else
       (let value = rd_log k ! rd_pos k; k1 = k\<lparr>rd_pos := Suc (rd_pos k)\<rparr>;
            (what, w1) = process_message svc value (meanwhile others w)
        in case commit of
             Some e \<Rightarrow> (RunFailed (what @ '': '' @ e), k1, w1)
           | None \<Rightarrow> Run_consumer svc script (k1\<lparr>rd_committed := rd_pos k1\<rparr>) w1))"

text \<open>
  \<open>for { if err := consumer.Run(ctx, svc); err != nil { ...; continue }; return }\<close>: after an
  error the goroutine waits for a second, unless the context ends first (\<open>True\<close>).
\<close>

fun consumer_goroutine ::
    "'d event_handler \<Rightarrow> ('d round list \<times> bool) list \<Rightarrow> Reader \<Rightarrow> 'd world \<Rightarrow> run_end \<times> Reader \<times> 'd world" where
  "consumer_goroutine svc [] k w = (RunWaiting, k, w)"
| "consumer_goroutine svc ((script, ctx_done) # runs) k w =
    (case Run_consumer svc script k w of
       (RunFailed e, k1, w1) \<Rightarrow> if ctx_done then (RunFailed e, k1, w1) else consumer_goroutine svc runs k1 w1
     | other \<Rightarrow> other)"

text \<open>
  The life of the service: the process may die at any point, and its successor reads from the
  committed position.
\<close>

definition reassigned :: "Reader \<Rightarrow> Reader" where
  "reassigned k = k\<lparr>rd_pos := rd_committed k\<rparr>"

fun consumer_lives ::
    "'d event_handler \<Rightarrow> ('d round list \<times> bool) list list \<Rightarrow> Reader \<Rightarrow> 'd world \<Rightarrow> Reader \<times> 'd world" where
  "consumer_lives svc [] k w = (k, w)"
| "consumer_lives svc (runs # lives) k w =
    (let (e, k1, w1) = consumer_goroutine svc runs (reassigned k) w in consumer_lives svc lives k1 w1)"

section \<open>Every message is passed, whatever it is\<close>

text \<open>
  One rule for runs, goroutines and lives: an invariant of reader and world is kept by them if
  each message and each change in between keeps it.
\<close>

definition rounds_keep :: "'d event_handler \<Rightarrow> (('d \<Rightarrow> 'd) \<Rightarrow> bool) \<Rightarrow> (Reader \<Rightarrow> 'd world \<Rightarrow> bool) \<Rightarrow> bool" where
  "rounds_keep svc polite P \<longleftrightarrow>
     (\<forall>others k w. polite others \<longrightarrow> P k w \<longrightarrow> P k (meanwhile others w)) \<and>
     (\<forall>k w what w1. rd_pos k < length (rd_log k) \<longrightarrow> P k w \<longrightarrow>
        process_message svc (rd_log k ! rd_pos k) w = (what, w1) \<longrightarrow>
        P (k\<lparr>rd_pos := Suc (rd_pos k)\<rparr>) w1 \<and>
        P (k\<lparr>rd_pos := Suc (rd_pos k), rd_committed := Suc (rd_pos k)\<rparr>) w1)"

abbreviation all_polite :: "(('d \<Rightarrow> 'd) \<Rightarrow> bool) \<Rightarrow> 'd round list \<Rightarrow> bool" where
  "all_polite polite script \<equiv> \<forall>round \<in> set script. polite (snd round)"

lemma rounds_keepD:
  assumes "rounds_keep svc polite P" "P k w"
  shows "polite others \<Longrightarrow> P k (meanwhile others w)"
    and "rd_pos k < length (rd_log k) \<Longrightarrow> process_message svc (rd_log k ! rd_pos k) w = (what, w1) \<Longrightarrow>
      P (k\<lparr>rd_pos := Suc (rd_pos k)\<rparr>) w1 \<and> P (k\<lparr>rd_pos := Suc (rd_pos k), rd_committed := Suc (rd_pos k)\<rparr>) w1"
  using assms unfolding rounds_keep_def by blast+

lemma rounds_keepI:
  assumes "\<And>others k w. polite others \<Longrightarrow> P k w \<Longrightarrow> P k (meanwhile others w)"
    and "\<And>k w what w1. rd_pos k < length (rd_log k) \<Longrightarrow> P k w \<Longrightarrow>
      process_message svc (rd_log k ! rd_pos k) w = (what, w1) \<Longrightarrow>
      P (k\<lparr>rd_pos := Suc (rd_pos k)\<rparr>) w1 \<and> P (k\<lparr>rd_pos := Suc (rd_pos k), rd_committed := Suc (rd_pos k)\<rparr>) w1"
  shows "rounds_keep svc polite P"
  using assms unfolding rounds_keep_def by blast

lemma Run_consumer_keeps:
  "Run_consumer svc script k w = (e, k', w') \<Longrightarrow> rounds_keep svc polite P \<Longrightarrow> all_polite polite script \<Longrightarrow>
   P k w \<Longrightarrow> P k' w'"
proof (induction svc script k w rule: Run_consumer.induct)
  case (4 svc commit others script k w)
  have P: "P k (meanwhile others w)" using "4.prems" rounds_keepD(1) by auto
  show ?case
  proof (cases "length (rd_log k) \<le> rd_pos k")
    case True
    then show ?thesis using "4.prems"(1) P by simp
  next
    case False
    obtain what w1 where m: "process_message svc (rd_log k ! rd_pos k) (meanwhile others w) = (what, w1)"
      by (cases "process_message svc (rd_log k ! rd_pos k) (meanwhile others w)")
    have "P (k\<lparr>rd_pos := Suc (rd_pos k)\<rparr>) w1 \<and> P (k\<lparr>rd_pos := Suc (rd_pos k), rd_committed := Suc (rd_pos k)\<rparr>) w1"
      using rounds_keepD(2) [OF "4.prems"(2) P _ m] False by simp
    then show ?thesis
      using "4.prems"(1-3) "4.IH" False m by (auto simp: Let_def split: option.splits)
  qed
qed (auto dest: rounds_keepD(1))

lemma consumer_goroutine_keeps:
  "consumer_goroutine svc runs k w = (e, k', w') \<Longrightarrow> rounds_keep svc polite P \<Longrightarrow>
   \<forall>run \<in> set runs. all_polite polite (fst run) \<Longrightarrow> P k w \<Longrightarrow> P k' w'"
proof (induction svc runs k w rule: consumer_goroutine.induct)
  case (2 svc script ctx_done runs k w)
  obtain e1 k1 w1 where r: "Run_consumer svc script k w = (e1, k1, w1)" by (cases "Run_consumer svc script k w") auto
  have "P k1 w1" by (rule Run_consumer_keeps [OF r "2.prems"(2) _ "2.prems"(4)]) (use "2.prems"(3) in auto)
  then show ?case using "2.prems"(1-3) "2.IH" r by (auto split: run_end.splits if_splits)
qed auto

lemma consumer_lives_keeps:
  assumes "rounds_keep svc polite P" and "\<And>k w. P k w \<Longrightarrow> P (reassigned k) w"
  shows "consumer_lives svc lives k w = (k', w') \<Longrightarrow>
    \<forall>runs \<in> set lives. \<forall>run \<in> set runs. all_polite polite (fst run) \<Longrightarrow> P k w \<Longrightarrow> P k' w'"
proof (induction lives arbitrary: k w)
  case Nil
  then show ?case by simp
next
  case (Cons runs lives)
  obtain e k1 w1 where r: "consumer_goroutine svc runs (reassigned k) w = (e, k1, w1)"
    by (cases "consumer_goroutine svc runs (reassigned k) w") auto
  have "P k1 w1"
    by (rule consumer_goroutine_keeps [OF r assms(1) _ assms(2) [OF Cons.prems(3)]]) (use Cons.prems(2) in auto)
  then show ?case using Cons.prems(1,2) Cons.IH r by simp
qed

text \<open>
  With commits that succeed, a run passes as many messages as it is given rounds for, whatever
  the messages are and whatever the service answers.
\<close>

definition good_rounds :: "('d \<Rightarrow> 'd) list \<Rightarrow> 'd round list" where
  "good_rounds changes = map (Pair (FetchNext None)) changes"

lemma Run_consumer_passes:
  "rd_pos k + length changes \<le> length (rd_log k) \<Longrightarrow>
   \<exists>k' w'. Run_consumer svc (good_rounds changes) k w = (RunWaiting, k', w') \<and>
     rd_pos k' = rd_pos k + length changes \<and> (changes \<noteq> [] \<longrightarrow> rd_committed k' = rd_pos k') \<and> rd_log k' = rd_log k"
proof (induction changes arbitrary: k w)
  case Nil
  then show ?case by (simp add: good_rounds_def)
next
  case (Cons c changes)
  let ?k = "k\<lparr>rd_pos := Suc (rd_pos k), rd_committed := Suc (rd_pos k)\<rparr>"
  obtain what w1 where m: "process_message svc (rd_log k ! rd_pos k) (meanwhile c w) = (what, w1)"
    by (cases "process_message svc (rd_log k ! rd_pos k) (meanwhile c w)")
  have "\<exists>k' w'. Run_consumer svc (good_rounds changes) ?k w1 = (RunWaiting, k', w') \<and>
      rd_pos k' = rd_pos ?k + length changes \<and> (changes \<noteq> [] \<longrightarrow> rd_committed k' = rd_pos k') \<and> rd_log k' = rd_log ?k"
    using Cons.prems by (intro Cons.IH) simp
  then obtain k' w' where r: "Run_consumer svc (good_rounds changes) ?k w1 = (RunWaiting, k', w')"
    "rd_pos k' = Suc (rd_pos k) + length changes" "changes \<noteq> [] \<longrightarrow> rd_committed k' = rd_pos k'" "rd_log k' = rd_log k" by auto
  moreover have "changes = [] \<Longrightarrow> k' = ?k" using r(1) by (simp add: good_rounds_def)
  ultimately show ?case using Cons.prems m by (cases "changes = []") (auto simp: good_rounds_def)
qed

text \<open>The positions: what is committed was handed out, and nothing beyond the partition was.\<close>

definition reader_ok :: "Reader \<Rightarrow> bool" where
  "reader_ok k \<longleftrightarrow> rd_committed k \<le> rd_pos k \<and> rd_pos k \<le> length (rd_log k)"

lemma rounds_keep_reader: "rounds_keep svc polite (\<lambda>k w. reader_ok k \<and> rd_log k = log0)"
  by (auto simp: rounds_keep_def reader_ok_def)

end
