(* ===== verification/TokenContract.thy ===== *)
theory TokenContract
  imports NotifModel
begin

text \<open>
  What the stream handler asks of the store of one-time tokens (the interface \<open>tokenStore\<close> of
  \<open>internal/http/handlers/sse.go\<close>, and the sweep that runs beside it), and what follows from
  it for any sequence of calls.
\<close>

record 'd TokenDeps =
  tk_Issue :: "string \<Rightarrow> 'd world \<Rightarrow> string \<times> 'd world"
  tk_Consume :: "string \<Rightarrow> 'd world \<Rightarrow> string option \<times> 'd world"
  tk_sweep :: "'d world \<Rightarrow> 'd world"

section \<open>Sequences of calls\<close>

datatype token_op = OpIssue string | OpConsume string | OpSweep

datatype token_event = Issued string string | Consumed string string | Refused_token string | Swept

fun run_tokens :: "'d TokenDeps \<Rightarrow> token_op list \<Rightarrow> 'd world \<Rightarrow> token_event list \<times> 'd world" where
  "run_tokens D [] w = ([], w)"
| "run_tokens D (OpIssue u # ops) w =
    (let (tok, w1) = tk_Issue D u w; (es, w2) = run_tokens D ops w1 in (Issued tok u # es, w2))"
| "run_tokens D (OpConsume tok # ops) w =
    (let (r, w1) = tk_Consume D tok w; (es, w2) = run_tokens D ops w1
     in ((case r of None \<Rightarrow> Refused_token tok | Some u \<Rightarrow> Consumed tok u) # es, w2))"
| "run_tokens D (OpSweep # ops) w =
    (let w1 = tk_sweep D w; (es, w2) = run_tokens D ops w1 in (Swept # es, w2))"

lemma run_tokens_step:
  assumes "run_tokens D (op # ops) w = (es, w')"
  obtains (issue) u t w1 es1 where "op = OpIssue u" "tk_Issue D u w = (t, w1)" "run_tokens D ops w1 = (es1, w')" "es = Issued t u # es1"
  | (accept) t u w1 es1 where "op = OpConsume t" "tk_Consume D t w = (Some u, w1)" "run_tokens D ops w1 = (es1, w')" "es = Consumed t u # es1"
  | (refuse) t w1 es1 where "op = OpConsume t" "tk_Consume D t w = (None, w1)" "run_tokens D ops w1 = (es1, w')" "es = Refused_token t # es1"
  | (sweep) es1 where "op = OpSweep" "run_tokens D ops (tk_sweep D w) = (es1, w')" "es = Swept # es1"
  using assms by (cases op) (auto split: prod.splits option.splits)

text \<open>How often a token was handed out, and how often it was accepted.\<close>

definition issues :: "string \<Rightarrow> token_event list \<Rightarrow> nat" where
  "issues tok es = length (filter (\<lambda>e. \<exists>u. e = Issued tok u) es)"

definition accepts :: "string \<Rightarrow> token_event list \<Rightarrow> nat" where
  "accepts tok es = length (filter (\<lambda>e. \<exists>u. e = Consumed tok u) es)"

lemma issues_simps [simp]:
  "issues tok [] = 0" "issues tok (Issued t u # es) = (if t = tok then 1 else 0) + issues tok es"
  "issues tok (Consumed t u # es) = issues tok es" "issues tok (Refused_token t # es) = issues tok es"
  "issues tok (Swept # es) = issues tok es"
  by (auto simp: issues_def)

lemma accepts_simps [simp]:
  "accepts tok [] = 0" "accepts tok (Consumed t u # es) = (if t = tok then 1 else 0) + accepts tok es"
  "accepts tok (Issued t u # es) = accepts tok es" "accepts tok (Refused_token t # es) = accepts tok es"
  "accepts tok (Swept # es) = accepts tok es"
  by (auto simp: accepts_def)

text \<open>A sequence that leaves a token alone: it neither presents it nor happens to hand it out.\<close>

definition leaves :: "string \<Rightarrow> token_event list \<Rightarrow> bool" where
  "leaves tok es \<longleftrightarrow> (\<forall>e \<in> set es. (\<forall>u. e \<noteq> Issued tok u) \<and> (\<forall>u. e \<noteq> Consumed tok u) \<and> e \<noteq> Refused_token tok)"

section \<open>The laws\<close>

text \<open>\<open>live\<close> is the user and the last valid instant of each token that the store holds.\<close>

locale token_backend =
  fixes D :: "'d TokenDeps"
    and live :: "'d \<Rightarrow> string \<Rightarrow> (string \<times> time) option"
    and ttl :: duration
  assumes issue_stores:
      "tk_Issue D u w = (tok, w') \<Longrightarrow> live (store w') = (live (store w))(tok \<mapsto> (u, clock w' + ttl)) \<and> clock w \<le> clock w'"
    and consume_removes:
      "tk_Consume D tok w = (r, w') \<Longrightarrow> live (store w') = (live (store w))(tok := None) \<and> clock w \<le> clock w'"
    and consume_answers:
      "tk_Consume D tok w = (r, w') \<Longrightarrow>
       r = (case live (store w) tok of None \<Rightarrow> None
            | Some (u, e) \<Rightarrow> if fst (time_Now w) \<le> e then Some u else None)"
    and sweep_removes_expired:
      "live (store (tk_sweep D w)) tok = live (store w) tok \<or>
       live (store (tk_sweep D w)) tok = None \<and>
       (\<forall>u e. live (store w) tok = Some (u, e) \<longrightarrow> e < clock (tk_sweep D w))"
    and sweep_time: "clock w \<le> clock (tk_sweep D w)"
begin

text \<open>Each token is accepted at most once for each time it was handed out.\<close>

lemma accepted_once:
  "run_tokens D ops w = (es, w') \<Longrightarrow>
   accepts tok es \<le> issues tok es + (if live (store w) tok = None then 0 else 1)"
proof (induction ops arbitrary: w es)
  case Nil
  then show ?case by simp
next
  case (Cons op ops)
  from Cons.prems show ?case
  proof (cases rule: run_tokens_step)
    case (issue u t w1 es1)
    then show ?thesis using Cons.IH [OF issue(3)] issue_stores [OF issue(2)] by (auto split: if_splits)
  next
    case (accept t u w1 es1)
    then show ?thesis
      using Cons.IH [OF accept(3)] consume_removes [OF accept(2)] consume_answers [OF accept(2)]
      by (auto split: if_splits option.splits)
  next
    case (refuse t w1 es1)
    then show ?thesis
      using Cons.IH [OF refuse(3)] consume_removes [OF refuse(2)] by (auto split: if_splits)
  next
    case (sweep es1)
    then show ?thesis using Cons.IH [OF sweep(2)] sweep_removes_expired [of w tok] by (auto split: if_splits)
  qed
qed

text \<open>
  While a sequence leaves a token alone, the token stays what it is, or it has expired and
  been swept; time does not run backwards.
\<close>

definition faded :: "'d world \<Rightarrow> 'd world \<Rightarrow> string \<Rightarrow> bool" where
  "faded w w' tok \<longleftrightarrow> clock w \<le> clock w' \<and>
    (live (store w') tok = live (store w) tok \<or>
     live (store w') tok = None \<and> (\<forall>u e. live (store w) tok = Some (u, e) \<longrightarrow> e < clock w'))"

lemma faded_trans: "faded w1 w2 tok \<Longrightarrow> faded w2 w3 tok \<Longrightarrow> faded w1 w3 tok"
  unfolding faded_def by force

lemma left_alone:
  "run_tokens D ops w = (es, w') \<Longrightarrow> leaves tok es \<Longrightarrow> faded w w' tok"
proof (induction ops arbitrary: w es)
  case Nil
  then show ?case by (simp add: faded_def)
next
  case (Cons op ops)
  from Cons.prems(1) show ?case
  proof (cases rule: run_tokens_step)
    case (issue u t w1 es1)
    then have "t \<noteq> tok" "leaves tok es1" using Cons.prems(2) by (auto simp: leaves_def)
    moreover from this have "faded w w1 tok" using issue_stores [OF issue(2)] by (simp add: faded_def)
    ultimately show ?thesis using Cons.IH [OF issue(3)] faded_trans by blast
  next
    case (accept t u w1 es1)
    then have "t \<noteq> tok" "leaves tok es1" using Cons.prems(2) by (auto simp: leaves_def)
    moreover from this have "faded w w1 tok" using consume_removes [OF accept(2)] by (simp add: faded_def)
    ultimately show ?thesis using Cons.IH [OF accept(3)] faded_trans by blast
  next
    case (refuse t w1 es1)
    then have "t \<noteq> tok" "leaves tok es1" using Cons.prems(2) by (auto simp: leaves_def)
    moreover from this have "faded w w1 tok" using consume_removes [OF refuse(2)] by (simp add: faded_def)
    ultimately show ?thesis using Cons.IH [OF refuse(3)] faded_trans by blast
  next
    case (sweep es1)
    then have "leaves tok es1" using Cons.prems(2) by (auto simp: leaves_def)
    moreover have "faded w (tk_sweep D w) tok"
      using sweep_removes_expired [of w tok] sweep_time [of w] by (auto simp: faded_def)
    ultimately show ?thesis using Cons.IH [OF sweep(2)] faded_trans by blast
  qed
qed

text \<open>A token that was handed out is accepted for its user until it expires, and not afterwards.\<close>

lemma accepted_in_time:
  assumes "tk_Issue D u w = (tok, w1)" "run_tokens D ops w1 = (es, w2)" "leaves tok es" "tk_Consume D tok w2 = (r, w3)"
  shows "r = (if fst (time_Now w2) \<le> clock w1 + ttl then Some u else None)"
proof -
  have "live (store w1) tok = Some (u, clock w1 + ttl)" using issue_stores [OF assms(1)] by simp
  with left_alone [OF assms(2,3)] consume_answers [OF assms(4)] time_Now_monotone [of w2]
  show ?thesis by (auto simp: faded_def)
qed

end

end
