(* ===== verification/TokenStore.thy ===== *)
theory TokenStore
  imports TokenContract
begin

text \<open>
  \<open>notification-service/internal/hub/token.go\<close>: one-time tokens that open a stream.  A map
  of Go is a partial function; each operation holds the mutex, so it is one atomic step.
\<close>

section \<open>Operations\<close>

definition tokenTTL_sse :: duration where "tokenTTL_sse = 30 * Second"

abbreviation with_tokens :: "(string \<Rightarrow> tokenEntry option) \<Rightarrow> NotifState world \<Rightarrow> NotifState world" where
  "with_tokens m w \<equiv> w\<lparr>store := (store w)\<lparr>tokens := m\<rparr>\<rparr>"

definition Issue :: "externals \<Rightarrow> string \<Rightarrow> NotifState world \<Rightarrow> string \<times> NotifState world" where
  "Issue L userID w =
    (let (u, w1) = uuid_New w; token = uuid_String L u; (now, w2) = time_Now w1
     in (token, with_tokens ((tokens (store w2))(token \<mapsto>
           \<lparr> te_userID = userID, te_expiresAt = now + tokenTTL_sse \<rparr>)) w2))"

definition Consume :: "string \<Rightarrow> NotifState world \<Rightarrow> string option \<times> NotifState world" where
  "Consume token w =
    (let entry = tokens (store w) token; w1 = with_tokens ((tokens (store w))(token := None)) w
     in case entry of
          None \<Rightarrow> (None, w1)
        | Some e \<Rightarrow>
            (let (now, w2) = time_Now w1
             in if te_expiresAt e < now then (None, w2) else (Some (te_userID e), w2)))"

text \<open>The body of the ticker case of \<open>cleanup\<close>.\<close>

definition unexpired :: "time \<Rightarrow> (string \<Rightarrow> tokenEntry option) \<Rightarrow> string \<Rightarrow> tokenEntry option" where
  "unexpired now m token = (case m token of
      None \<Rightarrow> None | Some e \<Rightarrow> if te_expiresAt e < now then None else Some e)"

definition cleanup_tick :: "NotifState world \<Rightarrow> NotifState world" where
  "cleanup_tick w = (let (now, w1) = time_Now w in with_tokens (unexpired now (tokens (store w1))) w1)"

text \<open>
  The loop, driven by what its \<open>select\<close> finds; between two rounds the requests change the
  state.  It returns when the context is done.
\<close>

datatype cleanup_wake = CleanupTick | CleanupDone

fun cleanup :: "(cleanup_wake \<times> (NotifState \<Rightarrow> NotifState)) list \<Rightarrow> NotifState world \<Rightarrow> bool \<times> NotifState world" where
  "cleanup [] w = (False, w)"
| "cleanup ((CleanupTick, others) # rounds) w = cleanup rounds (cleanup_tick (w\<lparr>store := others (store w)\<rparr>))"
| "cleanup ((CleanupDone, others) # rounds) w = (True, w\<lparr>store := others (store w)\<rparr>)"

section \<open>The laws\<close>

definition live_token :: "NotifState \<Rightarrow> string \<Rightarrow> (string \<times> time) option" where
  "live_token d tok = map_option (\<lambda>e. (te_userID e, te_expiresAt e)) (tokens d tok)"

definition go_tokens :: "externals \<Rightarrow> NotifState TokenDeps" where
  "go_tokens L = \<lparr> tk_Issue = Issue L, tk_Consume = Consume, tk_sweep = cleanup_tick \<rparr>"

lemma go_tokens_simps [simp]:
  "tk_Issue (go_tokens L) = Issue L" "tk_Consume (go_tokens L) = Consume" "tk_sweep (go_tokens L) = cleanup_tick"
  by (simp_all add: go_tokens_def)

lemma uuid_New_clock [simp]: "clock (snd (uuid_New w)) = clock w"
  by (simp add: uuid_New_def)

lemma time_Now_update [simp]:
  "time_Now (w\<lparr>store := d\<rparr>) = (fst (time_Now w), (snd (time_Now w))\<lparr>store := d\<rparr>)"
  by (simp add: time_Now_def split: list.split)

lemma Issue_stores:
  assumes "Issue L u w = (tok, w')"
  shows "live_token (store w') = (live_token (store w))(tok \<mapsto> (u, clock w' + tokenTTL_sse)) \<and> clock w \<le> clock w'"
    and "notifications (store w') = notifications (store w) \<and> hub (store w') = hub (store w)"
proof -
  obtain i w1 where i: "uuid_New w = (i, w1)" by (cases "uuid_New w")
  obtain now w2 where t: "time_Now w1 = (now, w2)" by (cases "time_Now w1")
  have s: "store w1 = store w" "clock w1 = clock w" using uuid_New_storeD [OF i] uuid_New_clock [of w] i by simp_all
  have c: "store w2 = store w1" "clock w2 = now" "clock w1 \<le> now"
    using time_Now_storeD [OF t] time_Now_clock [of w1] time_Now_monotone [of w1] t by simp_all
  have w': "tok = uuid_String L i"
    "w' = with_tokens ((tokens (store w2))(tok \<mapsto> \<lparr> te_userID = u, te_expiresAt = now + tokenTTL_sse \<rparr>)) w2"
    using assms by (auto simp: Issue_def i t Let_def)
  show "live_token (store w') = (live_token (store w))(tok \<mapsto> (u, clock w' + tokenTTL_sse)) \<and> clock w \<le> clock w'"
    using s c by (auto simp: w'(2) live_token_def fun_eq_iff)
  show "notifications (store w') = notifications (store w) \<and> hub (store w') = hub (store w)"
    using s c by (simp add: w'(2))
qed

lemma Consume_effect:
  assumes "Consume tok w = (r, w')"
  shows "live_token (store w') = (live_token (store w))(tok := None) \<and> clock w \<le> clock w'"
    and "r = (case live_token (store w) tok of None \<Rightarrow> None
              | Some (u, e) \<Rightarrow> if fst (time_Now w) \<le> e then Some u else None)"
    and "notifications (store w') = notifications (store w) \<and> hub (store w') = hub (store w)"
  using assms time_Now_monotone [of w]
  by (auto simp: Consume_def live_token_def fun_eq_iff Let_def time_Now_clock split: option.splits if_splits)

lemma cleanup_tick_effect:
  "tokens (store (cleanup_tick w)) = unexpired (clock (cleanup_tick w)) (tokens (store w))"
  "notifications (store (cleanup_tick w)) = notifications (store w)" "hub (store (cleanup_tick w)) = hub (store w)"
  "clock w \<le> clock (cleanup_tick w)"
  using time_Now_monotone [of w]
  by (simp_all add: cleanup_tick_def time_Now_store time_Now_clock split: prod.split) (simp_all add: time_Now_def split: list.splits)

interpretation go_tokens_laws: token_backend "go_tokens L" live_token tokenTTL_sse for L
proof (unfold_locales, goal_cases)
  case (1 u w tok w')
  then show ?case using Issue_stores(1) by simp
next
  case (2 tok w r w')
  then show ?case using Consume_effect(1) by simp
next
  case (3 tok w r w')
  then show ?case using Consume_effect(2) by simp
next
  case (4 w tok)
  show ?case by (auto simp: live_token_def cleanup_tick_effect unexpired_def split: option.split)
next
  case (5 w)
  show ?case by (simp add: cleanup_tick_effect)
qed

end
