(* ===== verification/Stream.thy ===== *)
theory Stream
  imports Hub TokenStore Http
begin

text \<open>
  \<open>notification-service/internal/http/handlers/sse.go\<close>: the handler that hands out one-time
  tokens and the handler of the event stream.  A stream is a loop over a \<open>select\<close>; a script
  says what each round finds (a message in the channel, the heartbeat, the end of the request)
  and whether the write that follows succeeds, and carries what other goroutines do to the
  store before it.  A script that has ended is a stream that is still open, and a round that
  would receive from an empty channel receives nothing.  The error branch of \<open>json.Marshal\<close> is
  left out: only a year beyond 9999 causes it, and the times of a notification are those of a
  decoded event or the clock's.
\<close>

section \<open>Answers\<close>

datatype ncode = CodeUnauthorized | CodeInternalError | CodeTooManyConnections | CodeNotFound | CodeForbidden

datatype npayload =
    NEmpty
  | NText string
  | NError ncode string
  | NToken string
  | NList "Notification list" int

datatype frame = Connected | NotificationFrame Notification | Ping

text \<open>
  A request for a stream is answered, or it becomes a stream: its user, its channel, the frames
  written so far and whether it is still open.
\<close>

datatype stream_result = Answered "npayload response" | Streaming string chan "frame list" bool

section \<open>Tokens\<close>

text \<open>The user of the request's context; without one, the zero value.\<close>

definition UserIDFromContext :: "request \<Rightarrow> uuid" where
  "UserIDFromContext r = (case rq_UserID r of None \<Rightarrow> 0 | Some u \<Rightarrow> u)"

definition issueToken :: "externals \<Rightarrow> 'd TokenDeps \<Rightarrow> (npayload, 'd) handler" where
  "issueToken L T r w =
    (let (token, w1) = tk_Issue T (uuid_String L (UserIDFromContext r)) w in answer 200 (NToken token) w1)"

section \<open>The loop of a stream\<close>

datatype sse_wake = WakeChan | WakeTicker | WakeDone

type_synonym 'd sse_round = "sse_wake \<times> bool \<times> ('d \<Rightarrow> 'd)"

text \<open>The deadline of a write is not modelled; the reading of the clock for it is.\<close>

definition set_deadline :: "'d world \<Rightarrow> 'd world" where
  "set_deadline w = snd (time_Now w)"

fun stream_loop :: "'d HubDeps \<Rightarrow> chan \<Rightarrow> 'd sse_round list \<Rightarrow> 'd world \<Rightarrow> frame list \<times> bool \<times> 'd world" where
  "stream_loop H ch [] w = ([], True, w)"
| "stream_loop H ch ((WakeDone, write_ok, others) # rounds) w = ([], False, w\<lparr>store := others (store w)\<rparr>)"
| "stream_loop H ch ((WakeTicker, write_ok, others) # rounds) w =
    (let w1 = set_deadline (w\<lparr>store := others (store w)\<rparr>)
     in if \<not> write_ok then ([], False, w1)
        else (let (fs, still_open, w2) = stream_loop H ch rounds w1 in (Ping # fs, still_open, w2)))"
| "stream_loop H ch ((WakeChan, write_ok, others) # rounds) w =
    (case hb_receive H ch (others (store w)) of
       None \<Rightarrow> stream_loop H ch rounds (w\<lparr>store := others (store w)\<rparr>)
     | Some (n, d) \<Rightarrow>
         (let w1 = set_deadline (w\<lparr>store := d\<rparr>)
          in if \<not> write_ok then ([], False, w1)
             else (let (fs, still_open, w2) = stream_loop H ch rounds w1
                   in (NotificationFrame n # fs, still_open, w2))))"

section \<open>The handler\<close>

definition gauge_Dec :: "string \<Rightarrow> 'd world \<Rightarrow> 'd world" where
  "gauge_Dec name w = w\<lparr>counters := (counters w)(name := counters w name - 1)\<rparr>"

text \<open>The deferred calls, in their order.\<close>

definition close_stream :: "'d HubDeps \<Rightarrow> string \<Rightarrow> chan \<Rightarrow> 'd world \<Rightarrow> 'd world" where
  "close_stream H userID ch w =
    (let w1 = gauge_Dec (me_Name SSEConnectionsActive) w in w1\<lparr>store := hb_unsubscribe H userID ch (store w1)\<rparr>)"

text \<open>
  What the connection allows: whether it can be flushed, whether its write deadline can be
  lifted, and whether the first write succeeds.
\<close>

record connection =
  cn_flusher :: bool
  cn_deadline :: bool
  cn_first_write :: bool

definition streamNotifications ::
    "'d TokenDeps \<Rightarrow> 'd HubDeps \<Rightarrow> connection \<Rightarrow> 'd sse_round list \<Rightarrow> request \<Rightarrow> 'd world \<Rightarrow> stream_result \<times> 'd world" where
  "streamNotifications T H c rounds r w =
    (let token = get_param (rq_Query r) ''token'';
         refuse = (\<lambda>status code message w. (Answered \<lparr> rs_Status = status, rs_Body = NError code message \<rparr>, w))
     in if token = '''' then refuse 401 CodeUnauthorized ''token is required'' w
        else
          (case tk_Consume T token w of
             (None, w1) \<Rightarrow> refuse 401 CodeUnauthorized ''invalid or expired token'' w1
           | (Some userID, w1) \<Rightarrow>
               if \<not> cn_flusher c then refuse 500 CodeInternalError ''streaming not supported'' w1
               else if \<not> cn_deadline c then refuse 500 CodeInternalError ''failed to configure stream'' w1
               else
                 (case hb_Subscribe H userID (store w1) of
                    (Inl e, d) \<Rightarrow> refuse 429 CodeTooManyConnections ''too many active SSE connections'' (w1\<lparr>store := d\<rparr>)
                  | (Inr ch, d) \<Rightarrow>
                      (let w2 = set_deadline (counter_Add (me_Name SSEConnectionsActive) 1 (w1\<lparr>store := d\<rparr>))
                       in if \<not> cn_first_write c then (Streaming userID ch [] False, close_stream H userID ch w2)
                          else
                            (let (fs, still_open, w3) = stream_loop H ch rounds w2
                             in (Streaming userID ch (Connected # fs) still_open,
                                 if still_open then w3 else close_stream H userID ch w3))))))"

section \<open>What a stream shows\<close>

lemma set_deadline_simps [simp]: "store (set_deadline w) = store w" "counters (set_deadline w) = counters w"
  by (simp_all add: set_deadline_def time_Now_store) (simp add: time_Now_def split: list.split)

definition notifications_in :: "frame list \<Rightarrow> Notification list" where
  "notifications_in fs = concat (map (\<lambda>f. case f of NotificationFrame n \<Rightarrow> [n] | _ \<Rightarrow> []) fs)"

lemma notifications_in_simps [simp]:
  "notifications_in [] = []" "notifications_in (Connected # fs) = notifications_in fs"
  "notifications_in (Ping # fs) = notifications_in fs"
  "notifications_in (NotificationFrame n # fs) = n # notifications_in fs"
  by (simp_all add: notifications_in_def)

lemma stream_loop_counters:
  "stream_loop H ch rounds w = (fs, still_open, w') \<Longrightarrow> counters w' = counters w"
  by (induction H ch rounds w arbitrary: fs rule: stream_loop.induct)
    (auto simp: Let_def split: prod.splits option.splits if_splits)

text \<open>A script whose writes succeed and whose other goroutines only broadcast.\<close>

definition broadcast_rounds :: "'d HubDeps \<Rightarrow> (sse_wake \<times> (string \<times> Notification) list) list \<Rightarrow> 'd sse_round list" where
  "broadcast_rounds H script =
     map (\<lambda>(wake, ms). (wake, True, fold (\<lambda>(v, n). hb_Broadcast H v n) ms)) script"

definition broadcasts_of :: "(sse_wake \<times> (string \<times> Notification) list) list \<Rightarrow> (string \<times> Notification) list" where
  "broadcasts_of script = concat (map snd script)"

context hub_backend
begin

text \<open>
  In a stream that keeps up, what was written followed by what waits in the channel is
  everything that was broadcast to its user, in order, and nothing else.
\<close>

lemma mail_for_append: "mail_for u (ms @ ms') = mail_for u ms @ mail_for u ms'"
  by (simp add: mail_for_def)

lemma stream_shows_mail:
  "stream_loop D ch (broadcast_rounds D script) w = (fs, True, w') \<Longrightarrow> ok (store w) \<Longrightarrow> boxes (store w) u ch = Some q \<Longrightarrow>
   length q + length (mail_for u (broadcasts_of script)) \<le> cap \<Longrightarrow>
   \<exists>q'. boxes (store w') u ch = Some q' \<and> notifications_in fs @ q' = q @ mail_for u (broadcasts_of script)"
proof (induction script arbitrary: w q fs)
  case Nil
  then show ?case by (simp add: mail_for_def broadcast_rounds_def broadcasts_of_def)
next
  case (Cons x script)
  obtain wake ms where x: "x = (wake, ms)" by (cases x) auto
  let ?d = "broadcast_all ms (store w)"
  let ?rounds = "broadcast_rounds D script"
  have mail: "mail_for u (broadcasts_of (x # script)) = mail_for u ms @ mail_for u (broadcasts_of script)"
    by (simp add: broadcasts_of_def x mail_for_append)
  have len: "length (q @ mail_for u ms) + length (mail_for u (broadcasts_of script)) \<le> cap"
    using Cons.prems(4) by (simp add: mail)
  have d: "ok ?d" "boxes ?d u ch = Some (q @ mail_for u ms)"
    using broadcast_all_ok [OF Cons.prems(2), of ms] broadcast_all_box [OF Cons.prems(2,3), of ms] Cons.prems(4)
    by (simp_all add: mail)
  have run: "stream_loop D ch ((wake, True, broadcast_all ms) # ?rounds) w = (fs, True, w')"
    using Cons.prems(1) by (simp add: x broadcast_rounds_def broadcast_all_def [abs_def])
  show ?case
  proof (cases wake)
    case WakeDone
    then show ?thesis using run by simp
  next
    case WakeTicker
    then obtain fs1 where r: "stream_loop D ch ?rounds (set_deadline (w\<lparr>store := ?d\<rparr>)) = (fs1, True, w')" "fs = Ping # fs1"
      using run by (auto simp: Let_def split: prod.splits)
    show ?thesis using Cons.IH [OF r(1) _ _ len] d r(2) by (simp add: mail)
  next
    case WakeChan
    show ?thesis
    proof (cases "q @ mail_for u ms")
      case Nil
      then have "hb_receive D ch ?d = None" using receive_takes [OF d(2,1)] by simp
      then have r: "stream_loop D ch ?rounds (w\<lparr>store := ?d\<rparr>) = (fs, True, w')" using run WakeChan by simp
      show ?thesis using Cons.IH [OF r _ _ len] d by (simp add: mail)
    next
      case (Cons n q1)
      obtain d1 where d1: "hb_receive D ch ?d = Some (n, d1)" "boxes d1 u ch = Some q1"
        using receive_takes [OF d(2,1)] Cons by auto
      then obtain fs1 where r: "stream_loop D ch ?rounds (set_deadline (w\<lparr>store := d1\<rparr>)) = (fs1, True, w')"
        "fs = NotificationFrame n # fs1"
        using run WakeChan by (auto simp: Let_def split: prod.splits)
      have l: "length q1 + length (mail_for u (broadcasts_of script)) \<le> cap"
        using len arg_cong [OF Cons, of length] by simp
      have "\<exists>q'. boxes (store w') u ch = Some q' \<and> notifications_in fs1 @ q' = q1 @ mail_for u (broadcasts_of script)"
        by (rule Cons.IH [OF r(1) _ _ l]) (use d1 receive_ok [OF d1(1) d(1)] in simp_all)
      then obtain q' where q': "boxes (store w') u ch = Some q'"
        "notifications_in fs @ q' = (n # q1) @ mail_for u (broadcasts_of script)" using r(2) by auto
      from q'(2) have "notifications_in fs @ q' = q @ mail_for u (broadcasts_of (x # script))"
        unfolding mail Cons [symmetric] append_assoc .
      with q'(1) show ?thesis by blast
    qed
  qed
qed

text \<open>A stream that has ended has given its channel back, whatever ended it.\<close>

lemma stream_loop_ok:
  "stream_loop D ch rounds w = (fs, still_open, w') \<Longrightarrow>
   \<forall>(wake, write_ok, others) \<in> set rounds. \<forall>d. ok d \<longrightarrow> ok (others d) \<Longrightarrow> ok (store w) \<Longrightarrow> ok (store w')"
proof (induction rounds arbitrary: w fs)
  case Nil
  then show ?case by simp
next
  case (Cons x rounds)
  obtain wake write_ok others where x: "x = (wake, write_ok, others)" by (cases x) auto
  have o: "ok (others (store w))" using Cons.prems(2,3) by (auto simp: x)
  have IH: "stream_loop D ch rounds w1 = (fs1, still_open, w') \<Longrightarrow> ok (store w1) \<Longrightarrow> ok (store w')" for w1 fs1
    using Cons.IH Cons.prems(2) by simp
  show ?case
  proof (cases wake)
    case WakeDone
    then show ?thesis using Cons.prems(1) o by (auto simp: x)
  next
    case WakeTicker
    then show ?thesis using Cons.prems(1) o IH by (fastforce simp: x Let_def split: prod.splits if_splits)
  next
    case WakeChan
    show ?thesis
    proof (cases "hb_receive D ch (others (store w))")
      case None
      then show ?thesis using Cons.prems(1) WakeChan o IH by (simp add: x)
    next
      case (Some nd)
      obtain n d where nd: "nd = (n, d)" by (cases nd)
      have "ok d" using receive_ok [OF Some [unfolded nd] o] .
      then show ?thesis
        using Cons.prems(1) WakeChan Some IH by (fastforce simp: x nd Let_def split: prod.splits if_splits)
    qed
  qed
qed

end

section \<open>The handler over both of its providers\<close>

locale stream_backend = hub_backend D ok boxes limit cap + token_backend T live ttl
  for D :: "'d HubDeps" and ok :: "'d \<Rightarrow> bool" and boxes :: "'d \<Rightarrow> mailboxes" and limit cap :: nat
    and T :: "'d TokenDeps" and live :: "'d \<Rightarrow> string \<Rightarrow> (string \<times> time) option" and ttl :: duration +
  assumes consume_keeps_hub:
    "tk_Consume T tok w = (x, w1) \<Longrightarrow> ok (store w) \<Longrightarrow>
     ok (store w1) \<and> boxes (store w1) = boxes (store w) \<and> counters w1 = counters w"
begin

abbreviation request_token :: "request \<Rightarrow> string" where
  "request_token r \<equiv> get_param (rq_Query r) ''token''"

text \<open>The user of a stream is the one its token was issued to, and the token is spent.\<close>

lemma stream_opens:
  assumes "streamNotifications T D c rounds r w = (Streaming u ch fs still_open, w')" and "ok (store w)"
  obtains e w1 d w2 where
    "live (store w) (request_token r) = Some (u, e)" "fst (time_Now w) \<le> e"
    "live (store w1) (request_token r) = None"
    "hb_Subscribe D u (store w1) = (Inr ch, d)" "ok d" "boxes d = open_box u ch (boxes (store w))"
    "\<forall>v. boxes (store w) v ch = None"
    "w2 = set_deadline (counter_Add (me_Name SSEConnectionsActive) 1 (w1\<lparr>store := d\<rparr>))" "counters w1 = counters w"
    "if cn_first_write c
     then (\<exists>fs1 w3. stream_loop D ch rounds w2 = (fs1, still_open, w3) \<and> fs = Connected # fs1 \<and>
             w' = (if still_open then w3 else close_stream D u ch w3))
     else fs = [] \<and> \<not> still_open \<and> w' = close_stream D u ch w2"
proof -
  obtain w1 d where t: "tk_Consume T (request_token r) w = (Some u, w1)"
    and s: "hb_Subscribe D u (store w1) = (Inr ch, d)"
    and rest: "if cn_first_write c
     then (\<exists>fs1 w3. stream_loop D ch rounds (set_deadline (counter_Add (me_Name SSEConnectionsActive) 1 (w1\<lparr>store := d\<rparr>))) = (fs1, still_open, w3) \<and>
             fs = Connected # fs1 \<and> w' = (if still_open then w3 else close_stream D u ch w3))
     else fs = [] \<and> \<not> still_open \<and> w' = close_stream D u ch (set_deadline (counter_Add (me_Name SSEConnectionsActive) 1 (w1\<lparr>store := d\<rparr>)))"
    using assms(1) by (auto simp: streamNotifications_def Let_def split: if_splits prod.splits option.splits sum.splits)
  from consume_answers [OF t] obtain e where e: "live (store w) (request_token r) = Some (u, e)" "fst (time_Now w) \<le> e"
    by (auto split: option.splits prod.splits if_splits)
  note k = consume_keeps_hub [OF t assms(2)]
  show thesis
    by (rule that [OF e _ s subscribe_ok [OF s] _ _ refl _ rest])
      (use k subscribe_opens [OF s] consume_removes [OF t] in auto)
qed

lemma ended_stream:
  assumes run: "streamNotifications T D c rounds r w = (Streaming u ch fs False, w')" and ok: "ok (store w)"
    and others: "\<forall>(wake, write_ok, others) \<in> set rounds. \<forall>d. ok d \<longrightarrow> ok (others d)"
  shows "ok (store w') \<and> boxes (store w') u ch = None \<and>
    counters w' (me_Name SSEConnectionsActive) = counters w (me_Name SSEConnectionsActive)"
proof -
  have closed: "ok (store (close_stream D u ch v)) \<and> boxes (store (close_stream D u ch v)) u ch = None \<and>
      counters (close_stream D u ch v) (me_Name SSEConnectionsActive) = counters w (me_Name SSEConnectionsActive)"
    if "ok (store v)" "counters v (me_Name SSEConnectionsActive) = Suc (counters w (me_Name SSEConnectionsActive))" for v
    using that unsubscribe_ok unsubscribe_closes
    by (simp add: close_stream_def gauge_Dec_def close_box_def Let_def)
  show ?thesis
    using run ok
  proof (rule stream_opens)
    fix e w1 d w2
    assume "ok d" and w2: "w2 = set_deadline (counter_Add (me_Name SSEConnectionsActive) 1 (w1\<lparr>store := d\<rparr>))" and c: "counters w1 = counters w"
      and rest: "if cn_first_write c
       then (\<exists>fs1 w3. stream_loop D ch rounds w2 = (fs1, False, w3) \<and> fs = Connected # fs1 \<and>
               w' = (if False then w3 else close_stream D u ch w3))
       else fs = [] \<and> \<not> False \<and> w' = close_stream D u ch w2"
    have w2': "ok (store w2)" "counters w2 (me_Name SSEConnectionsActive) = Suc (counters w (me_Name SSEConnectionsActive))"
      using \<open>ok d\<close> by (simp_all add: w2 counter_Add_def c)
    show ?thesis
    proof (cases "cn_first_write c")
      case True
      then obtain fs1 w3 where l: "stream_loop D ch rounds w2 = (fs1, False, w3)" "w' = close_stream D u ch w3"
        using rest by auto
      show ?thesis
        unfolding l(2) using closed [of w3] stream_loop_ok [OF l(1) others w2'(1)] stream_loop_counters [OF l(1)] w2'(2) by simp
    next
      case False
      then show ?thesis using rest closed [OF w2'] by simp
    qed
  qed
qed

text \<open>An open stream has shown its user what was broadcast to that user since it opened.\<close>

lemma open_stream_shows:
  assumes run: "streamNotifications T D c (broadcast_rounds D script) r w = (Streaming u ch fs True, w')" and ok: "ok (store w)"
    and few: "length (mail_for u (broadcasts_of script)) \<le> cap"
  shows "\<exists>q e. boxes (store w') u ch = Some q \<and> notifications_in fs @ q = mail_for u (broadcasts_of script) \<and>
    live (store w) (request_token r) = Some (u, e)"
  using run ok
proof (rule stream_opens)
  fix e w1 d w2
  assume live: "live (store w) (request_token r) = Some (u, e)" and "ok d" and b: "boxes d = open_box u ch (boxes (store w))"
    and w2: "w2 = set_deadline (counter_Add (me_Name SSEConnectionsActive) 1 (w1\<lparr>store := d\<rparr>))"
    and rest: "if cn_first_write c
       then (\<exists>fs1 w3. stream_loop D ch (broadcast_rounds D script) w2 = (fs1, True, w3) \<and> fs = Connected # fs1 \<and>
               w' = (if True then w3 else close_stream D u ch w3))
       else fs = [] \<and> \<not> True \<and> w' = close_stream D u ch w2"
  then obtain fs1 where l: "stream_loop D ch (broadcast_rounds D script) w2 = (fs1, True, w')" "fs = Connected # fs1"
    by (auto split: if_splits)
  have "store w2 = d" by (simp add: w2 counter_Add_def)
  then have "\<exists>q'. boxes (store w') u ch = Some q' \<and> notifications_in fs1 @ q' = [] @ mail_for u (broadcasts_of script)"
    using \<open>ok d\<close> b few by (intro stream_shows_mail [OF l(1)]) (simp_all add: open_box_def)
  then show ?thesis using l(2) live by auto
qed

end

section \<open>The hub and the tokens of the process\<close>

text \<open>The operations of the hub on the state of the process.\<close>

definition app_hub :: "NotifState HubDeps" where
  "app_hub = \<lparr>
     hb_Subscribe = (\<lambda>u d. let (r, h) = Subscribe u (hub d) in (r, d\<lparr>hub := h\<rparr>)),
     hb_unsubscribe = (\<lambda>u ch d. d\<lparr>hub := unsubscribe u ch (hub d)\<rparr>),
     hb_Broadcast = (\<lambda>u n d. d\<lparr>hub := Broadcast u n (hub d)\<rparr>),
     hb_receive = (\<lambda>ch d. map_option (\<lambda>(n, h). (n, d\<lparr>hub := h\<rparr>)) (receive ch (hub d))) \<rparr>"

abbreviation app_boxes :: "NotifState \<Rightarrow> mailboxes" where
  "app_boxes d \<equiv> mailboxes_of (hub d)"

abbreviation app_ok :: "NotifState \<Rightarrow> bool" where
  "app_ok d \<equiv> hub_ok (hub d)"

lemma app_hub_simps:
  "hb_Subscribe app_hub u d = (r, d') \<longleftrightarrow> (\<exists>h. Subscribe u (hub d) = (r, h) \<and> d' = d\<lparr>hub := h\<rparr>)"
  "hb_unsubscribe app_hub u ch d = d\<lparr>hub := unsubscribe u ch (hub d)\<rparr>"
  "hb_Broadcast app_hub u n d = d\<lparr>hub := Broadcast u n (hub d)\<rparr>"
  "hb_receive app_hub ch d = Some (n, d') \<longleftrightarrow> (\<exists>h. receive ch (hub d) = Some (n, h) \<and> d' = d\<lparr>hub := h\<rparr>)"
  "hb_receive app_hub ch d = None \<longleftrightarrow> receive ch (hub d) = None"
  by (auto simp: app_hub_def split: prod.splits)

lemma app_hub_backend: "hub_backend app_hub app_ok app_boxes maxSubsPerUser chanCap"
proof (unfold_locales, goal_cases)
  case (1 h u)
  then show ?case by (rule go_hub_laws.boxes_bounded)
next
  case (2 u h r h')
  then show ?case using go_hub_laws.subscribe_ok [of u "hub h" r] by (auto simp: app_hub_simps)
next
  case (3 u h ch h')
  then show ?case using go_hub_laws.subscribe_opens [of u "hub h" ch] by (auto simp: app_hub_simps)
next
  case (4 u h e h')
  then show ?case using go_hub_laws.subscribe_refuses [of u "hub h" e] by (auto simp: app_hub_simps)
next
  case (5 h u ch)
  then show ?case using go_hub_laws.unsubscribe_ok by (simp add: app_hub_simps)
next
  case (6 h u ch)
  then show ?case using go_hub_laws.unsubscribe_closes by (simp add: app_hub_simps)
next
  case (7 h u n)
  then show ?case using go_hub_laws.broadcast_ok by (simp add: app_hub_simps)
next
  case (8 h u n)
  then show ?case using go_hub_laws.broadcast_delivers by (simp add: app_hub_simps)
next
  case (9 ch h n h')
  then show ?case using go_hub_laws.receive_ok [of ch "hub h" n] by (auto simp: app_hub_simps)
next
  case (10 h u ch q)
  then show ?case using go_hub_laws.receive_takes [of "hub h" u ch q] by (auto simp: app_hub_simps split: list.splits)
qed

lemma Consume_counters: "Consume tok w = (r, w') \<Longrightarrow> counters w' = counters w"
  by (auto simp: Consume_def Let_def time_Now_def split: option.splits list.splits if_splits)

interpretation app_stream: stream_backend app_hub app_ok app_boxes maxSubsPerUser chanCap "go_tokens L" live_token tokenTTL_sse
  for L
proof (intro stream_backend.intro stream_backend_axioms.intro)
  show "hub_backend app_hub app_ok app_boxes maxSubsPerUser chanCap" by (rule app_hub_backend)
  show "token_backend (go_tokens L) live_token tokenTTL_sse" by (rule go_tokens_laws.token_backend_axioms)
  show "app_ok (store w1) \<and> app_boxes (store w1) = app_boxes (store w) \<and> counters w1 = counters w"
    if "tk_Consume (go_tokens L) tok w = (x, w1)" "app_ok (store w)" for tok x and w w1 :: "NotifState world"
    using that Consume_effect(3) Consume_counters by simp
qed

end
