(* ===== verification/NotifHttp.thy ===== *)
theory NotifHttp
  imports NotifService Stream
begin

text \<open>
  The HTTP side of the notification service: \<open>internal/pkg/jwt\<close>, \<open>internal/http/middleware\<close>,
  the handlers of \<open>internal/http/handlers\<close> but for the stream, the router, and the wiring in
  \<open>cmd/main.go\<close>.
\<close>

section \<open>Tokens of the booking service\<close>

text \<open>The key function: the secret for an algorithm of the HMAC family, an error for any other.\<close>

definition notif_key :: "string \<Rightarrow> string \<Rightarrow> string option" where
  "notif_key secret alg = (if alg \<in> {''HS256'', ''HS384'', ''HS512''} then Some secret else None)"

definition notif_ParseToken ::
    "externals \<Rightarrow> string \<Rightarrow> string \<Rightarrow> 'd world \<Rightarrow> (notif_error, uuid \<times> string) result \<times> 'd world" where
  "notif_ParseToken L tokenString secret w =
    (let (now, w1) = time_Now w in
     case jwt_ParseWithClaims L tokenString (notif_key secret) now of
       None \<Rightarrow> (Inl (Wrap ''parsing token'' (Opaque ''parse'')), w1)
     | Some c \<Rightarrow> (Inr (cl_UserID c, cl_Role c), w1))"

section \<open>Middleware\<close>

text \<open>The prefix is compared with its case.\<close>

definition notif_bearerPrefix :: string where "notif_bearerPrefix = ''Bearer ''"

definition notif_unauthorizedBody :: string where
  "notif_unauthorizedBody = ''{''@[CHR 0x22]@''error''@[CHR 0x22]@'':{''@[CHR 0x22]@''code''@[CHR 0x22]@'':''@[CHR 0x22]@''UNAUTHORIZED''@[CHR 0x22]@'',''@[CHR 0x22]@''message''@[CHR 0x22]@'':''@[CHR 0x22]@''unauthorized''@[CHR 0x22]@''}}''"

definition notif_respondUnauthorized :: "'d world \<Rightarrow> npayload response option \<times> 'd world" where
  [simp]: "notif_respondUnauthorized w = answer 401 (NText notif_unauthorizedBody) w"

definition notif_bearer :: "string \<Rightarrow> string option" where
  "notif_bearer authHeader =
    (if authHeader = '''' then None
     else let (tokenString, ok) = CutPrefix authHeader notif_bearerPrefix
          in if \<not> ok \<or> tokenString = '''' then None else Some tokenString)"

definition notif_Auth :: "externals \<Rightarrow> string \<Rightarrow> (npayload, 'd) handler \<Rightarrow> (npayload, 'd) handler" where
  "notif_Auth L jwtSecret next_handler r w =
    (case notif_bearer (rq_Authorization r) of
       None \<Rightarrow> notif_respondUnauthorized w
     | Some tokenString \<Rightarrow>
       (case notif_ParseToken L tokenString jwtSecret w of
          (Inl e, w1) \<Rightarrow> notif_respondUnauthorized w1
        | (Inr (userID, role), w1) \<Rightarrow>
            next_handler (r\<lparr>rq_UserID := Some userID, rq_Role := Some role\<rparr>) w1))"

text \<open>\<open>chimiddleware.Recoverer\<close>: a panic becomes an empty answer with status 500.\<close>

definition notif_Recoverer :: "(npayload, 'd) handler \<Rightarrow> (npayload, 'd) handler" where
  "notif_Recoverer next_handler r w =
    (case next_handler r w of
       (None, w1) \<Rightarrow> answer 500 NEmpty w1
     | (Some resp, w1) \<Rightarrow> (Some resp, w1))"

text \<open>The histogram of durations is not modelled; the two readings of the clock are.\<close>

definition notif_Metrics :: "string \<Rightarrow> (npayload, 'd) handler \<Rightarrow> (npayload, 'd) handler" where
  "notif_Metrics pattern next_handler r w =
    (if rq_Path r = ''/metrics'' \<or> rq_Path r = ''/notifications/stream'' then next_handler r w
     else
       (let (start, w1) = time_Now w in
        case next_handler r w1 of
          (None, w2) \<Rightarrow> (None, w2)
        | (Some resp, w2) \<Rightarrow>
            (Some resp, snd (time_Now (counter_Add
               (series notif_HTTPRequestsTotal [rq_Method r, pattern, Itoa_nat (rs_Status resp)]) 1 w2)))))"

section \<open>Errors\<close>

text \<open>
  \<open>err.Error()\<close>, which this service puts into its answers.  The texts of the driver are a
  parameter.
\<close>

fun notif_error_text :: "notif_error \<Rightarrow> string" where
  "notif_error_text ErrNotificationNotFound = ''notification not found''"
| "notif_error_text ErrNotifForbidden = ''forbidden''"

fun Error_text :: "(db_error \<Rightarrow> string) \<Rightarrow> notif_error go_error \<Rightarrow> string" where
  "Error_text db_text (Sentinel s) = notif_error_text s"
| "Error_text db_text (DbError d) = db_text d"
| "Error_text db_text (Opaque m) = m"
| "Error_text db_text (Wrap m e) = m @ '': '' @ Error_text db_text e"

definition notif_mapError :: "notif_error go_error \<Rightarrow> nat \<times> ncode" where
  "notif_mapError err =
    (if errors_Is err ErrNotificationNotFound then (404, CodeNotFound)
     else if errors_Is err ErrNotifForbidden then (403, CodeForbidden)
     else (500, CodeInternalError))"

definition notif_respondError ::
    "(db_error \<Rightarrow> string) \<Rightarrow> notif_error go_error \<Rightarrow> 'd world \<Rightarrow> npayload response option \<times> 'd world" where
  "notif_respondError db_text err w =
    (let (status, code) = notif_mapError err in answer status (NError code (Error_text db_text err)) w)"

section \<open>Handlers\<close>

definition defaultLimit :: int where "defaultLimit = 20"
definition maxLimit :: int where "maxLimit = 100"
definition defaultOffset :: int where "defaultOffset = 0"
definition maxOffset :: int where "maxOffset = 1000"

text \<open>An upper bound that is not positive is no bound.\<close>

definition parseIntParam :: "string \<Rightarrow> int \<Rightarrow> int \<Rightarrow> int \<Rightarrow> int" where
  "parseIntParam s def mn mx =
    (if s = '''' then def
     else case Atoi s of
       None \<Rightarrow> def
     | Some v \<Rightarrow> if v < mn then def else if 0 < mx \<and> mx < v then mx else v)"

record 'd NotifServices =
  ns_ListByUserID ::
    "string \<Rightarrow> int \<Rightarrow> int \<Rightarrow> bool \<Rightarrow> 'd world \<Rightarrow> (notif_error, Notification list \<times> int) result \<times> 'd world"
  ns_MarkAsRead :: "string \<Rightarrow> string \<Rightarrow> 'd world \<Rightarrow> (notif_error, unit) result \<times> 'd world"
  ns_MarkAllAsRead :: "string \<Rightarrow> 'd world \<Rightarrow> (notif_error, unit) result \<times> 'd world"

definition list_handler :: "externals \<Rightarrow> (db_error \<Rightarrow> string) \<Rightarrow> 'd NotifServices \<Rightarrow> (npayload, 'd) handler" where
  "list_handler L db_text svc r w =
    (let userID = uuid_String L (UserIDFromContext r);
         limit = parseIntParam (get_param (rq_Query r) ''limit'') defaultLimit 1 maxLimit;
         offset = parseIntParam (get_param (rq_Query r) ''offset'') defaultOffset 0 maxOffset;
         unreadOnly = (get_param (rq_Query r) ''unread_only'' = ''true'')
     in case ns_ListByUserID svc userID limit offset unreadOnly w of
          (Inl err, w1) \<Rightarrow> notif_respondError db_text err w1
        | (Inr (ns, count_all), w1) \<Rightarrow> answer 200 (NList ns count_all) w1)"

definition markRead_handler :: "externals \<Rightarrow> (db_error \<Rightarrow> string) \<Rightarrow> 'd NotifServices \<Rightarrow> (npayload, 'd) handler" where
  "markRead_handler L db_text svc r w =
    (let nid = get_param (rq_Params r) ''id''; userID = uuid_String L (UserIDFromContext r)
     in case ns_MarkAsRead svc nid userID w of
          (Inl err, w1) \<Rightarrow> notif_respondError db_text err w1
        | (Inr _, w1) \<Rightarrow> answer 204 NEmpty w1)"

definition markAllRead_handler :: "externals \<Rightarrow> (db_error \<Rightarrow> string) \<Rightarrow> 'd NotifServices \<Rightarrow> (npayload, 'd) handler" where
  "markAllRead_handler L db_text svc r w =
    (let userID = uuid_String L (UserIDFromContext r)
     in case ns_MarkAllAsRead svc userID w of
          (Inl err, w1) \<Rightarrow> notif_respondError db_text err w1
        | (Inr _, w1) \<Rightarrow> answer 204 NEmpty w1)"

definition notif_infoHandler :: "(npayload, 'd) handler" where
  "notif_infoHandler r w = answer 200 NEmpty w"

section \<open>Routes\<close>

text \<open>
  The route of the stream is apart: it has neither the recoverer nor the authorisation, and
  its handler is \<open>streamNotifications\<close>.  Its pattern has no parameter, so a request that matches
  it has the path that \<open>Metrics\<close> leaves alone.  The timeout of the group only ends the request's
  context, which the statements notice as a failed connection.
\<close>

type_synonym npattern = "string \<times> string"

definition notif_routes ::
    "externals \<Rightarrow> string \<Rightarrow> (db_error \<Rightarrow> string) \<Rightarrow> 'd TokenDeps \<Rightarrow> 'd NotifServices \<Rightarrow>
     (npattern \<times> (npayload, 'd) handler) list" where
  "notif_routes L jwtSecret db_text T svc =
    (let guarded = (\<lambda>h. notif_Recoverer (notif_Auth L jwtSecret h)) in
     [((''GET'', ''/metrics''), \<lambda>r w. answer 200 NEmpty w),
      ((''GET'', ''/_info''), notif_infoHandler),
      ((''POST'', ''/sse-token''), guarded (issueToken L T)),
      ((''GET'', ''/notifications''), guarded (list_handler L db_text svc)),
      ((''POST'', ''/notifications/{id}/read''), guarded (markRead_handler L db_text svc)),
      ((''POST'', ''/notifications/read-all''), guarded (markAllRead_handler L db_text svc))])"

definition stream_pattern :: npattern where "stream_pattern = (''GET'', ''/notifications/stream'')"

type_synonym nchi = "npattern list \<Rightarrow> string \<Rightarrow> string \<Rightarrow> (npattern \<times> (string \<times> string) list) option"

text \<open>A handler, or the stream: what the router runs for a request.\<close>

definition notif_NewRouter ::
    "nchi \<Rightarrow> externals \<Rightarrow> string \<Rightarrow> (db_error \<Rightarrow> string) \<Rightarrow> 'd TokenDeps \<Rightarrow> 'd HubDeps \<Rightarrow> 'd NotifServices \<Rightarrow>
     connection \<Rightarrow> 'd sse_round list \<Rightarrow> request \<Rightarrow> 'd world \<Rightarrow> stream_result option \<times> 'd world" where
  "notif_NewRouter chi_Find L jwtSecret db_text T H svc c rounds r w =
    (let table = notif_routes L jwtSecret db_text T svc;
         run = (\<lambda>pat h. let (resp, w1) = notif_Metrics pat h r w in (map_option Answered resp, w1))
     in case chi_Find (stream_pattern # map fst table) (rq_Method r) (rq_Path r) of
          None \<Rightarrow> run '''' (\<lambda>r w. answer 404 NEmpty w)
        | Some (pat, params) \<Rightarrow>
            (let r1 = r\<lparr>rq_Params := params, rq_UserID := None, rq_Role := None\<rparr>
             in if pat = stream_pattern
                then (let (res, w1) = streamNotifications T H c rounds r1 w in (Some res, w1))
                else (case map_of table pat of
                        None \<Rightarrow> run '''' (\<lambda>r w. answer 404 NEmpty w)
                      | Some h \<Rightarrow> run (snd pat) (\<lambda>r. h (r\<lparr>rq_Params := params, rq_UserID := None, rq_Role := None\<rparr>)))))"

section \<open>Wiring\<close>

definition notif_services :: "externals \<Rightarrow> (string \<Rightarrow> uuid option) \<Rightarrow> NotifState NotifServices" where
  "notif_services L pgx = \<lparr>
     ns_ListByUserID = ListByUserID (pg_notif_deps L pgx),
     ns_MarkAsRead = MarkAsRead (pg_notif_deps L pgx),
     ns_MarkAllAsRead = MarkAllAsRead (pg_notif_deps L pgx) \<rparr>"

definition notif_app ::
    "nchi \<Rightarrow> externals \<Rightarrow> (string \<Rightarrow> uuid option) \<Rightarrow> string \<Rightarrow> (db_error \<Rightarrow> string) \<Rightarrow>
     connection \<Rightarrow> NotifState sse_round list \<Rightarrow> request \<Rightarrow> NotifState world \<Rightarrow> stream_result option \<times> NotifState world" where
  "notif_app chi_Find L pgx jwtSecret db_text =
     notif_NewRouter chi_Find L jwtSecret db_text (go_tokens L) app_hub (notif_services L pgx)"

section \<open>Parameters within bounds\<close>

lemma parseIntParam_range:
  assumes "mn \<le> def" "def \<le> mx" "0 < mx" "mn \<le> mx"
  shows "mn \<le> parseIntParam s def mn mx \<and> parseIntParam s def mn mx \<le> mx"
  using assms by (auto simp: parseIntParam_def split: option.splits)

lemma list_bounds:
  "1 \<le> parseIntParam s defaultLimit 1 maxLimit" "parseIntParam s defaultLimit 1 maxLimit \<le> 100"
  "0 \<le> parseIntParam s defaultOffset 0 maxOffset" "parseIntParam s defaultOffset 0 maxOffset \<le> 1000"
  using parseIntParam_range [of 1 defaultLimit maxLimit s] parseIntParam_range [of 0 defaultOffset maxOffset s]
  by (auto simp: defaultLimit_def maxLimit_def defaultOffset_def maxOffset_def)

end
