(* ===== verification/NotifApi.thy ===== *)
theory NotifApi
  imports NotifHttp
begin

text \<open>
  What the requests of the notification service read and write: a request changes the read
  flags of the notifications of its own user at most, and lists only these.
\<close>

section \<open>Who a request comes from\<close>

definition identity :: "externals \<Rightarrow> string \<Rightarrow> request \<Rightarrow> time \<Rightarrow> (uuid \<times> string) option" where
  "identity L jwtSecret r now = Option.bind (notif_bearer (rq_Authorization r)) (\<lambda>tok.
     map_option (\<lambda>c. (cl_UserID c, cl_Role c)) (jwt_ParseWithClaims L tok (notif_key jwtSecret) now))"

text \<open>The driver reads the canonical text of an identifier as that identifier.\<close>

definition pgx_text_ok :: "externals \<Rightarrow> (string \<Rightarrow> uuid option) \<Rightarrow> bool" where
  "pgx_text_ok L pgx \<longleftrightarrow> (\<forall>u. pgx (uuid_String L u) = Some u)"

definition own_reads :: "uuid \<Rightarrow> NotificationRow list \<Rightarrow> NotificationRow list \<Rightarrow> bool" where
  "own_reads u rows rows' \<longleftrightarrow> list_all2 (\<lambda>r r'. r' = r \<or> r' = set_read r \<and> nr_user_id r = u) rows rows'"

lemma own_reads_refl [simp]: "own_reads u rows rows"
  by (simp add: own_reads_def list_all2_same)

lemma own_reads_update: "(\<And>r. P r \<Longrightarrow> nr_user_id r = u) \<Longrightarrow> own_reads u rows (update_where P set_read rows)"
  by (auto simp: own_reads_def update_where_def list.rel_map list_all2_same)

section \<open>Authorisation\<close>

lemma notif_ParseToken_store: "notif_ParseToken L tok secret w = (x, w') \<Longrightarrow> store w' = store w"
  by (auto simp: notif_ParseToken_def Let_def split: prod.splits option.splits dest!: time_Now_storeD)

lemma notif_Auth_cases:
  assumes "notif_Auth L secret h r w = (resp, w')"
  obtains (refused) "resp = Some \<lparr> rs_Status = 401, rs_Body = NText notif_unauthorizedBody \<rparr>" "store w' = store w"
  | (passed) now u role w1 where "clock w \<le> now" "identity L secret r now = Some (u, role)" "store w1 = store w"
      "h (r\<lparr>rq_UserID := Some u, rq_Role := Some role\<rparr>) w1 = (resp, w')"
proof (cases "notif_bearer (rq_Authorization r)")
  case None
  then show thesis using assms refused by (simp add: notif_Auth_def)
next
  case (Some tok)
  obtain x w1 where p: "notif_ParseToken L tok secret w = (x, w1)" by (cases "notif_ParseToken L tok secret w")
  have st: "store w1 = store w" by (rule notif_ParseToken_store [OF p])
  show thesis
  proof (cases x)
    case (Inl e)
    then show thesis using assms refused st Some p by (simp add: notif_Auth_def)
  next
    case (Inr ur)
    obtain u role where ur: "ur = (u, role)" by (cases ur)
    have "identity L secret r (fst (time_Now w)) = Some (u, role)"
      using p Some Inr ur by (auto simp: identity_def notif_ParseToken_def Let_def split: prod.splits option.splits)
    then show thesis using assms passed [OF time_Now_monotone] st Some p Inr ur by (simp add: notif_Auth_def)
  qed
qed

lemma notif_Recoverer_cases:
  assumes "notif_Recoverer h r w = (resp, w')"
  obtains "resp = Some \<lparr> rs_Status = 500, rs_Body = NEmpty \<rparr>" "h r w = (None, w')" | "h r w = (resp, w')"
  using assms by (auto simp: notif_Recoverer_def split: prod.splits option.splits)

lemma notif_Metrics_inner:
  assumes "notif_Metrics pat h r w = (resp, w')"
  obtains w1 w2 where "clock w \<le> clock w1" "store w1 = store w" "h r w1 = (resp, w2)" "store w' = store w2"
proof (cases "rq_Path r = ''/metrics'' \<or> rq_Path r = ''/notifications/stream''")
  case True
  then show thesis using assms that [of w w'] by (simp add: notif_Metrics_def)
next
  case False
  obtain t w1 where t: "time_Now w = (t, w1)" by (cases "time_Now w")
  obtain x w2 where h: "h r w1 = (x, w2)" by (cases "h r w1")
  show thesis
    using assms False t h time_Now_storeD [OF t] time_Now_clock [of w] time_Now_monotone [of w] that [of w1 w2]
    by (cases x) (auto simp: notif_Metrics_def time_Now_store counter_Add_store)
qed

section \<open>The effect of the handlers\<close>

text \<open>What a handler may do for a user.\<close>

definition reads_own :: "externals \<Rightarrow> uuid \<Rightarrow> NotifState world \<Rightarrow> npayload response option \<Rightarrow> NotifState world \<Rightarrow> bool" where
  "reads_own L u w resp w' \<longleftrightarrow>
     own_reads u (notifications (store w)) (notifications (store w')) \<and> hub (store w') = hub (store w) \<and>
     (\<forall>ns k. resp = Some \<lparr> rs_Status = 200, rs_Body = NList ns k \<rparr> \<longrightarrow>
        (\<forall>n \<in> set ns. nf_UserID n = uuid_String L u))"

lemma respondError_simps:
  "notif_respondError db_text err w = (Some \<lparr> rs_Status = fst (notif_mapError err),
     rs_Body = NError (snd (notif_mapError err)) (Error_text db_text err) \<rparr>, w)"
  by (simp add: notif_respondError_def split: prod.split)

lemma mark_rows_own:
  "mark_rows P d = (k, d') \<Longrightarrow> (\<And>r. P r \<Longrightarrow> nr_user_id r = u) \<Longrightarrow>
   own_reads u (notifications d) (notifications d') \<and> hub d' = hub d"
  by (auto simp: mark_rows_def intro!: own_reads_update)

lemma marks_own:
  assumes "exec_stmt f w = (x, w')"
    and "\<And>k d. f (store w) = Inr (k, d) \<Longrightarrow> \<exists>P. (\<forall>r. P r \<longrightarrow> nr_user_id r = u) \<and> mark_rows P (store w) = (k, d)"
  shows "own_reads u (notifications (store w)) (notifications (store w')) \<and> hub (store w') = hub (store w)"
proof (cases "store w' = store w")
  case True
  then show ?thesis by simp
next
  case False
  then obtain k where "f (store w) = Inr (k, store w')" using exec_stmt_effect [OF assms(1)] by blast
  from assms(2) [OF this] show ?thesis using mark_rows_own by metis
qed

lemma update_read_marks:
  assumes "update_read pgx i (uuid_String L u) d = Inr kd" "pgx_text_ok L pgx"
  shows "\<exists>P. (\<forall>r. P r \<longrightarrow> nr_user_id r = u) \<and> mark_rows P d = kd"
proof -
  obtain j where "mark_rows (\<lambda>r. nr_id r = j \<and> nr_user_id r = u) d = kd"
    using assms by (auto simp: update_read_def pgx_text_ok_def split: option.splits)
  then show ?thesis by (intro exI [of _ "\<lambda>r. nr_id r = j \<and> nr_user_id r = u"]) simp
qed

lemma update_all_read_marks:
  assumes "update_all_read pgx (uuid_String L u) d = Inr kd" "pgx_text_ok L pgx"
  shows "\<exists>P. (\<forall>r. P r \<longrightarrow> nr_user_id r = u) \<and> mark_rows P d = kd"
proof -
  have "mark_rows (\<lambda>r. nr_user_id r = u \<and> \<not> nr_is_read r) d = kd"
    using assms by (auto simp: update_all_read_def pgx_text_ok_def)
  then show ?thesis by (intro exI [of _ "\<lambda>r. nr_user_id r = u \<and> \<not> nr_is_read r"]) simp
qed

lemma markRead_own:
  assumes "markRead_handler L db_text (notif_services L pgx) r w = (resp, w')" and "pgx_text_ok L pgx"
    and "UserIDFromContext r = u"
  shows "reads_own L u w resp w'"
proof -
  obtain x w1 where e: "exec_stmt (update_read pgx (get_param (rq_Params r) ''id'') (uuid_String L u)) w = (x, w1)"
    by (cases "exec_stmt (update_read pgx (get_param (rq_Params r) ''id'') (uuid_String L u)) w")
  have "\<exists>status b. markRead_handler L db_text (notif_services L pgx) r w = (Some \<lparr> rs_Status = status, rs_Body = b \<rparr>, w1) \<and>
      (\<forall>ns k. b \<noteq> NList ns k)"
    by (cases x) (simp_all add: markRead_handler_def notif_services_def MarkAsRead_def MarkAsRead_repo_def assms(3) e respondError_simps)
  then have "w' = w1 \<and> (\<forall>ns k. resp \<noteq> Some \<lparr> rs_Status = 200, rs_Body = NList ns k \<rparr>)"
    using assms(1) by auto
  moreover have "own_reads u (notifications (store w)) (notifications (store w1)) \<and> hub (store w1) = hub (store w)"
    by (rule marks_own [OF e update_read_marks [OF _ assms(2)]])
  ultimately show ?thesis by (simp add: reads_own_def)
qed

lemma markAllRead_own:
  assumes "markAllRead_handler L db_text (notif_services L pgx) r w = (resp, w')" and "pgx_text_ok L pgx"
    and "UserIDFromContext r = u"
  shows "reads_own L u w resp w'"
proof -
  obtain x w1 where e: "exec_stmt (update_all_read pgx (uuid_String L u)) w = (x, w1)"
    by (cases "exec_stmt (update_all_read pgx (uuid_String L u)) w")
  have "\<exists>status b. markAllRead_handler L db_text (notif_services L pgx) r w = (Some \<lparr> rs_Status = status, rs_Body = b \<rparr>, w1) \<and>
      (\<forall>ns k. b \<noteq> NList ns k)"
    by (cases x) (simp_all add: markAllRead_handler_def notif_services_def MarkAllAsRead_def MarkAllAsRead_repo_def assms(3) e respondError_simps)
  then have "w' = w1 \<and> (\<forall>ns k. resp \<noteq> Some \<lparr> rs_Status = 200, rs_Body = NList ns k \<rparr>)"
    using assms(1) by auto
  moreover have "own_reads u (notifications (store w)) (notifications (store w1)) \<and> hub (store w1) = hub (store w)"
    by (rule marks_own [OF e update_all_read_marks [OF _ assms(2)]])
  ultimately show ?thesis by (simp add: reads_own_def)
qed

lemma list_own:
  assumes "list_handler L db_text (notif_services L pgx) r w = (resp, w')" and "pgx_text_ok L pgx"
    and "UserIDFromContext r = u"
  shows "reads_own L u w resp w'"
proof -
  obtain limit offset unread x where l: "ListByUserID_repo L pgx (uuid_String L u) limit offset unread w = (x, w')"
    and resp: "\<forall>ns k. resp = Some \<lparr> rs_Status = 200, rs_Body = NList ns k \<rparr> \<longrightarrow> x = Inr (ns, k)"
    using assms(1,3)
    by (auto simp: list_handler_def notif_services_def ListByUserID_def respondError_simps Let_def
        split: prod.splits sum.splits)
  have "\<forall>n \<in> set ns. nf_UserID n = uuid_String L u" if xr: "x = Inr (ns, k)" for ns k
  proof -
    obtain rows where q: "query_rows ''list notifications'' ''list notifications rows''
        (select_notifications L pgx (uuid_String L u) limit offset unread) w = ((Inr rows :: (notif_error, (Notification \<times> int) list) result), w')" "ns = map fst rows"
      using l xr by (auto simp: ListByUserID_repo_def split: prod.splits sum.splits)
    have "select_notifications L pgx (uuid_String L u) limit offset unread (store w) = Inr rows"
      using query_rows_Inr [OF q(1)] .
    then have "rows = map (\<lambda>r. (scan_notification L r, int (length (user_rows u unread (notifications (store w))))))
        (page_of (nat limit) (nat offset) (user_rows u unread (notifications (store w))))"
      using assms(2) by (auto simp: select_notifications_def pgx_text_ok_def Let_def split: if_splits)
    moreover have "nr_user_id y = u" if "y \<in> set (page_of (nat limit) (nat offset) (user_rows u unread (notifications (store w))))" for y
      using subsetD [OF set_page_of that] by (simp add: user_rows_def)
    ultimately show ?thesis using q(2) by (auto simp: scan_notification_def)
  qed
  then show ?thesis using resp ListByUserID_repo_store [OF l] by (auto simp: reads_own_def)
qed

lemma issueToken_own:
  assumes "issueToken L (go_tokens L) r w = (resp, w')"
  shows "reads_own L u w resp w'"
  using assms Issue_stores(2) by (fastforce simp: issueToken_def reads_own_def split: prod.splits)

section \<open>Requests\<close>

lemma guarded_own:
  assumes "notif_Recoverer (notif_Auth L secret h) r w = (resp, w')"
    and "\<And>u r1 w1 resp1. UserIDFromContext r1 = u \<Longrightarrow> h r1 w1 = (resp1, w') \<Longrightarrow> reads_own L u w1 resp1 w'"
  shows "(\<exists>u role. \<exists>now \<ge> clock w. identity L secret r now = Some (u, role) \<and> reads_own L u w resp w') \<or>
    store w' = store w \<and> (\<exists>resp1. resp = Some resp1 \<and> rs_Status resp1 = 401)"
proof -
  have "(\<exists>u role. \<exists>now \<ge> clock w. identity L secret r now = Some (u, role) \<and> reads_own L u w resp1 w') \<or>
      store w' = store w \<and> resp1 = Some \<lparr> rs_Status = 401, rs_Body = NText notif_unauthorizedBody \<rparr>"
    if "notif_Auth L secret h r w = (resp1, w')" for resp1
    using that
  proof (cases rule: notif_Auth_cases)
    case (passed now u role w1)
    have "reads_own L u w1 resp1 w'" by (rule assms(2) [OF _ passed(4)]) (simp add: UserIDFromContext_def)
    then have "reads_own L u w resp1 w'" using passed(3) by (simp add: reads_own_def)
    then show ?thesis using passed(1,2) by blast
  qed simp
  note auth = this
  from assms(1) show ?thesis
  proof (cases rule: notif_Recoverer_cases)
    case 1
    from auth [OF 1(2)] show ?thesis by (auto simp: 1(1) reads_own_def)
  next
    case 2
    from auth [OF 2] show ?thesis by auto
  qed
qed

lemma identity_update [simp]:
  "identity L secret (r\<lparr>rq_Params := p, rq_UserID := u, rq_Role := ro\<rparr>) now = identity L secret r now"
  by (simp add: identity_def)

text \<open>A route of the table either needs a token or touches nothing.\<close>

lemma route_own:
  assumes "map_of (notif_routes L secret db_text (go_tokens L) (notif_services L pgx)) pat = Some h"
    and "h r w = (resp, w')" and "pgx_text_ok L pgx"
  shows "(\<exists>u role. \<exists>now \<ge> clock w. identity L secret r now = Some (u, role) \<and> reads_own L u w resp w') \<or>
    store w' = store w \<and> (\<exists>resp1. resp = Some resp1 \<and> (rs_Status resp1 = 401 \<or> rs_Body resp1 = NEmpty))"
proof -
  let ?guarded = "\<lambda>h. notif_Recoverer (notif_Auth L secret h)"
  have g: "(\<exists>u role. \<exists>now \<ge> clock w. identity L secret r now = Some (u, role) \<and> reads_own L u w resp w') \<or>
      store w' = store w \<and> (\<exists>resp1. resp = Some resp1 \<and> (rs_Status resp1 = 401 \<or> rs_Body resp1 = NEmpty))"
    if "h = ?guarded h1" and "\<And>u r1 w1 resp1. UserIDFromContext r1 = u \<Longrightarrow> h1 r1 w1 = (resp1, w') \<Longrightarrow> reads_own L u w1 resp1 w'"
    for h1
  proof -
    have "(\<exists>u role. \<exists>now \<ge> clock w. identity L secret r now = Some (u, role) \<and> reads_own L u w resp w') \<or>
        store w' = store w \<and> (\<exists>resp1. resp = Some resp1 \<and> rs_Status resp1 = 401)"
      by (rule guarded_own [OF assms(2) [unfolded that(1)]]) (rule that(2))
    then show ?thesis by blast
  qed
  have "h \<in> {(\<lambda>r w. answer 200 NEmpty w), notif_infoHandler, ?guarded (issueToken L (go_tokens L)),
      ?guarded (list_handler L db_text (notif_services L pgx)), ?guarded (markRead_handler L db_text (notif_services L pgx)),
      ?guarded (markAllRead_handler L db_text (notif_services L pgx))}"
    using map_of_SomeD [OF assms(1)] by (auto simp: notif_routes_def Let_def)
  then consider "h = (\<lambda>r w. answer 200 NEmpty w) \<or> h = notif_infoHandler" | "h = ?guarded (issueToken L (go_tokens L))"
    | "h = ?guarded (list_handler L db_text (notif_services L pgx))"
    | "h = ?guarded (markRead_handler L db_text (notif_services L pgx))"
    | "h = ?guarded (markAllRead_handler L db_text (notif_services L pgx))" by blast
  then show ?thesis
  proof cases
    case 1
    then show ?thesis using assms(2) by (auto simp: notif_infoHandler_def)
  next
    case 2
    then show ?thesis by (rule g) (rule issueToken_own)
  next
    case 3
    then show ?thesis by (rule g) (rule list_own [OF _ assms(3)])
  next
    case 4
    then show ?thesis by (rule g) (rule markRead_own [OF _ assms(3)])
  next
    case 5
    then show ?thesis by (rule g) (rule markAllRead_own [OF _ assms(3)])
  qed
qed

text \<open>A request for a stream that is refused leaves the notifications and the hub alone.\<close>

lemma refused_stream:
  assumes "streamNotifications (go_tokens L) app_hub c rounds r w = (Answered resp, w')"
  shows "notifications (store w') = notifications (store w) \<and> hub (store w') = hub (store w) \<and> 400 \<le> rs_Status resp"
  using assms
  by (auto simp: streamNotifications_def Let_def app_hub_simps Subscribe_def
      split: if_splits prod.splits option.splits sum.splits dest!: Consume_effect(3))

lemma request_own:
  assumes app: "notif_app chi_Find L pgx secret db_text c rounds r w = (Some (Answered resp), w')" and ok: "pgx_text_ok L pgx"
  shows "(\<exists>u role. \<exists>now \<ge> clock w. identity L secret r now = Some (u, role) \<and> reads_own L u w (Some resp) w') \<or>
    notifications (store w') = notifications (store w) \<and> hub (store w') = hub (store w) \<and>
    (400 \<le> rs_Status resp \<or> rs_Body resp = NEmpty)"
proof -
  let ?table = "notif_routes L secret db_text (go_tokens L) (notif_services L pgx)"
  let ?none = "\<lambda>r w. answer 404 NEmpty w"
  have none: ?thesis if "notif_Metrics pat ?none r w = (Some resp, w')" for pat
    using that by (rule notif_Metrics_inner) auto
  show ?thesis
  proof (cases "chi_Find (stream_pattern # map fst ?table) (rq_Method r) (rq_Path r)")
    case None
    then show ?thesis using app none by (auto simp: notif_app_def notif_NewRouter_def Let_def split: prod.splits)
  next
    case (Some pp)
    obtain pat params where pp: "pp = (pat, params)" by (cases pp)
    let ?r = "r\<lparr>rq_Params := params, rq_UserID := None, rq_Role := None\<rparr>"
    show ?thesis
    proof (cases "pat = stream_pattern")
      case True
      then have "streamNotifications (go_tokens L) app_hub c rounds ?r w = (Answered resp, w')"
        using app Some pp by (auto simp: notif_app_def notif_NewRouter_def Let_def split: prod.splits)
      from refused_stream [OF this] show ?thesis by simp
    next
      case False
      show ?thesis
      proof (cases "map_of ?table pat")
        case None
        then show ?thesis using app Some pp False none
          by (auto simp: notif_app_def notif_NewRouter_def Let_def split: prod.splits)
      next
        case (Some h)
        have "notif_Metrics (snd pat) (\<lambda>r. h (r\<lparr>rq_Params := params, rq_UserID := None, rq_Role := None\<rparr>)) r w = (Some resp, w')"
          using app \<open>chi_Find _ _ _ = Some pp\<close> pp False Some
          by (auto simp: notif_app_def notif_NewRouter_def Let_def split: prod.splits)
        then obtain w1 w2 where w: "clock w \<le> clock w1" "store w1 = store w" "h ?r w1 = (Some resp, w2)" "store w' = store w2"
          by (rule notif_Metrics_inner)
        have "now \<ge> clock w" if "now \<ge> clock w1" for now using that w(1) by simp
        with route_own [OF Some w(3) ok] show ?thesis using w(2,4) by (fastforce simp: reads_own_def)
      qed
    qed
  qed
qed

section \<open>Decisions when the database answers\<close>

lemma mark_as_read_cases:
  assumes "calm w" "table_ok (notifications (store w))" "pgx userID = Some u"
  shows "MarkAsRead (pg_notif_deps L pgx) nid userID w =
    (case pgx nid of
       None \<Rightarrow> (Inl (Wrap ''mark as read'' (DbError (ConnError ''unable to encode into uuid''))), w)
     | Some i \<Rightarrow>
         (case find_by nr_id i (notifications (store w)) of
            Some row \<Rightarrow>
              if nr_user_id row = u
              then (Inr (), w\<lparr>store := (store w)\<lparr>notifications :=
                      update_where (\<lambda>r. nr_id r = i) set_read (notifications (store w))\<rparr>\<rparr>)
              else (Inl (Wrap ''mark as read'' (Sentinel ErrNotificationNotFound)), w)
          | None \<Rightarrow> (Inl (Wrap ''mark as read'' (Sentinel ErrNotificationNotFound)), w)))"
proof (cases "pgx nid")
  case None
  then show ?thesis using assms by (simp add: MarkAsRead_def MarkAsRead_repo_def calm_exec_stmt update_read_def)
next
  case (Some i)
  let ?rows = "notifications (store w)"
  let ?P = "\<lambda>r. nr_id r = i \<and> nr_user_id r = u"
  have d: "distinct (map nr_id ?rows)" using assms(2) by (simp add: table_ok_def)
  have run: "MarkAsRead (pg_notif_deps L pgx) nid userID w =
      (if filter ?P ?rows = [] then (Inl (Wrap ''mark as read'' (Sentinel ErrNotificationNotFound)), w\<lparr>store := (store w)\<lparr>notifications := update_where ?P set_read ?rows\<rparr>\<rparr>)
       else (Inr (), w\<lparr>store := (store w)\<lparr>notifications := update_where ?P set_read ?rows\<rparr>\<rparr>))"
    using assms Some
    by (simp add: MarkAsRead_def MarkAsRead_repo_def calm_exec_stmt update_read_def mark_rows_def)
  show ?thesis
  proof (cases "find_by nr_id i ?rows")
    case None
    then have "\<not> ?P r" if "r \<in> set ?rows" for r using that by (auto simp: find_by_None)
    then have "filter ?P ?rows = []" "update_where ?P set_read ?rows = ?rows"
      by (auto simp: filter_empty_conv intro: update_where_none)
    then show ?thesis using run Some None by simp
  next
    case (Some row)
    have row: "row \<in> set ?rows" "nr_id row = i" using find_by_Some [OF Some] by auto
    have only: "r = row" if "r \<in> set ?rows" "nr_id r = i" for r
      using that row d by (auto simp: distinct_map dest: inj_onD)
    show ?thesis
    proof (cases "nr_user_id row = u")
      case True
      then have "?P r \<longleftrightarrow> nr_id r = i" if "r \<in> set ?rows" for r using only that by auto
      then have "update_where ?P set_read ?rows = update_where (\<lambda>r. nr_id r = i) set_read ?rows"
        by (auto simp: update_where_def)
      moreover have "filter ?P ?rows \<noteq> []" using row True by (auto simp: filter_empty_conv)
      ultimately show ?thesis using run \<open>pgx nid = Some i\<close> Some True by simp
    next
      case False
      then have "\<not> ?P r" if "r \<in> set ?rows" for r using only that by auto
      then have "filter ?P ?rows = []" "update_where ?P set_read ?rows = ?rows"
        by (auto simp: filter_empty_conv intro: update_where_none)
      then show ?thesis using run \<open>pgx nid = Some i\<close> Some False by simp
    qed
  qed
qed

lemma list_page:
  assumes "calm w" "pgx userID = Some u" "0 \<le> limit" "0 \<le> offset"
  shows "ListByUserID (pg_notif_deps L pgx) userID limit offset unreadOnly w =
    (let rows = user_rows u unreadOnly (notifications (store w)); page = page_of (nat limit) (nat offset) rows
     in (Inr (map (scan_notification L) page, if page = [] then 0 else int (length rows)), w))"
  using assms
  by (simp add: ListByUserID_def ListByUserID_repo_def calm_query_rows select_notifications_def Let_def comp_def last_map)

end
