(* ===== verification/Delivery.thy ===== *)
theory Delivery
  imports Consumer NotifApi
begin

text \<open>
  What the consumer makes of a partition, over any number of runs, failures, crashes and
  redeliveries, while the users read their notifications: at most one row for each booking and
  type, and, when the database answers, exactly one for each that an event asks for.
\<close>

section \<open>The application's handler\<close>

definition app_handler :: "externals \<Rightarrow> (string \<Rightarrow> uuid option) \<Rightarrow> NotifState event_handler" where
  "app_handler L pgx = CreateFromEvent L (pg_notif_deps L pgx) (Some app_broadcast)"

text \<open>What happens between two messages may mark rows as read, and change the hub and the tokens.\<close>

definition only_reads :: "(NotifState \<Rightarrow> NotifState) \<Rightarrow> bool" where
  "only_reads others \<longleftrightarrow> (\<forall>d. same_but_read (notifications d) (notifications (others d)))"

text \<open>The row tells what the event says, but for its own identifier, its time and whether it was read.\<close>

definition tells :: "(string \<Rightarrow> uuid option) \<Rightarrow> BookingEvent \<Rightarrow> NotificationRow \<Rightarrow> bool" where
  "tells pgx e row \<longleftrightarrow>
     notif_type (ev_EventType e) = Some (nr_type row) \<and>
     pgx (ev_UserID e) = Some (nr_user_id row) \<and> pgx (ev_BookingID e) = Some (nr_booking_id row) \<and>
     nr_room_name row = ev_RoomName e \<and>
     nr_slot_start row = pg_timestamp (ev_SlotStart e) \<and> nr_slot_end row = pg_timestamp (ev_SlotEnd e)"

lemma tells_set_read [simp]: "tells pgx e (set_read row) = tells pgx e row"
  by (simp add: tells_def set_read_def)

lemma row_of_tells:
  "row_of pgx (notification_for ty e nid now) = Some row \<Longrightarrow> notif_type (ev_EventType e) = Some ty \<Longrightarrow> tells pgx e row"
  by (auto simp: row_of_def notification_for_def tells_def split: option.splits)

lemma app_handler_effect:
  assumes "app_handler L pgx e w = (r, w')"
  shows "notifications (store w') = notifications (store w) \<or>
    (\<exists>row. tells pgx e row \<and> notifications (store w') = notifications (store w) @ [row] \<and> row_checks row \<and>
       event_key row \<notin> event_key ` set (notifications (store w)) \<and> nr_id row \<notin> nr_id ` set (notifications (store w)))"
  using notif_app.handle_event_effect [of L pgx e w r w'] assms row_of_tells
  by (auto simp: app_handler_def notif_app.row_for_def)

section \<open>Whatever fails\<close>

text \<open>Every row tells what some message of the partition says, and no two tell it of the same booking and type.\<close>

definition told_by :: "(string \<Rightarrow> uuid option) \<Rightarrow> jvalue option list \<Rightarrow> NotificationRow \<Rightarrow> bool" where
  "told_by pgx log row \<longleftrightarrow> (\<exists>value \<in> set log. \<exists>e. decode_event value = Some e \<and> tells pgx e row)"

definition inbox_ok :: "(string \<Rightarrow> uuid option) \<Rightarrow> jvalue option list \<Rightarrow> NotificationRow list \<Rightarrow> bool" where
  "inbox_ok pgx log rows \<longleftrightarrow> table_ok rows \<and> list_all (told_by pgx log) rows"

lemma told_by_set_read [simp]: "told_by pgx log (set_read row) = told_by pgx log row"
  by (simp add: told_by_def)

lemma same_but_read_all:
  assumes "same_but_read rows rows'" "\<And>r. f (set_read r) = f r"
  shows "list_all f rows' = list_all f rows"
proof -
  have "list_all (\<lambda>b. b) (map f rows') = list_all (\<lambda>b. b) (map f rows)"
    by (simp add: same_but_read_map [OF assms(1), of f, OF assms(2)])
  then show ?thesis by (simp add: list.pred_map comp_def)
qed

lemma same_but_read_inbox: "same_but_read rows rows' \<Longrightarrow> inbox_ok pgx log rows' = inbox_ok pgx log rows"
  using same_but_read_all [of rows rows' "told_by pgx log"] same_but_read_all [of rows rows' row_checks]
    same_but_read_map [of rows rows' nr_id] same_but_read_keys [of rows rows']
  by (simp add: inbox_ok_def table_ok_def)

lemma process_message_cases:
  assumes "process_message svc value w = (what, w1)"
  obtains (unreadable) "decode_event value = None" "store w1 = store w" "calm w1 = calm w"
      "gen w1 = gen w" "gen_pos w1 = gen_pos w"
  | (handled) e r w2 where "decode_event value = Some e" "svc e w = (r, w2)" "store w1 = store w2" "calm w1 = calm w2"
      "gen w1 = gen w2" "gen_pos w1 = gen_pos w2"
proof (cases "decode_event value")
  case None
  then show thesis using assms unreadable by (auto simp: process_message_def counter_Add_def calm_def)
next
  case (Some e)
  obtain r w2 where s: "svc e w = (r, w2)" by (cases "svc e w")
  have "store (observe_latency e w2) = store w2" "calm (observe_latency e w2) = calm w2"
    "gen (observe_latency e w2) = gen w2" "gen_pos (observe_latency e w2) = gen_pos w2"
    by (simp_all add: observe_latency_def time_Now_store)
  then show thesis
    using assms Some s handled [OF Some s]
    by (cases r) (auto simp: process_message_def counter_Add_def calm_def)
qed

lemma inbox_rounds:
  "rounds_keep (app_handler L pgx) only_reads (\<lambda>k w. rd_log k = log \<and> inbox_ok pgx log (notifications (store w)))"
proof (rule rounds_keepI, goal_cases)
  case (1 others k w)
  then have "same_but_read (notifications (store w)) (notifications (others (store w)))" by (simp add: only_reads_def)
  from same_but_read_inbox [OF this] 1(2) show ?case by simp
next
  case (2 k w what w1)
  have log: "rd_log k ! rd_pos k \<in> set log" using 2(1,2) by auto
  have inbox: "inbox_ok pgx log (notifications (store w))" using 2(2) by simp
  have "inbox_ok pgx log (notifications (store w1))" using 2(3)
  proof (cases rule: process_message_cases)
    case unreadable
    then show ?thesis using inbox by simp
  next
    case (handled e r w2)
    have "told_by pgx log row" if "tells pgx e row" for row
      using log handled(1) that by (auto simp: told_by_def)
    then show ?thesis using app_handler_effect [OF handled(2)] inbox handled(3) by (auto simp: inbox_ok_def table_ok_def)
  qed
  then show ?case using 2(2) by simp
qed

section \<open>When the database answers\<close>

text \<open>The identifiers up to the \<open>N\<close>th that are still to be handed out are new and distinct.\<close>

definition fresh_ids :: "nat \<Rightarrow> NotifState world \<Rightarrow> bool" where
  "fresh_ids N w \<longleftrightarrow> inj_on (gen w) {gen_pos w ..< N} \<and>
     (\<forall>m \<in> {gen_pos w ..< N}. gen w m \<notin> nr_id ` set (notifications (store w)))"

text \<open>The events that the table can hold.\<close>

definition storable_event :: "(string \<Rightarrow> uuid option) \<Rightarrow> BookingEvent \<Rightarrow> bool" where
  "storable_event pgx e \<longleftrightarrow> notif_type (ev_EventType e) \<noteq> None \<and> pgx (ev_UserID e) \<noteq> None \<and> pgx (ev_BookingID e) \<noteq> None \<and>
     pg_timestamp (ev_SlotStart e) < pg_timestamp (ev_SlotEnd e)"

definition key_of :: "(string \<Rightarrow> uuid option) \<Rightarrow> BookingEvent \<Rightarrow> uuid \<times> NotificationType" where
  "key_of pgx e = (the (pgx (ev_BookingID e)), ev_EventType e)"

lemma notif_type_Some: "notif_type t = Some ty \<Longrightarrow> ty = t \<and> ty \<in> {''booking.created'', ''booking.cancelled''}"
  by (auto simp: notif_type_def TypeBookingCreated_def TypeBookingCancelled_def EventTypeBookingCreated_def
      EventTypeBookingCancelled_def split: if_splits)

lemma tells_key: "tells pgx e row \<Longrightarrow> event_key row = key_of pgx e"
  using notif_type_Some [of "ev_EventType e" "nr_type row"] by (simp add: tells_def event_key_def key_of_def)

definition has_notification :: "(string \<Rightarrow> uuid option) \<Rightarrow> BookingEvent \<Rightarrow> NotifState world \<Rightarrow> bool" where
  "has_notification pgx e w \<longleftrightarrow> key_of pgx e \<in> event_key ` set (notifications (store w))"

lemma row_of_storable:
  assumes "storable_event pgx e" "notif_type (ev_EventType e) = Some ty" "pgx nid = Some i"
  shows "\<exists>row. row_of pgx (notification_for ty e nid now) = Some row \<and> row_checks row \<and> nr_id row = i \<and> event_key row = key_of pgx e"
  using assms notif_type_Some [OF assms(2)]
  by (auto simp: storable_event_def row_of_def notification_for_def row_checks_def event_key_def key_of_def)

lemma row_of_id: "row_of pgx (notification_for ty e nid now) = Some row \<Longrightarrow> pgx nid = Some (nr_id row)"
  by (auto simp: row_of_def notification_for_def split: option.splits)

lemma Create_repo_calm:
  "calm w \<Longrightarrow> Create_repo pgx n w = (case insert_notification pgx n (store w) of
      Inl e \<Rightarrow> (Inl (Wrap ''create notification'' (DbError e)), w)
    | Inr (k, d) \<Rightarrow> (Inr (k = 1), w\<lparr>store := d\<rparr>))"
  by (simp add: Create_repo_def calm_exec_stmt split: sum.split prod.split)

text \<open>A storable event is refused only for an identifier that is taken.\<close>

lemma insert_refused:
  assumes "insert_notification pgx (notification_for ty e (uuid_String L i) now) d = Inl err"
    and "notif_type (ev_EventType e) = Some ty" and "pgx (uuid_String L i) = Some i"
    and "i \<notin> nr_id ` set (notifications d)"
  shows "\<not> storable_event pgx e"
proof
  assume "storable_event pgx e"
  from row_of_storable [OF this assms(2,3)] obtain row where
    "row_of pgx (notification_for ty e (uuid_String L i) now) = Some row" "row_checks row" "nr_id row = i" by blast
  then show False using assms(1,4) by (auto simp: insert_notification_def split: if_splits)
qed

lemma fresh_ids_inserted:
  assumes f: "fresh_ids N w" and N: "Suc (gen_pos w) \<le> N"
    and w': "gen w' = gen w" "gen_pos w' = Suc (gen_pos w)"
    and rows: "nr_id ` set (notifications (store w')) = insert (gen w (gen_pos w)) (nr_id ` set (notifications (store w)))"
  shows "fresh_ids N w'"
proof -
  have "gen w m \<noteq> gen w (gen_pos w)" if "m \<in> {Suc (gen_pos w) ..< N}" for m
    using f that N by (auto simp: fresh_ids_def dest!: inj_onD)
  then show ?thesis using f w' rows by (auto simp: fresh_ids_def intro: inj_on_subset)
qed

lemma app_handler_calm:
  assumes run: "app_handler L pgx e w = (r, w')" and c: "calm w" and L: "pgx_text_ok L pgx"
  shows "calm w' \<and> gen_pos w \<le> gen_pos w' \<and>
    (fresh_ids N w \<longrightarrow> gen_pos w' \<le> N \<longrightarrow> fresh_ids N w' \<and> (storable_event pgx e \<longrightarrow> has_notification pgx e w'))"
proof (cases "notif_type (ev_EventType e)")
  case None
  then have "w' = w" using run by (simp add: app_handler_def CreateFromEvent_def)
  then show ?thesis using c None by (simp add: storable_event_def)
next
  case (Some ty)
  let ?i = "gen w (gen_pos w)"
  obtain now w2 where t: "time_Now (w\<lparr>gen_pos := Suc (gen_pos w)\<rparr>) = (now, w2)"
    by (cases "time_Now (w\<lparr>gen_pos := Suc (gen_pos w)\<rparr>)")
  define n where "n = notification_for ty e (uuid_String L ?i) now"
  have w2: "calm w2" "store w2 = store w" "gen w2 = gen w" "gen_pos w2 = Suc (gen_pos w)"
    using c calm_simps(1) [of "w\<lparr>gen_pos := Suc (gen_pos w)\<rparr>"] time_Now_store [of "w\<lparr>gen_pos := Suc (gen_pos w)\<rparr>"]
      time_Now_script [of "w\<lparr>gen_pos := Suc (gen_pos w)\<rparr>"] by (simp_all add: t)
  have nid: "pgx (uuid_String L ?i) = Some ?i" using L by (simp add: pgx_text_ok_def)
  have later: "fresh_ids N w \<Longrightarrow> Suc (gen_pos w) \<le> N \<Longrightarrow> ?i \<notin> nr_id ` set (notifications (store w))"
    by (simp add: fresh_ids_def)
  have f2: "fresh_ids N w \<Longrightarrow> fresh_ids N w2" by (auto simp: fresh_ids_def w2 intro: inj_on_subset)
  have step: "(r, w') = (case insert_notification pgx n (store w2) of
      Inl e \<Rightarrow> (Inl (Wrap ''create notification'' (DbError e)), w2)
    | Inr (k, d) \<Rightarrow> (Inr (), if k = 1 then app_broadcast (ev_UserID e) n (w2\<lparr>store := d\<rparr>) else w2\<lparr>store := d\<rparr>))"
    using run Some w2(1)
    by (auto simp: app_handler_def CreateFromEvent_def uuid_New_def t n_def [symmetric] Create_repo_calm Let_def
        split: sum.splits prod.splits if_splits)
  show ?thesis
  proof (cases "insert_notification pgx n (store w2)")
    case (Inl err)
    have "\<not> storable_event pgx e" if "fresh_ids N w" "Suc (gen_pos w) \<le> N"
      by (rule insert_refused [OF Inl [unfolded n_def] Some nid]) (use later [OF that] w2(2) in simp)
    then show ?thesis using step Inl w2 f2 by simp
  next
    case (Inr kd)
    obtain k d where kd: "kd = (k, d)" by (cases kd)
    note ins = Inr [unfolded kd]
    have w': "calm w' \<and> gen w' = gen w \<and> gen_pos w' = Suc (gen_pos w) \<and> notifications (store w') = notifications d"
      using step Inr kd w2 by (auto simp: app_broadcast_def)
    have stays: "fresh_ids N w'" if "fresh_ids N w" "notifications d = notifications (store w)"
      using f2 [OF that(1)] that(2) w' w2 by (simp add: fresh_ids_def)
    show ?thesis
      using ins
    proof (cases rule: insert_notification_InrE)
      case (skipped row)
      have "event_key row = key_of pgx e" using tells_key [OF row_of_tells [OF skipped(1) [unfolded n_def] Some]] .
      then show ?thesis using skipped w' w2 stays by (auto simp: has_notification_def)
    next
      case (inserted row)
      have i: "nr_id row = ?i" using row_of_id [of pgx ty e "uuid_String L ?i"] inserted(1) nid by (simp add: n_def)
      have "event_key row = key_of pgx e" using tells_key [OF row_of_tells [OF inserted(1) [unfolded n_def] Some]] .
      moreover have "fresh_ids N w'" if f: "fresh_ids N w" and N: "Suc (gen_pos w) \<le> N"
        by (rule fresh_ids_inserted [OF f N]) (use w' w2 inserted(6) i in auto)
      ultimately show ?thesis using inserted(6) w' w2 by (auto simp: has_notification_def)
    qed
  qed
qed

text \<open>Every message that was passed and can be stored has its notification.\<close>

definition passed_stored :: "(string \<Rightarrow> uuid option) \<Rightarrow> Reader \<Rightarrow> NotifState world \<Rightarrow> bool" where
  "passed_stored pgx k w \<longleftrightarrow> (\<forall>i < rd_pos k. \<forall>e. decode_event (rd_log k ! i) = Some e \<longrightarrow>
     storable_event pgx e \<longrightarrow> has_notification pgx e w)"

definition delivery_inv :: "nat \<Rightarrow> (string \<Rightarrow> uuid option) \<Rightarrow> jvalue option list \<Rightarrow> Reader \<Rightarrow> NotifState world \<Rightarrow> bool" where
  "delivery_inv N pgx log k w \<longleftrightarrow> rd_log k = log \<and> reader_ok k \<and> calm w \<and>
     (gen_pos w \<le> N \<longrightarrow> fresh_ids N w \<and> passed_stored pgx k w)"

lemma has_notification_grows:
  "app_handler L pgx e w = (r, w') \<Longrightarrow> has_notification pgx e' w \<Longrightarrow> has_notification pgx e' w'"
  by (drule app_handler_effect) (auto simp: has_notification_def)

lemma delivery_rounds:
  assumes L: "pgx_text_ok L pgx"
  shows "rounds_keep (app_handler L pgx) only_reads (delivery_inv N pgx log)"
proof (rule rounds_keepI, goal_cases)
  case (1 others k w)
  then have s: "same_but_read (notifications (store w)) (notifications (others (store w)))" by (simp add: only_reads_def)
  have "nr_id ` set (notifications (others (store w))) = nr_id ` set (notifications (store w))"
    "event_key ` set (notifications (others (store w))) = event_key ` set (notifications (store w))"
    using arg_cong [OF same_but_read_map [OF s, of nr_id], of set] arg_cong [OF same_but_read_keys [OF s], of set] by simp_all
  then show ?case using 1(2) by (simp add: delivery_inv_def fresh_ids_def passed_stored_def has_notification_def)
next
  case (2 k w what w1)
  note inv = 2(2) [unfolded delivery_inv_def]
  let ?msg = "rd_log k ! rd_pos k"
  have "calm w1 \<and> gen_pos w \<le> gen_pos w1 \<and>
      (fresh_ids N w \<longrightarrow> gen_pos w1 \<le> N \<longrightarrow> fresh_ids N w1 \<and>
        (\<forall>e. decode_event ?msg = Some e \<longrightarrow> storable_event pgx e \<longrightarrow> has_notification pgx e w1)) \<and>
      (\<forall>e. has_notification pgx e w \<longrightarrow> has_notification pgx e w1)"
    using 2(3)
  proof (cases rule: process_message_cases)
    case unreadable
    then show ?thesis using inv by (simp add: fresh_ids_def has_notification_def)
  next
    case (handled e r w2)
    have "calm w2 \<and> gen_pos w \<le> gen_pos w2 \<and>
        (fresh_ids N w \<longrightarrow> gen_pos w2 \<le> N \<longrightarrow> fresh_ids N w2 \<and> (storable_event pgx e \<longrightarrow> has_notification pgx e w2))"
      using app_handler_calm [OF handled(2) _ L] inv by simp
    moreover have "has_notification pgx e' w \<Longrightarrow> has_notification pgx e' w2" for e'
      by (rule has_notification_grows [OF handled(2)])
    ultimately show ?thesis using handled by (simp add: fresh_ids_def has_notification_def)
  qed
  moreover have "reader_ok (k\<lparr>rd_pos := Suc (rd_pos k)\<rparr>)" "reader_ok (k\<lparr>rd_pos := Suc (rd_pos k), rd_committed := Suc (rd_pos k)\<rparr>)"
    using inv 2(1) by (auto simp: reader_ok_def)
  ultimately show ?case using inv by (auto simp: delivery_inv_def passed_stored_def less_Suc_eq)
qed

lemma delivery_reassigned: "delivery_inv N pgx log k w \<Longrightarrow> delivery_inv N pgx log (reassigned k) w"
  by (auto simp: delivery_inv_def reassigned_def reader_ok_def passed_stored_def dest: less_le_trans)

section \<open>A life of the consumer\<close>

definition at_start :: "jvalue option list \<Rightarrow> Reader" where
  "at_start log = \<lparr> rd_log = log, rd_pos = 0, rd_committed = 0 \<rparr>"

definition lives_polite :: "(NotifState round list \<times> bool) list list \<Rightarrow> bool" where
  "lives_polite lives \<longleftrightarrow> (\<forall>runs \<in> set lives. \<forall>run \<in> set runs. all_polite only_reads (fst run))"

lemma inbox_after_lives:
  assumes "consumer_lives (app_handler L pgx) lives (at_start log) w = (k', w')" "lives_polite lives"
    and "notifications (store w) = []"
  shows "inbox_ok pgx log (notifications (store w'))"
proof -
  have "rd_log k' = log \<and> inbox_ok pgx log (notifications (store w'))"
    by (rule consumer_lives_keeps [OF inbox_rounds _ assms(1)])
      (use assms in \<open>auto simp: lives_polite_def reassigned_def at_start_def inbox_ok_def table_ok_def\<close>)
  then show ?thesis by simp
qed

lemma delivery_after_lives:
  assumes "consumer_lives (app_handler L pgx) lives (at_start log) w = (k', w')" "lives_polite lives"
    and "notifications (store w) = []" "calm w" "inj_on (gen w) {gen_pos w ..< gen_pos w'}" and "pgx_text_ok L pgx"
  shows "delivery_inv (gen_pos w') pgx log k' w'"
  by (rule consumer_lives_keeps [OF delivery_rounds [OF assms(6)] delivery_reassigned assms(1)])
    (use assms(2-5) in \<open>auto simp: lives_polite_def at_start_def delivery_inv_def reader_ok_def fresh_ids_def passed_stored_def\<close>)

lemma delivered_after_lives:
  assumes "consumer_lives (app_handler L pgx) lives (at_start log) w = (k', w')" "lives_polite lives"
    and "notifications (store w) = []" "calm w" "inj_on (gen w) {gen_pos w ..< gen_pos w'}"
    and "pgx_text_ok L pgx" "rd_pos k' = length log"
    and "value \<in> set log" "decode_event value = Some e" "storable_event pgx e"
  shows "has_notification pgx e w'"
proof -
  obtain i where "i < length log" "log ! i = value" using assms(8) by (auto simp: in_set_conv_nth)
  then show ?thesis using delivery_after_lives [OF assms(1-6)] assms(7,9,10) by (auto simp: delivery_inv_def passed_stored_def)
qed

section \<open>Identifiers used\<close>

text \<open>One message takes at most one identifier.\<close>

lemma app_handler_gen:
  assumes "app_handler L pgx e w = (r, w')"
  shows "gen_pos w' \<le> Suc (gen_pos w)"
proof (cases "notif_type (ev_EventType e)")
  case None
  then show ?thesis using assms by (simp add: app_handler_def CreateFromEvent_def)
next
  case (Some ty)
  have stmt: "gen_pos v' = gen_pos v" if "exec_stmt f v = (x, v')" for f :: "NotifState \<Rightarrow> db_error + (nat \<times> NotifState)" and v v' x
    using that by (auto simp: exec_stmt_def next_fault_def split: list.splits option.splits fault.splits sum.splits prod.splits)
  obtain now w2 where t: "time_Now (w\<lparr>gen_pos := Suc (gen_pos w)\<rparr>) = (now, w2)"
    by (cases "time_Now (w\<lparr>gen_pos := Suc (gen_pos w)\<rparr>)")
  then have w2: "gen_pos w2 = Suc (gen_pos w)" using time_Now_script(2) [of "w\<lparr>gen_pos := Suc (gen_pos w)\<rparr>"] by simp
  obtain x w3 where c: "Create_repo pgx (notification_for ty e (uuid_String L (gen w (gen_pos w))) now) w2 = (x, w3)"
    by (cases "Create_repo pgx (notification_for ty e (uuid_String L (gen w (gen_pos w))) now) w2")
  then have "gen_pos w3 = gen_pos w2"
    by (auto simp: Create_repo_def split: prod.splits sum.splits dest: stmt)
  then show ?thesis
    using assms Some t c w2
    by (auto simp: app_handler_def CreateFromEvent_def uuid_New_def app_broadcast_def split: sum.splits if_splits)
qed

lemma Run_consumer_gen:
  "Run_consumer (app_handler L pgx) (good_rounds changes) k w = (e, k', w') \<Longrightarrow> gen_pos w' \<le> gen_pos w + length changes"
proof (induction changes arbitrary: k w)
  case Nil
  then show ?case by (simp add: good_rounds_def)
next
  case (Cons c changes)
  let ?w = "meanwhile c w"
  show ?case
  proof (cases "length (rd_log k) \<le> rd_pos k")
    case True
    then show ?thesis using Cons.prems by (auto simp: good_rounds_def)
  next
    case False
    obtain what w1 where m: "process_message (app_handler L pgx) (rd_log k ! rd_pos k) ?w = (what, w1)"
      by (cases "process_message (app_handler L pgx) (rd_log k ! rd_pos k) ?w")
    have "gen_pos w1 \<le> Suc (gen_pos ?w)"
      using m by (cases rule: process_message_cases) (auto dest: app_handler_gen)
    moreover have "Run_consumer (app_handler L pgx) (good_rounds changes)
        (k\<lparr>rd_pos := Suc (rd_pos k), rd_committed := Suc (rd_pos k)\<rparr>) w1 = (e, k', w')"
      using Cons.prems m False by (simp add: good_rounds_def)
    from Cons.IH [OF this] have "gen_pos w' \<le> gen_pos w1 + length changes" .
    ultimately show ?thesis by simp
  qed
qed

end
