(* ===== verification/Pipeline.thy ===== *)
theory Pipeline
  imports Publishing BookingRouter Delivery
begin

text \<open>
  The two services together: the outbox rows of the booking service, through the topic, to the
  notifications of the users; and the tokens that one service issues and both accept.

  Between the services the payload is a text: the relay sends the text that PostgreSQL gives
  for a \<open>jsonb\<close> value, and the consumer parses it.  The text form of a timestamp in it is the
  database's own and a parameter \<open>pg_json_time\<close>; what is used of it is that it is a form of
  RFC 3339 that denotes the timestamp, for timestamps of the resolution that the database keeps.
\<close>

section \<open>Messages on the wire\<close>

definition wire_value :: "(time \<Rightarrow> string) \<Rightarrow> json \<Rightarrow> jvalue" where
  "wire_value pg_json_time j = (case j of JString s \<Rightarrow> JvText s | JTime t \<Rightarrow> JvText (pg_json_time t))"

definition wire :: "(time \<Rightarrow> string) \<Rightarrow> KafkaMessage \<Rightarrow> jvalue option" where
  "wire pg_json_time m = Some (JvObject (map (\<lambda>(k, j). (k, wire_value pg_json_time j)) (km_Value m)))"

definition storable_time :: "time \<Rightarrow> bool" where
  "storable_time t \<longleftrightarrow> t mod 1000 = 0 \<and> 0 \<le> year t \<and> year t \<le> 9999"

definition pg_json_ok :: "(time \<Rightarrow> string) \<Rightarrow> bool" where
  "pg_json_ok pg_json_time \<longleftrightarrow> (\<forall>t. storable_time t \<longrightarrow> Parse_RFC3339 (pg_json_time t) = Some t)"

text \<open>The timestamps of a database whose columns keep microseconds, of years with four digits.\<close>

definition times_ok :: "BookingDB \<Rightarrow> bool" where
  "times_ok db \<longleftrightarrow> list_all (\<lambda>s. storable_time (sl_StartAt s) \<and> storable_time (sl_EndAt s)) (slots db) \<and>
     list_all (\<lambda>o1. storable_time (ob_created_at o1)) (outbox db)"

definition event_for :: "externals \<Rightarrow> OutboxRow \<Rightarrow> Booking \<Rightarrow> Room \<Rightarrow> Slot \<Rightarrow> BookingEvent" where
  "event_for L o1 b r s = \<lparr> ev_EventID = uuid_String L (ob_id o1), ev_EventType = ob_event_type o1,
     ev_OccurredAt = ob_created_at o1, ev_BookingID = uuid_String L (bk_ID b), ev_UserID = uuid_String L (bk_UserID b),
     ev_RoomID = uuid_String L (rm_ID r), ev_RoomName = rm_Name r, ev_SlotStart = sl_StartAt s, ev_SlotEnd = sl_EndAt s \<rparr>"

text \<open>What the booking service writes, the notification service reads.\<close>

lemma decode_wire:
  assumes "pg_json_ok pt" and "storable_time (ob_created_at o1)" "storable_time (sl_StartAt s)" "storable_time (sl_EndAt s)"
    and "ob_payload o1 = booking_event L (ob_event_type o1) (ob_id o1) (ob_created_at o1) b r s"
  shows "decode_event (wire pt (row_message o1)) = Some (event_for L o1 b r s)"
proof -
  have "Parse_RFC3339 (pt (ob_created_at o1)) = Some (ob_created_at o1)"
    "Parse_RFC3339 (pt (sl_StartAt s)) = Some (sl_StartAt s)" "Parse_RFC3339 (pt (sl_EndAt s)) = Some (sl_EndAt s)"
    using assms(1-4) by (simp_all add: pg_json_ok_def)
  then show ?thesis
    by (simp add: decode_event_def wire_def message_of_def scan_record_def assms(5) booking_event_def wire_value_def
        decode_struct_def lookup_field_def event_fields_def into_string_def into_time_def event_for_def zero_event_def)
qed

section \<open>From the outbox to the notifications\<close>

text \<open>The notification tells of a booking and of the slot and the room it is for.\<close>

definition tells_of :: "BookingDB \<Rightarrow> NotificationRow \<Rightarrow> bool" where
  "tells_of db row \<longleftrightarrow> (\<exists>b \<in> set (bookings db). \<exists>s \<in> set (slots db). \<exists>r \<in> set (rooms db).
     sl_ID s = bk_SlotID b \<and> rm_ID r = sl_RoomID s \<and>
     nr_booking_id row = bk_ID b \<and> nr_user_id row = bk_UserID b \<and> nr_room_name row = rm_Name r \<and>
     nr_slot_start row = sl_StartAt s \<and> nr_slot_end row = sl_EndAt s)"

definition notified :: "uuid \<Rightarrow> NotificationType \<Rightarrow> NotificationRow list \<Rightarrow> NotificationRow list" where
  "notified bid ty rows = filter (\<lambda>r. event_key r = (bid, ty)) rows"

lemma count_of_key:
  assumes "distinct (map f xs)"
  shows "length (filter (\<lambda>x. f x = k) xs) = (if k \<in> f ` set xs then 1 else 0)"
  using assms by (induction xs) (auto simp: filter_empty_conv)

lemma notified_count:
  "table_ok rows \<Longrightarrow> length (notified bid ty rows) = (if (bid, ty) \<in> event_key ` set rows then 1 else 0)"
  unfolding notified_def by (rule count_of_key) (simp add: table_ok_def)

lemma row_event:
  assumes "reachable L db" "uuid_text_ok L" "times_ok db" "pg_json_ok pt" "o1 \<in> set (outbox db)"
  obtains b s r where "b \<in> set (bookings db)" "s \<in> set (slots db)" "r \<in> set (rooms db)"
    "sl_ID s = bk_SlotID b" "rm_ID r = sl_RoomID s"
    "ob_event_type o1 = ''booking.created'' \<or> ob_event_type o1 = ''booking.cancelled''"
    "map_of (ob_payload o1) ''booking_id'' = Some (JString (uuid_String L (bk_ID b)))"
    "decode_event (wire pt (row_message o1)) = Some (event_for L o1 b r s)"
    "sl_StartAt s < sl_EndAt s" "pg_timestamp (sl_StartAt s) = sl_StartAt s" "pg_timestamp (sl_EndAt s) = sl_EndAt s"
proof -
  have "truthful L db o1" using reachable_log_ok [OF assms(2,1)] assms(5) by (simp add: log_ok_def)
  then obtain b s r where x: "b \<in> set (bookings db)" "s \<in> set (slots db)" "r \<in> set (rooms db)"
    "sl_ID s = bk_SlotID b" "rm_ID r = sl_RoomID s"
    "ob_event_type o1 = ''booking.created'' \<or> ob_event_type o1 = ''booking.cancelled''"
    and p: "ob_payload o1 = booking_event L (ob_event_type o1) (ob_id o1) (ob_created_at o1) b r s"
    unfolding truthful_def by blast
  have t: "storable_time (ob_created_at o1)" "storable_time (sl_StartAt s)" "storable_time (sl_EndAt s)"
    using assms(3,5) x(2) by (auto simp: times_ok_def list_all_iff)
  have "sl_StartAt s < sl_EndAt s" using reachable_ok [OF assms(1)] x(2) by (auto simp: db_ok_defs list_all_iff)
  moreover have "pg_timestamp (sl_StartAt s) = sl_StartAt s" "pg_timestamp (sl_EndAt s) = sl_EndAt s"
    using t by (simp_all add: pg_timestamp_def storable_time_def)
  ultimately show thesis using that [OF x _ decode_wire [OF assms(4) t p]] by (simp add: p)
qed

lemma notif_type_known:
  "t = ''booking.created'' \<or> t = ''booking.cancelled'' \<Longrightarrow> notif_type t = Some t"
  by (auto simp: notif_type_def TypeBookingCreated_def TypeBookingCancelled_def EventTypeBookingCreated_def
      EventTypeBookingCancelled_def)

text \<open>
  The topic holds the message of every outbox row at least once, in any order, and nothing
  else; the consumer has passed it all, however often it failed, died and began again.
\<close>

lemma row_is_told:
  assumes "inbox_ok pgx (map (wire pt) ms) rows" and "set ms = row_message ` set (outbox db)" and "row \<in> set rows"
  obtains o1 e where "o1 \<in> set (outbox db)" "decode_event (wire pt (row_message o1)) = Some e" "tells pgx e row"
  using assms by (auto simp: inbox_ok_def told_by_def list_all_iff)

lemma rows_tell_bookings:
  assumes L: "uuid_text_ok L" "pgx_text_ok L pgx" "pg_json_ok pt" and db: "reachable L db" "times_ok db"
    and inbox: "inbox_ok pgx (map (wire pt) ms) rows" "set ms = row_message ` set (outbox db)"
    and row: "row \<in> set rows"
  shows "tells_of db row"
proof -
  from row_is_told [OF inbox row] obtain o1 e where o1: "o1 \<in> set (outbox db)"
    and e: "decode_event (wire pt (row_message o1)) = Some e" "tells pgx e row" .
  have pgx: "pgx (uuid_String L u) = Some u" for u using L(2) by (simp add: pgx_text_ok_def)
  show ?thesis
  proof (rule row_event [OF db(1) L(1) db(2) L(3) o1])
    fix b s r
    assume rows: "b \<in> set (bookings db)" "s \<in> set (slots db)" "r \<in> set (rooms db)" "sl_ID s = bk_SlotID b" "rm_ID r = sl_RoomID s"
      and d: "decode_event (wire pt (row_message o1)) = Some (event_for L o1 b r s)"
      and t: "pg_timestamp (sl_StartAt s) = sl_StartAt s" "pg_timestamp (sl_EndAt s) = sl_EndAt s"
    have "nr_booking_id row = bk_ID b \<and> nr_user_id row = bk_UserID b \<and> nr_room_name row = rm_Name r \<and>
        nr_slot_start row = sl_StartAt s \<and> nr_slot_end row = sl_EndAt s"
      using e d t by (auto simp: tells_def event_for_def pgx)
    with rows show ?thesis unfolding tells_of_def by blast
  qed
qed

lemma notified_only_of_events:
  assumes L: "uuid_text_ok L" "pgx_text_ok L pgx" "pg_json_ok pt" and db: "reachable L db" "times_ok db"
    and inbox: "inbox_ok pgx (map (wire pt) ms) rows" "set ms = row_message ` set (outbox db)"
    and key: "(bid, ty) \<in> event_key ` set rows"
  shows "events_of L ty bid db \<noteq> []"
proof -
  obtain row where row: "row \<in> set rows" "event_key row = (bid, ty)" using key by auto
  from row_is_told [OF inbox row(1)] obtain o1 e where o1: "o1 \<in> set (outbox db)"
    and e: "decode_event (wire pt (row_message o1)) = Some e" "tells pgx e row" .
  have pgx: "pgx (uuid_String L u) = Some u" for u using L(2) by (simp add: pgx_text_ok_def)
  have "about L ty bid o1"
    by (rule row_event [OF db(1) L(1) db(2) L(3) o1])
      (use e tells_key [OF e(2)] row(2) in \<open>auto simp: event_for_def about_def key_of_def pgx\<close>)
  then show ?thesis using o1 by (auto simp: events_of_def filter_empty_conv)
qed

lemma notified_of_all_events:
  assumes L: "uuid_text_ok L" "pgx_text_ok L pgx" "pg_json_ok pt" and db: "reachable L db" "times_ok db"
    and topic: "set ms = row_message ` set (outbox db)"
    and lives: "consumer_lives (app_handler L pgx) lives (at_start (map (wire pt) ms)) w = (rd, w')" "lives_polite lives"
    and w: "notifications (store w) = []" "calm w" "inj_on (gen w) {gen_pos w ..< gen_pos w'}"
    and all: "rd_pos rd = length ms" and event: "events_of L ty bid db \<noteq> []"
  shows "(bid, ty) \<in> event_key ` set (notifications (store w'))"
proof -
  obtain o1 where o1: "o1 \<in> set (outbox db)" "about L ty bid o1" using event by (auto simp: events_of_def filter_empty_conv)
  have pgx: "pgx (uuid_String L u) = Some u" for u using L(2) by (simp add: pgx_text_ok_def)
  show ?thesis
  proof (rule row_event [OF db(1) L(1) db(2) L(3) o1(1)])
    fix b s r
    let ?e = "event_for L o1 b r s"
    assume k: "ob_event_type o1 = ''booking.created'' \<or> ob_event_type o1 = ''booking.cancelled''"
      and b: "map_of (ob_payload o1) ''booking_id'' = Some (JString (uuid_String L (bk_ID b)))"
      and d: "decode_event (wire pt (row_message o1)) = Some ?e"
      and t: "sl_StartAt s < sl_EndAt s" "pg_timestamp (sl_StartAt s) = sl_StartAt s" "pg_timestamp (sl_EndAt s) = sl_EndAt s"
    have "storable_event pgx ?e" using t notif_type_known [OF k] by (simp add: storable_event_def event_for_def pgx)
    moreover have "wire pt (row_message o1) \<in> set (map (wire pt) ms)" using o1(1) topic by auto
    ultimately have "has_notification pgx ?e w'" using delivered_after_lives [OF lives w L(2)] all d by simp
    moreover have "key_of pgx ?e = (bid, ty)"
      using o1(2) b uuid_String_inject [OF L(1)] by (auto simp: about_def key_of_def event_for_def pgx)
    ultimately show ?thesis by (simp add: has_notification_def)
  qed
qed

lemma notifications_agree:
  assumes L: "uuid_text_ok L" "pgx_text_ok L pgx" "pg_json_ok pt"
    and db: "reachable L db" "times_ok db"
    and topic: "set ms = row_message ` set (outbox db)"
    and lives: "consumer_lives (app_handler L pgx) lives (at_start (map (wire pt) ms)) w = (rd, w')" "lives_polite lives"
    and w: "notifications (store w) = []" "calm w" "inj_on (gen w) {gen_pos w ..< gen_pos w'}"
    and all: "rd_pos rd = length ms"
  shows "\<forall>b \<in> set (bookings db).
      length (notified (bk_ID b) ''booking.created'' (notifications (store w'))) = 1 \<and>
      length (notified (bk_ID b) ''booking.cancelled'' (notifications (store w'))) = (if active b then 0 else 1)"
    and "\<forall>row \<in> set (notifications (store w')). tells_of db row"
proof -
  let ?rows = "notifications (store w')"
  have inbox: "inbox_ok pgx (map (wire pt) ms) ?rows" by (rule inbox_after_lives [OF lives w(1)])
  show "\<forall>row \<in> set ?rows. tells_of db row" using rows_tell_bookings [OF L db inbox topic] by blast
  have key: "(bid, ty) \<in> event_key ` set ?rows \<longleftrightarrow> events_of L ty bid db \<noteq> []" for bid ty
    using notified_only_of_events [OF L db inbox topic] notified_of_all_events [OF L db topic lives w all] by blast
  have tab: "table_ok ?rows" using inbox by (simp add: inbox_ok_def)
  show "\<forall>b \<in> set (bookings db).
      length (notified (bk_ID b) ''booking.created'' ?rows) = 1 \<and>
      length (notified (bk_ID b) ''booking.cancelled'' ?rows) = (if active b then 0 else 1)"
  proof
    fix b
    assume "b \<in> set (bookings db)"
    then have "length (events_of L ''booking.created'' (bk_ID b) db) = 1"
      "length (events_of L ''booking.cancelled'' (bk_ID b) db) = (if active b then 0 else 1)"
      using reachable_log_ok [OF L(1) db(1)] by (simp_all add: log_ok_def)
    then have "events_of L ''booking.created'' (bk_ID b) db \<noteq> []"
      "events_of L ''booking.cancelled'' (bk_ID b) db \<noteq> [] \<longleftrightarrow> \<not> active b"
      by (auto split: if_splits)
    then show "length (notified (bk_ID b) ''booking.created'' ?rows) = 1 \<and>
        length (notified (bk_ID b) ''booking.cancelled'' ?rows) = (if active b then 0 else 1)"
      unfolding notified_count [OF tab] key by simp
  qed
qed

text \<open>
  When everything answers, the last pass of the relay and one run of the consumer over the
  whole topic bring every booking to its user.
\<close>

lemma times_ok_marks:
  assumes "only_marks db db'" "times_ok db"
  shows "times_ok db'"
  using assms only_marks_tables(2) [OF assms(1)]
    only_marks_tables(4) [OF assms(1), of "\<lambda>o1. storable_time (ob_created_at o1)"]
  by (simp add: times_ok_def)

lemma delivered_in_the_end:
  assumes L: "uuid_text_ok L" "pgx_text_ok L pgx" "pg_json_ok pt"
    and pub: "publishing L (store wb) (topic k)" "times_ok (store wb)"
    and calm: "calm wb" "ticks wb = []" "write_script k = []" "clock wb < deadline"
    and w: "notifications (store w) = []" "calm w"
      "inj_on (gen w) {gen_pos w ..< gen_pos w + (length (topic k) + length (filter unsent (outbox (store wb))))}"
  obtains k' wb' rd w' where "drain nobody deadline k wb = (k', wb')"
    "Run_consumer (app_handler L pgx) (good_rounds (replicate (length (topic k')) (\<lambda>d. d)))
       (at_start (map (wire pt) (topic k'))) w = (RunWaiting, rd, w')"
    "only_marks (store wb) (store wb')"
    "\<forall>b \<in> set (bookings (store wb)).
      length (notified (bk_ID b) ''booking.created'' (notifications (store w'))) = 1 \<and>
      length (notified (bk_ID b) ''booking.cancelled'' (notifications (store w'))) = (if active b then 0 else 1)"
    "\<forall>row \<in> set (notifications (store w')). tells_of (store wb) row"
proof -
  have "distinct (map ob_id (outbox (store wb)))"
    using reachable_ok [OF publishing_reachable [OF pub(1)]] by (simp add: db_ok_defs)
  from drain_complete [OF calm this] obtain wb' where
    d: "drain nobody deadline k wb = (k\<lparr>topic := topic k @ map row_message (unsent_in_order (store wb))\<rparr>, wb')"
    and none: "unsent_in_order (store wb') = []" by blast
  define k' where "k' = k\<lparr>topic := topic k @ map row_message (unsent_in_order (store wb))\<rparr>"
  note d = d [folded k'_def]
  have len: "length (topic k') = length (topic k) + length (filter unsent (outbox (store wb)))"
    by (simp add: k'_def unsent_in_order_def)
  have marks: "only_marks (store wb) (store wb')" by (rule drain_only_marks [OF d])
  have p: "publishing L (store wb') (topic k')" by (rule drain_publishing [OF d pub(1)])
  have top: "set (topic k') = row_message ` set (outbox (store wb'))"
    using all_published [OF p] none by (simp add: unsent_in_order_Nil)
  let ?log = "map (wire pt) (topic k')" and ?changes = "replicate (length (topic k')) (\<lambda>d :: NotifState. d)"
  obtain rd w' where r: "Run_consumer (app_handler L pgx) (good_rounds ?changes) (at_start ?log) w = (RunWaiting, rd, w')"
    and pos: "rd_pos rd = length (topic k')"
    using Run_consumer_passes [of "at_start ?log" ?changes "app_handler L pgx" w] by (auto simp: at_start_def)
  have "reassigned (at_start ?log) = at_start ?log" by (simp add: reassigned_def at_start_def)
  then have lives: "consumer_lives (app_handler L pgx) [[(good_rounds ?changes, True)]] (at_start ?log) w = (rd, w')"
    using r by simp
  have polite: "lives_polite [[(good_rounds ?changes, True)]]"
    by (simp add: lives_polite_def good_rounds_def only_reads_def)
  have "inj_on (gen w) {gen_pos w ..< gen_pos w'}"
    by (rule inj_on_subset [OF w(3)]) (use Run_consumer_gen [OF r] in \<open>auto simp: len\<close>)
  note agree = notifications_agree [OF L publishing_reachable [OF p] times_ok_marks [OF marks pub(2)] top lives polite w(1,2) this pos]
  show thesis
    by (rule that [OF d r marks]) (use agree only_marks_tables(1-3) [OF marks] in \<open>simp_all add: tells_of_def\<close>)
qed

section \<open>Tokens across the services\<close>

lemma key_functions_agree: "notif_key = hmac_key"
  by (auto simp: fun_eq_iff notif_key_def hmac_key_def)

lemma parsers_agree:
  "map_sum (\<lambda>_. ()) (\<lambda>x. x) (fst (notif_ParseToken L tok secret w)) = map_sum (\<lambda>_. ()) (\<lambda>x. x) (fst (ParseToken L tok secret w))"
  by (simp add: notif_ParseToken_def ParseToken_def key_functions_agree Let_def split: prod.split option.split)

lemma ToLower_append [simp]: "ToLower (s @ t) = ToLower s @ ToLower t"
  by (simp add: ToLower_def)

lemma ToLower_Bearer: "ToLower notif_bearerPrefix = bearerPrefix" "length notif_bearerPrefix = length bearerPrefix"
  by code_simp+

lemma notif_bearer_iff:
  "notif_bearer h = Some t \<longleftrightarrow> h = notif_bearerPrefix @ t \<and> t \<noteq> ''''"
proof
  assume "notif_bearer h = Some t"
  then show "h = notif_bearerPrefix @ t \<and> t \<noteq> ''''"
    by (auto simp: notif_bearer_def CutPrefix_def HasPrefix_iff split: if_splits)
next
  assume "h = notif_bearerPrefix @ t \<and> t \<noteq> ''''"
  then show "notif_bearer h = Some t" by (simp add: notif_bearer_def)
qed

lemma bearer_of_notif: "notif_bearer h = Some t \<Longrightarrow> bearer_token h = Some t"
  using ToLower_Bearer by (auto simp: notif_bearer_iff bearer_token_def)

end
