(* ===== verification/HubRuns.thy ===== *)
theory HubRuns
  imports Hub
begin

text \<open>
  The hub under concurrency: the steps of all goroutines in any order.  A broadcast is a copy
  of the user's channels and then one send per channel, with other steps in between, so it
  may send to a channel that has been unsubscribed meanwhile.  Beside the hub the state keeps what
  the steps have done, to say what they may do: who opened each channel, what was broadcast,
  and what was received.
\<close>

record HubRun =
  run_hub :: Hub
  run_sends :: "(string \<times> Notification \<times> chan list) list"
  run_owner :: "chan \<Rightarrow> string"
  run_sent :: "(string \<times> Notification) list"
  run_got :: "(chan \<times> Notification) list"

definition idle_run :: HubRun where
  "idle_run = \<lparr> run_hub = NewHub, run_sends = [], run_owner = (\<lambda>_. ''''), run_sent = [], run_got = [] \<rparr>"

text \<open>The function that unsubscribes belongs to the channel it was returned with; it may be called at any time.\<close>

inductive hub_step :: "HubRun \<Rightarrow> HubRun \<Rightarrow> bool" where
  subscribe: "Subscribe u (run_hub s) = (Inr ch, h') \<Longrightarrow>
     hub_step s (s\<lparr>run_hub := h', run_owner := (run_owner s)(ch := u)\<rparr>)"
| unsubscribe: "ch < chan_next (run_hub s) \<Longrightarrow>
     hub_step s (s\<lparr>run_hub := unsubscribe (run_owner s ch) ch (run_hub s)\<rparr>)"
| copy: "hub_step s (s\<lparr>run_sends := run_sends s @ [(u, n, subs_of (run_hub s) u)],
                       run_sent := run_sent s @ [(u, n)]\<rparr>)"
| send: "run_sends s = before @ (u, n, ch # cs) # after \<Longrightarrow>
     hub_step s (s\<lparr>run_hub := try_send n ch (run_hub s), run_sends := before @ (u, n, cs) # after\<rparr>)"
| recv: "receive ch (run_hub s) = Some (n, h') \<Longrightarrow>
     hub_step s (s\<lparr>run_hub := h', run_got := run_got s @ [(ch, n)]\<rparr>)"

inductive_cases hub_stepE: "hub_step s s'"

inductive hub_reachable :: "HubRun \<Rightarrow> bool" where
  start: "hub_reachable idle_run"
| step: "hub_reachable s \<Longrightarrow> hub_step s s' \<Longrightarrow> hub_reachable s'"

section \<open>What a channel has, gets and may still get\<close>

definition got_by :: "chan \<Rightarrow> (chan \<times> Notification) list \<Rightarrow> Notification multiset" where
  "got_by ch got = mset (map snd (filter (\<lambda>(c, n). c = ch) got))"

definition coming_to :: "chan \<Rightarrow> (string \<times> Notification \<times> chan list) list \<Rightarrow> Notification multiset" where
  "coming_to ch sends = mset (map (\<lambda>(u, n, cs). n) (filter (\<lambda>(u, n, cs). ch \<in> set cs) sends))"

definition sent_to :: "string \<Rightarrow> (string \<times> Notification) list \<Rightarrow> Notification multiset" where
  "sent_to u sent = mset (map snd (filter (\<lambda>(v, n). v = u) sent))"

text \<open>
  Received, buffered and on the way: together never more than what was broadcast to the
  owner of the channel, counted with multiplicity.
\<close>

definition run_ok :: "HubRun \<Rightarrow> bool" where
  "run_ok s \<longleftrightarrow> hub_ok (run_hub s) \<and>
     (\<forall>u. \<forall>ch \<in> set (subs_of (run_hub s) u). run_owner s ch = u) \<and>
     (\<forall>(u, n, cs) \<in> set (run_sends s). distinct cs \<and> (\<forall>ch \<in> set cs. ch < chan_next (run_hub s) \<and> run_owner s ch = u)) \<and>
     (\<forall>(ch, n) \<in> set (run_got s). ch < chan_next (run_hub s)) \<and>
     (\<forall>ch < chan_next (run_hub s).
        got_by ch (run_got s) + mset (chan_buf (run_hub s) ch) + coming_to ch (run_sends s)
        \<subseteq># sent_to (run_owner s ch) (run_sent s))"

lemma run_okD:
  assumes "run_ok s"
  shows "hub_ok (run_hub s)"
    and "ch \<in> set (subs_of (run_hub s) u) \<Longrightarrow> run_owner s ch = u"
    and "(u, n, cs) \<in> set (run_sends s) \<Longrightarrow> distinct cs \<and> (\<forall>ch \<in> set cs. ch < chan_next (run_hub s) \<and> run_owner s ch = u)"
    and "(ch, n) \<in> set (run_got s) \<Longrightarrow> ch < chan_next (run_hub s)"
    and "ch < chan_next (run_hub s) \<Longrightarrow>
      got_by ch (run_got s) + mset (chan_buf (run_hub s) ch) + coming_to ch (run_sends s) \<subseteq># sent_to (run_owner s ch) (run_sent s)"
  using assms by (auto simp: run_ok_def)

lemma run_okI:
  assumes "hub_ok (run_hub s)"
    and "\<And>u ch. ch \<in> set (subs_of (run_hub s) u) \<Longrightarrow> run_owner s ch = u"
    and "\<And>u n cs. (u, n, cs) \<in> set (run_sends s) \<Longrightarrow> distinct cs \<and> (\<forall>ch \<in> set cs. ch < chan_next (run_hub s) \<and> run_owner s ch = u)"
    and "\<And>ch n. (ch, n) \<in> set (run_got s) \<Longrightarrow> ch < chan_next (run_hub s)"
    and "\<And>ch. ch < chan_next (run_hub s) \<Longrightarrow>
      got_by ch (run_got s) + mset (chan_buf (run_hub s) ch) + coming_to ch (run_sends s) \<subseteq># sent_to (run_owner s ch) (run_sent s)"
  shows "run_ok s"
  using assms unfolding run_ok_def by blast

lemma coming_to_simps [simp]:
  "coming_to ch [] = {#}"
  "coming_to ch ((u, n, cs) # xs) = (if ch \<in> set cs then {#n#} else {#}) + coming_to ch xs"
  "coming_to ch (xs @ ys) = coming_to ch xs + coming_to ch ys"
  by (auto simp: coming_to_def split: prod.splits)

lemma got_by_simps [simp]:
  "got_by ch [] = {#}" "got_by ch (got @ [(c, n)]) = got_by ch got + (if c = ch then {#n#} else {#})"
  by (simp_all add: got_by_def)

lemma sent_to_simps [simp]:
  "sent_to u [] = {#}" "sent_to u (sent @ [(v, n)]) = sent_to u sent + (if v = u then {#n#} else {#})"
  by (simp_all add: sent_to_def)

lemma got_by_None: "(\<And>n. (ch, n) \<notin> set got) \<Longrightarrow> got_by ch got = {#}"
  by (auto simp: got_by_def filter_empty_conv)

lemma coming_to_None: "(\<And>u n cs. (u, n, cs) \<in> set sends \<Longrightarrow> ch \<notin> set cs) \<Longrightarrow> coming_to ch sends = {#}"
  by (auto simp: coming_to_def filter_empty_conv)

lemma run_ok_idle: "run_ok idle_run"
  by (rule run_okI) (simp_all add: idle_run_def hub_ok_NewHub, simp add: NewHub_def)

lemma subset_add_if:
  "A \<subseteq># B \<Longrightarrow> (P \<Longrightarrow> Q) \<Longrightarrow> A + (if P then {#n#} else {#}) \<subseteq># B + (if Q then {#n#} else {#})"
  by (cases P; cases Q) (auto intro: subset_mset.order_trans [of A B "add_mset n B"] simp: subset_mset.add_increasing2)

lemma subset_exchange: "A + B + C \<subseteq># D \<Longrightarrow> B' + C' \<subseteq># B + C \<Longrightarrow> A + B' + C' \<subseteq># D"
  unfolding add.assoc by (metis subset_mset.add_left_mono subset_mset.order_trans)

section \<open>The steps keep it so\<close>

lemma run_ok_subscribe:
  assumes ok: "run_ok s" and st: "Subscribe u (run_hub s) = (Inr ch, h')"
  shows "run_ok (s\<lparr>run_hub := h', run_owner := (run_owner s)(ch := u)\<rparr>)"
proof -
  have ch: "ch = chan_next (run_hub s)" and h': "chan_next h' = Suc ch" "chan_buf h' = (chan_buf (run_hub s))(ch := [])"
    using st by (auto simp: Subscribe_def Let_def split: if_splits)
  note subs = Subscribe_subs [OF st]
  have old: "c \<in> set (subs_of (run_hub s) v) \<Longrightarrow> c < ch" for c v
    using hub_okD(3) [OF run_okD(1) [OF ok]] ch by blast
  have none: "got_by ch (run_got s) = {#}" "coming_to ch (run_sends s) = {#}"
    using run_okD(3,4) [OF ok] ch by (fastforce intro!: got_by_None coming_to_None)+
  show ?thesis
  proof (rule run_okI, goal_cases)
    case 1
    then show ?case using Subscribe_hub_ok [OF run_okD(1) [OF ok] st] by simp
  next
    case (2 v c)
    then show ?case using run_okD(2) [OF ok, of c v] old [of c v] by (auto simp: subs split: if_splits)
  next
    case (3 v n cs)
    then show ?case using run_okD(3) [OF ok, of v n cs] by (auto simp: ch h')
  next
    case (4 c n)
    then show ?case using run_okD(4) [OF ok, of c n] by (auto simp: ch h')
  next
    case (5 c)
    then show ?case using run_okD(5) [OF ok, of c] none by (auto simp: ch h' less_Suc_eq)
  qed
qed

lemma run_ok_unsubscribe:
  assumes ok: "run_ok s"
  shows "run_ok (s\<lparr>run_hub := unsubscribe u ch (run_hub s)\<rparr>)"
proof (rule run_okI, goal_cases)
  case 1
  then show ?case using unsubscribe_hub_ok [OF run_okD(1) [OF ok]] by simp
next
  case (2 v c)
  then show ?case using run_okD(2) [OF ok, of c v] mem_unsubscribe [OF run_okD(1) [OF ok]] by simp
qed (use run_okD(3-5) [OF ok] in auto)

lemma run_ok_copy:
  assumes ok: "run_ok s"
  shows "run_ok (s\<lparr>run_sends := run_sends s @ [(u, n, subs_of (run_hub s) u)], run_sent := run_sent s @ [(u, n)]\<rparr>)"
proof (rule run_okI, goal_cases)
  case 1
  then show ?case using run_okD(1) [OF ok] by simp
next
  case (2 v c)
  then show ?case using run_okD(2) [OF ok, of c v] by simp
next
  case (3 v m cs)
  then show ?case
    using run_okD(3) [OF ok, of v m cs] hub_okD(2,3) [OF run_okD(1) [OF ok]] run_okD(2) [OF ok] by auto
next
  case (4 c m)
  then show ?case using run_okD(4) [OF ok, of c m] by simp
next
  case (5 c)
  then have "got_by c (run_got s) + mset (chan_buf (run_hub s) c) + coming_to c (run_sends s) \<subseteq># sent_to (run_owner s c) (run_sent s)"
    using run_okD(5) [OF ok, of c] by simp
  then have "got_by c (run_got s) + mset (chan_buf (run_hub s) c) + coming_to c (run_sends s) +
      (if c \<in> set (subs_of (run_hub s) u) then {#n#} else {#}) \<subseteq>#
      sent_to (run_owner s c) (run_sent s) + (if u = run_owner s c then {#n#} else {#})"
    by (rule subset_add_if) (rule run_okD(2) [OF ok, symmetric])
  then show ?case by (simp add: add.assoc eq_commute [of u] split del: if_split)
qed

lemma run_ok_send:
  assumes ok: "run_ok s" and st: "run_sends s = before @ (u, n, ch # cs) # after"
  shows "run_ok (s\<lparr>run_hub := try_send n ch (run_hub s), run_sends := before @ (u, n, cs) # after\<rparr>)"
proof -
  have x: "ch \<notin> set cs" "ch < chan_next (run_hub s)" "distinct cs"
    "\<forall>c \<in> set cs. c < chan_next (run_hub s) \<and> run_owner s c = u"
    using run_okD(3) [OF ok, of u n "ch # cs"] st by auto
  show ?thesis
  proof (rule run_okI, goal_cases)
    case 1
    then show ?case using try_send_hub_ok [OF run_okD(1) [OF ok] x(2)] by simp
  next
    case (2 v c)
    then show ?case using run_okD(2) [OF ok, of c v] by simp
  next
    case (3 v m ds)
    then show ?case using run_okD(3) [OF ok, of v m ds] x st by auto
  next
    case (4 c m)
    then show ?case using run_okD(4) [OF ok, of c m] by simp
  next
    case (5 c)
    then have "got_by c (run_got s) + mset (chan_buf (run_hub s) c) + coming_to c (run_sends s) \<subseteq># sent_to (run_owner s c) (run_sent s)"
      using run_okD(5) [OF ok, of c] by simp
    moreover have "mset (chan_buf (try_send n ch (run_hub s)) c) + coming_to c (before @ (u, n, cs) # after)
        \<subseteq># mset (chan_buf (run_hub s) c) + coming_to c (run_sends s)"
      using x(1) by (auto simp: st push_def)
    ultimately have "got_by c (run_got s) + mset (chan_buf (try_send n ch (run_hub s)) c) + coming_to c (before @ (u, n, cs) # after)
        \<subseteq># sent_to (run_owner s c) (run_sent s)" by (rule subset_exchange)
    then show ?case by simp
  qed
qed

lemma run_ok_recv:
  assumes ok: "run_ok s" and st: "receive ch (run_hub s) = Some (n, h')"
  shows "run_ok (s\<lparr>run_hub := h', run_got := run_got s @ [(ch, n)]\<rparr>)"
proof -
  note r = receive_SomeD [OF st]
  have ch: "ch < chan_next (run_hub s)"
  proof (rule ccontr)
    assume "\<not> ?thesis"
    then have "chan_buf (run_hub s) ch = []" using hub_okD(5) [OF run_okD(1) [OF ok]] by simp
    then show False using r by simp
  qed
  show ?thesis
  proof (rule run_okI, goal_cases)
    case 1
    then show ?case using receive_hub_ok [OF run_okD(1) [OF ok] st] by simp
  next
    case (2 v c)
    then show ?case using run_okD(2) [OF ok, of c v] r by simp
  next
    case (3 v m cs)
    then show ?case using run_okD(3) [OF ok, of v m cs] r by simp
  next
    case (4 c m)
    then show ?case using run_okD(4) [OF ok, of c m] r ch by auto
  next
    case (5 c)
    then show ?case using run_okD(5) [OF ok, of c] r by (cases "c = ch") auto
  qed
qed

lemma hub_step_ok: "hub_step s s' \<Longrightarrow> run_ok s \<Longrightarrow> run_ok s'"
  by (erule hub_stepE)
    (auto intro: run_ok_subscribe run_ok_unsubscribe run_ok_copy run_ok_send run_ok_recv)

lemma hub_reachable_ok: "hub_reachable s \<Longrightarrow> run_ok s"
  by (induction rule: hub_reachable.induct) (auto intro: run_ok_idle hub_step_ok)

end
