(* ===== verification/NotifSample.thy ===== *)
theory NotifSample
  imports Sample Pipeline HubRuns
begin

text \<open>
  Concrete data for the notification service: functions for the driver and the database that
  meet what is assumed of them, the empty state of the process, and a message on its way from
  the sample booking.
\<close>

section \<open>Third-party functions\<close>

definition sample_pgx :: "string \<Rightarrow> uuid option" where
  "sample_pgx = sample_uuid_Parse"

lemma sample_pgx_text [simp]: "sample_pgx (sample_uuid_String u) = Some u" "sample_pgx (uuid_String sample_externals u) = Some u"
  by (simp_all add: sample_pgx_def sample_uuid_text sample_externals_def)

lemma sample_pgx_text_ok: "pgx_text_ok sample_externals sample_pgx"
  by (simp add: pgx_text_ok_def)

text \<open>The text of a timestamp: six digits of the second, and the zone as an offset.\<close>

definition sample_json_time :: "time \<Rightarrow> string" where
  "sample_json_time t = Format_date t @ ''T'' @ pad_digits 2 (hour t) @ '':'' @ pad_digits 2 (minute t) @ '':'' @
     pad_digits 2 (second t) @ CHR ''.'' # pad_digits 6 (t mod Second div 1000) @ ''+00:00''"

lemma digits_value_zeros: "digits_value (s @ replicate n CHR ''0'') = digits_value s * 10 ^ n"
proof (induction n)
  case 0
  then show ?case by simp
next
  case (Suc n)
  have "s @ replicate (Suc n) CHR ''0'' = (s @ replicate n CHR ''0'') @ [CHR ''0'']"
    by (simp flip: replicate_append_same)
  then have "digits_value (s @ replicate (Suc n) CHR ''0'') = 10 * digits_value (s @ replicate n CHR ''0'') + digit_val CHR ''0''"
    by (simp only: digits_value_snoc)
  also have "digit_val CHR ''0'' = 0" by (simp add: digit_val_def)
  finally show ?case using Suc by simp
qed

lemma takeWhile_digits:
  "list_all isDigit ds \<Longrightarrow> \<not> isDigit c \<Longrightarrow> takeWhile isDigit (ds @ c # s) = ds \<and> dropWhile isDigit (ds @ c # s) = c # s"
  by (induction ds) auto

lemma parse_fraction_six:
  assumes "0 \<le> n" "n < 1000000"
  shows "parse_fraction (CHR ''.'' # pad_digits 6 n @ ''+00:00'') = (n * 1000, ''+00:00'')"
proof -
  obtain d ds where p: "pad_digits 6 n = d # ds" by (cases "pad_digits 6 n") (use length_pad_digits [of 6 n] in auto)
  have all: "list_all isDigit (d # ds)" using pad_digits_all [of 6 n] by (simp add: p)
  have tw: "takeWhile isDigit (d # ds @ ''+00:00'') = d # ds" "dropWhile isDigit (d # ds @ ''+00:00'') = ''+00:00''"
    using takeWhile_digits [OF all, of "CHR ''+''" "''00:00''"] by simp_all
  have "length (d # ds) = 6" using length_pad_digits [of 6 n] by (simp add: p)
  then have "take 9 ((d # ds) @ replicate 9 CHR ''0'') = (d # ds) @ replicate 3 CHR ''0''"
    by (simp add: min_def)
  moreover have "digits_value ((d # ds) @ replicate 3 CHR ''0'') = n * 1000"
    using digits_value_zeros [of "d # ds" 3] digits_value_pad [of n 6] assms by (simp add: p)
  ultimately show ?thesis using all tw by (simp add: parse_fraction_def p)
qed

lemma sample_json_ok: "pg_json_ok sample_json_time"
  unfolding pg_json_ok_def
proof (intro allI impI)
  fix t
  assume "storable_time t"
  then have t: "t mod 1000 = 0" "0 \<le> year t" "year t \<le> 9999" by (simp_all add: storable_time_def)
  let ?n = "t mod Second div 1000"
  have n: "0 \<le> ?n" "?n < 1000000"
    using pos_mod_sign [of Second t] pos_mod_bound [of Second t] by (simp_all add: pos_imp_zdiv_nonneg_iff div_less_iff_less_mult)
  have "t mod Second mod 1000 = 0" using t(1) by (simp add: mod_mod_cancel)
  then have us: "?n * 1000 = t mod Second" by (metis add.right_neutral div_mult_mod_eq)
  have "getnum True ''00'' = Some (0, [])" "getnum True ''00:00'' = Some (0, '':00'')"
    by (simp_all add: isDigit_def digit_val_def)
  then have z: "parse_zone ''+00:00'' = Some 0" by (simp add: parse_zone_def)
  show "Parse_RFC3339 (sample_json_time t) = Some t"
    unfolding sample_json_time_def using Parse_RFC3339_text [OF t(2,3) parse_fraction_six [OF n] z] us by simp
qed

lemma db_booked_times: "times_ok db_booked"
proof -
  have "storable_time 0" "storable_time Hour" "storable_time (Hour + 30 * Minute)"
    by code_simp+
  then show ?thesis by (simp add: times_ok_def db_booked_def db_slots_def db_rooms_def migrated_def sample_slot_def)
qed

section \<open>The state of the process\<close>

definition empty_app :: NotifState where
  "empty_app = \<lparr> notifications = [], hub = NewHub, tokens = (\<lambda>_. None) \<rparr>"

lemma empty_app_simps [simp]:
  "notifications empty_app = []" "hub empty_app = NewHub" "tokens empty_app = (\<lambda>_. None)"
  by (simp_all add: empty_app_def)

text \<open>The message of the sample booking, as the relay puts it into the topic.\<close>

definition sample_topic :: Kafka where
  "sample_topic = \<lparr> topic = map row_message (outbox db_booked), write_script = [] \<rparr>"

lemma sample_topic_simps [simp]: "set (topic sample_topic) = row_message ` set (outbox db_booked)" "length (topic sample_topic) = 1"
  by (simp_all add: sample_topic_def db_booked_def)

text \<open>One life in which the consumer passes the first \<open>n\<close> messages.\<close>

definition calm_life :: "nat \<Rightarrow> (NotifState round list \<times> bool) list list" where
  "calm_life n = [[(good_rounds (replicate n (\<lambda>d. d)), True)]]"

lemma calm_life_polite: "lives_polite (calm_life n)"
  by (simp add: lives_polite_def calm_life_def good_rounds_def only_reads_def)

lemma calm_life_passes:
  assumes "n \<le> length log"
  obtains k' w' where "consumer_lives svc (calm_life n) (at_start log) w = (k', w')" "rd_pos k' = n"
proof -
  obtain k' w' where r: "Run_consumer svc (good_rounds (replicate n (\<lambda>d. d))) (at_start log) w = (RunWaiting, k', w')" "rd_pos k' = n"
    using Run_consumer_passes [of "at_start log" "replicate n (\<lambda>d. d)" svc w] assms by (auto simp: at_start_def)
  have "reassigned (at_start log) = at_start log" by (simp add: reassigned_def at_start_def)
  then have "consumer_lives svc (calm_life n) (at_start log) w = (k', w')" using r(1) by (simp add: calm_life_def)
  then show thesis using r(2) by (rule that)
qed

lemma sample_gen_inj: "inj_on (gen (sample_world d)) {0 ..< N}" if "N \<le> 1000"
proof (rule inj_onI)
  fix x y :: nat
  assume "x \<in> {0 ..< N}" "y \<in> {0 ..< N}" "gen (sample_world d) x = gen (sample_world d) y"
  then have e: "(of_nat (100 + x) :: uuid) = of_nat (100 + y)" and less: "x < 1000" "y < 1000"
    using that by simp_all
  have "unat (of_nat (100 + x) :: uuid) = 100 + x" "unat (of_nat (100 + y) :: uuid) = 100 + y"
    using less by (simp_all only: unat_of_nat) simp_all
  then show "x = y" unfolding e by simp
qed

lemma one_message:
  assumes "log \<noteq> []"
  obtains k' w' where "consumer_lives (app_handler L pgx) (calm_life 1) (at_start log) w = (k', w')" "rd_pos k' = 1"
    "gen_pos w' \<le> Suc (gen_pos w)"
proof -
  obtain k' w' where l: "consumer_lives (app_handler L pgx) (calm_life 1) (at_start log) w = (k', w')" "rd_pos k' = 1"
    by (rule calm_life_passes [of 1 log "app_handler L pgx" w]) (use assms in \<open>cases log; auto\<close>)
  obtain what w1 where m: "process_message (app_handler L pgx) (log ! 0) w = (what, w1)"
    by (cases "process_message (app_handler L pgx) (log ! 0) w")
  have "w' = w1"
    using l(1) m assms by (simp add: calm_life_def good_rounds_def at_start_def reassigned_def)
  moreover have "gen_pos w1 \<le> Suc (gen_pos w)"
    using m by (cases rule: process_message_cases) (auto dest: app_handler_gen)
  ultimately show thesis using l that by blast
qed

end
