(* ===== verification/Relays.thy ===== *)
theory Relays
  imports Sample "HOL-Library.Multiset"
begin

text \<open>
  Relays of several instances of the booking service at work at the same time.  \<open>ProcessBatch\<close> of
  \<open>internal/repo/outbox/outbox.go\<close> holds its transaction open while the callback of
  \<open>internal/outbox/relay.go\<close> writes to Kafka, so here its parts are steps of their own, between
  which requests and other relays go on; the rows that a transaction has selected are locked, and
  \<open>SKIP LOCKED\<close> passes over them.  A lemma shows that \<open>processBatch\<close> is a sequence of these steps.
\<close>

section \<open>Steps\<close>

record transaction =
  tx_now :: time
  tx_records :: "OutboxRecord list"
  tx_written :: bool

record relays =
  ry_db :: BookingDB
  ry_topic :: "KafkaMessage list"
  ry_open :: "nat \<Rightarrow> transaction option"

definition locked_by :: "(nat \<Rightarrow> transaction option) \<Rightarrow> uuid \<Rightarrow> bool" where
  "locked_by txs u \<longleftrightarrow> (\<exists>i t. txs i = Some t \<and> u \<in> rec_ID ` set (tx_records t))"

text \<open>
  The number counts what may have left a copy of a message too many: every attempt of the writer
  but the last of a call that succeeds, every attempt of a call that fails, and a batch that was
  given up after its call had succeeded, because the update, the commit, the connection or the
  process did not.  A lost reply of the commit is a commit.
\<close>

inductive relays_step :: "externals \<Rightarrow> nat \<Rightarrow> relays \<Rightarrow> relays \<Rightarrow> bool" for L :: externals where
  fetch: "ry_open st i = None \<Longrightarrow> select_pending (locked_by (ry_open st)) (ry_db st) = Inr records \<Longrightarrow>
    relays_step L 0 st (st\<lparr>ry_open := (ry_open st)(i \<mapsto> \<lparr> tx_now = now, tx_records = records, tx_written = False \<rparr>)\<rparr>)"
| write_messages: "ry_open st i = Some t \<Longrightarrow> \<not> tx_written t \<Longrightarrow> topic k = ry_topic st \<Longrightarrow>
    WriteMessages (map message_of (tx_records t)) k = (Inr u, k') \<Longrightarrow>
    relays_step L (attempts_of k - 1) st (st\<lparr>ry_topic := topic k', ry_open := (ry_open st)(i \<mapsto> t\<lparr>tx_written := True\<rparr>)\<rparr>)"
| write_fails: "ry_open st i = Some t \<Longrightarrow> \<not> tx_written t \<Longrightarrow> topic k = ry_topic st \<Longrightarrow>
    WriteMessages (map message_of (tx_records t)) k = (Inl e, k') \<Longrightarrow>
    relays_step L (attempts_of k) st (st\<lparr>ry_topic := topic k', ry_open := (ry_open st)(i := None)\<rparr>)"
| commit: "ry_open st i = Some t \<Longrightarrow> tx_written t \<Longrightarrow>
    mark_sent (tx_now t) (map rec_ID (tx_records t)) (ry_db st) = Inr (u, db') \<Longrightarrow>
    relays_step L 0 st (st\<lparr>ry_db := db', ry_open := (ry_open st)(i := None)\<rparr>)"
| abort: "ry_open st i = Some t \<Longrightarrow>
    relays_step L (if tx_written t then 1 else 0) st (st\<lparr>ry_open := (ry_open st)(i := None)\<rparr>)"
| service: "service_step L (ry_db st) db' \<Longrightarrow> relays_step L 0 st (st\<lparr>ry_db := db'\<rparr>)"

inductive relays_run :: "externals \<Rightarrow> nat \<Rightarrow> relays \<Rightarrow> relays \<Rightarrow> bool" for L :: externals where
  here: "relays_run L 0 st st"
| more: "relays_run L m st st' \<Longrightarrow> relays_step L n st' st'' \<Longrightarrow> relays_run L (m + n) st st''"

definition relays_start :: "time \<Rightarrow> relays" where
  "relays_start now = \<lparr> ry_db = migrated now, ry_topic = [], ry_open = (\<lambda>_. None) \<rparr>"

definition relays :: "externals \<Rightarrow> nat \<Rightarrow> relays \<Rightarrow> bool" where
  "relays L failed st \<longleftrightarrow> (\<exists>now. relays_run L failed (relays_start now) st)"

lemma relays_run_step: "relays_step L n st st' \<Longrightarrow> relays_run L n st st'"
  using relays_run.more [OF relays_run.here] by fastforce

lemma relays_run_trans:
  assumes "relays_run L n st' st''" and "relays_run L m st st'"
  shows "relays_run L (m + n) st st''"
  using assms
proof (induction rule: relays_run.induct)
  case (here st)
  then show ?case by simp
next
  case (more n1 st1 st2 n2 st3)
  from relays_run.more [OF more.IH [OF more.prems] more.hyps(2)] show ?case by (simp add: add.assoc)
qed

section \<open>The code makes these steps\<close>

text \<open>How a batch can end: nothing written, the call failed, its rows not marked, or marked.\<close>

lemma processBatch_outcomes:
  assumes run: "processBatch locked k w = (n, k', w')"
    and wr: "WriteMessages (map message_of (batch locked (store w))) k = (r2, k2)"
  obtains (idle) "store w' = store w" "topic k' = topic k"
  | (failed) e where "store w' = store w" "k' = k2" "r2 = Inl e"
  | (given_up) u where "store w' = store w" "k' = k2" "r2 = Inr u"
  | (marked) u now where "topic k' = topic k2" "r2 = Inr u"
      "mark_sent now (map ob_id (pending locked (store w))) (store w) = Inr ((), store w')"
proof -
  let ?rs = "batch locked (store w)"
  obtain r p w1 where p: "ProcessBatch locked publish_records (0, k) w = (r, (p, k'), w1)" and w1: "store w1 = store w'"
    using run by (auto simp: processBatch_def counter_Add_store split: prod.splits sum.splits if_splits)
  have k': "k' = k \<or> k' = k2" using wr ProcessBatch_callback [OF p] by (auto simp: publish_records_def)
  show thesis
  proof (cases "store w' = store w")
    case True
    then show thesis using k' idle failed given_up by (cases r2) auto
  next
    case False
    then have "fst (publish_records ?rs (0, k)) = Inr ()" using ProcessBatch_effect [OF p] w1 by auto
    then have r2: "r2 = Inr ()" using wr by (simp add: publish_records_def)
    have "k' = k2" using processBatch_topic(2) [OF run False] wr by (simp add: batch_def comp_def)
    then show thesis using marked [OF _ r2] processBatch_effect [OF run] False by auto
  qed
qed

text \<open>
  C23: a batch of the relay, whatever fails in it, does what a sequence of these steps does: its
  transaction is opened, its messages written, and the rows marked or the transaction given up,
  which counts for no more than the writer made attempts, while the transactions of other relays
  stay as they are and the rows they hold are passed over.
\<close>

theorem batch_is_relay_steps:
  assumes run: "processBatch (locked_by (ry_open st)) k w = (n, k', w')"
    and free: "ry_open st i = None" and st: "store w = ry_db st" "topic k = ry_topic st"
  shows "\<exists>m \<le> attempts_of k. relays_run L m st (st\<lparr>ry_db := store w', ry_topic := topic k'\<rparr>)"
proof -
  let ?L = "locked_by (ry_open st)"
  let ?rs = "batch ?L (store w)"
  let ?t = "\<lambda>now b. \<lparr> tx_now = now, tx_records = ?rs, tx_written = b \<rparr>"
  let ?open = "\<lambda>now b. (ry_open st)(i \<mapsto> ?t now b)"
  have closed: "(ry_open st)(i := None) = ry_open st" using free by auto
  have fetched: "relays_run L 0 st (st\<lparr>ry_open := ?open now False\<rparr>)" for now
    by (rule relays_run_step, rule relays_step.fetch [where records = ?rs])
      (use free st in \<open>simp_all add: select_pending_def batch_def\<close>)
  obtain r2 k2 where wr: "WriteMessages (map message_of ?rs) k = (r2, k2)" by (metis surj_pair)
  have wrote: "relays_run L (attempts_of k - 1) st (st\<lparr>ry_topic := topic k2, ry_open := ?open now True\<rparr>)" if "r2 = Inr u" for u now
    using relays_run.more [OF fetched [of now] relays_step.write_messages [where i = i and k = k and k' = k2 and u = u]] wr that st
    by simp
  from run wr show ?thesis
  proof (cases rule: processBatch_outcomes)
    case idle
    then show ?thesis using st relays_run.here [of L st] by (intro exI [of _ 0]) simp
  next
    case (failed e)
    have "relays_run L (0 + attempts_of k) st (st\<lparr>ry_topic := topic k2\<rparr>)"
      using relays_run.more [OF fetched relays_step.write_fails [where i = i and k = k and k' = k2 and e = e]] wr failed st closed
      by simp
    then show ?thesis using failed st by (intro exI [of _ "attempts_of k"]) simp
  next
    case given_up
    have "0 < attempts_of k" using wr given_up(3) by (auto elim: WriteMessages_cases)
    moreover have "relays_run L (attempts_of k - 1 + 1) st (st\<lparr>ry_topic := topic k2\<rparr>)"
      using relays_run.more [OF wrote [OF given_up(3)] relays_step.abort [where i = i]] closed by simp
    ultimately show ?thesis using given_up st by (intro exI [of _ "attempts_of k"]) simp
  next
    case (marked u now)
    have "relays_run L (attempts_of k - 1) st (st\<lparr>ry_topic := topic k2, ry_db := store w'\<rparr>)"
      using relays_run.more [OF wrote [OF marked(2), of now] relays_step.commit [where i = i]] closed marked(3) st
      by (simp add: batch_ids)
    moreover have "st\<lparr>ry_topic := topic k2, ry_db := store w'\<rparr> = st\<lparr>ry_db := store w', ry_topic := topic k2\<rparr>" by simp
    ultimately show ?thesis using marked(1) by (intro exI [of _ "attempts_of k - 1"]) simp
  qed
qed

section \<open>The invariant\<close>

definition held_ids :: "transaction \<Rightarrow> uuid set" where
  "held_ids t = rec_ID ` set (tx_records t)"

definition written_ids :: "(nat \<Rightarrow> transaction option) \<Rightarrow> uuid set" where
  "written_ids txs = {u. \<exists>i t. txs i = Some t \<and> tx_written t \<and> u \<in> held_ids t}"

text \<open>The rows whose messages have been written for good, unless their transaction is given up.\<close>

definition written_rows :: "(nat \<Rightarrow> transaction option) \<Rightarrow> OutboxRow list \<Rightarrow> OutboxRow multiset" where
  "written_rows txs rows = filter_mset (\<lambda>o1. \<not> unsent o1 \<or> ob_id o1 \<in> written_ids txs) (mset rows)"

definition held_rows :: "transaction \<Rightarrow> OutboxRow list \<Rightarrow> OutboxRow multiset" where
  "held_rows t rows = filter_mset (\<lambda>o1. ob_id o1 \<in> held_ids t) (mset rows)"

definition messages :: "OutboxRow multiset \<Rightarrow> KafkaMessage multiset" where
  "messages rows = image_mset row_message rows"

definition holds :: "transaction \<Rightarrow> OutboxRow list \<Rightarrow> bool" where
  "holds t rows \<longleftrightarrow> distinct (map rec_ID (tx_records t)) \<and> length (tx_records t) \<le> fetchBatchSize \<and>
     set (tx_records t) \<subseteq> scan_record ` {o1 \<in> set rows. unsent o1}"

definition locks_ok :: "(nat \<Rightarrow> transaction option) \<Rightarrow> OutboxRow list \<Rightarrow> bool" where
  "locks_ok txs rows \<longleftrightarrow> distinct (map ob_id rows) \<and>
     (\<forall>i t. txs i = Some t \<longrightarrow> holds t rows) \<and>
     (\<forall>i j t t'. txs i = Some t \<longrightarrow> txs j = Some t' \<longrightarrow> i \<noteq> j \<longrightarrow> held_ids t \<inter> held_ids t' = {})"

definition relays_ok :: "nat \<Rightarrow> relays \<Rightarrow> bool" where
  "relays_ok failed st \<longleftrightarrow> db_ok (ry_db st) \<and> locks_ok (ry_open st) (outbox (ry_db st)) \<and>
     messages (written_rows (ry_open st) (outbox (ry_db st))) \<subseteq># mset (ry_topic st) \<and>
     mset (ry_topic st) \<subseteq># messages (written_rows (ry_open st) (outbox (ry_db st))) +
       repeat_mset failed (messages (mset (outbox (ry_db st))))"

subsection \<open>Locks\<close>

lemma locks_okI:
  assumes "distinct (map ob_id rows)"
    and "\<And>i t. txs i = Some t \<Longrightarrow> holds t rows"
    and "\<And>i j t t'. txs i = Some t \<Longrightarrow> txs j = Some t' \<Longrightarrow> i \<noteq> j \<Longrightarrow> held_ids t \<inter> held_ids t' = {}"
  shows "locks_ok txs rows"
  using assms unfolding locks_ok_def by blast

lemma locks_okD:
  assumes "locks_ok txs rows"
  shows "distinct (map ob_id rows)"
    and "txs i = Some t \<Longrightarrow> holds t rows"
    and "txs i = Some t \<Longrightarrow> txs j = Some t' \<Longrightarrow> i \<noteq> j \<Longrightarrow> held_ids t \<inter> held_ids t' = {}"
  using assms unfolding locks_ok_def by blast+

lemma locked_by_alt: "locked_by txs u \<longleftrightarrow> (\<exists>i t. txs i = Some t \<and> u \<in> held_ids t)"
  by (simp add: locked_by_def held_ids_def)

lemma same_row: "distinct (map ob_id rows) \<Longrightarrow> o1 \<in> set rows \<Longrightarrow> o2 \<in> set rows \<Longrightarrow> ob_id o1 = ob_id o2 \<Longrightarrow> o1 = o2"
  by (auto simp: distinct_map dest: inj_onD)

lemma held_in_rows:
  assumes "locks_ok txs rows" and "txs i = Some t" and "u \<in> held_ids t"
  obtains o1 where "o1 \<in> set rows" "unsent o1" "ob_id o1 = u" "scan_record o1 \<in> set (tx_records t)"
  using locks_okD(2) [OF assms(1,2)] assms(3) by (fastforce simp: holds_def held_ids_def)

lemma held_unsent:
  assumes "locks_ok txs rows" and "txs i = Some t" and "o1 \<in> set rows" and "ob_id o1 \<in> held_ids t"
  shows "unsent o1" and "scan_record o1 \<in> set (tx_records t)"
proof -
  from held_in_rows [OF assms(1,2,4)] obtain o2 where o2: "o2 \<in> set rows" "unsent o2" "ob_id o2 = ob_id o1"
    "scan_record o2 \<in> set (tx_records t)" .
  moreover have "distinct (map ob_id rows)" using assms(1) by (simp add: locks_ok_def)
  ultimately have "o2 = o1" using assms(3) by (metis same_row)
  with o2 show "unsent o1" "scan_record o1 \<in> set (tx_records t)" by simp_all
qed

lemma held_messages:
  assumes ok: "locks_ok txs rows" and i: "txs i = Some t"
  shows "messages (held_rows t rows) = mset (map message_of (tx_records t))"
proof -
  let ?ys = "map scan_record (filter (\<lambda>o1. ob_id o1 \<in> held_ids t) rows)"
  have "distinct (map ob_id rows)" using ok by (simp add: locks_ok_def)
  then have "distinct (map rec_ID ?ys)" by (simp add: comp_def distinct_map_filter)
  then have ys: "distinct ?ys" using distinct_map [of rec_ID ?ys] by blast
  have xs: "distinct (tx_records t)" using locks_okD(2) [OF ok i] distinct_map by (auto simp: holds_def)
  have "set ?ys = set (tx_records t)"
  proof (intro equalityI subsetI)
    fix r assume "r \<in> set ?ys"
    then show "r \<in> set (tx_records t)" using held_unsent(2) [OF ok i] by auto
  next
    fix r assume r: "r \<in> set (tx_records t)"
    then obtain o1 where "o1 \<in> set rows" "r = scan_record o1" using locks_okD(2) [OF ok i] by (auto simp: holds_def)
    moreover from this r have "ob_id o1 \<in> held_ids t" by (metis held_ids_def imageI rec_ID_scan(2))
    ultimately show "r \<in> set ?ys" by simp
  qed
  then have "mset ?ys = mset (tx_records t)" using set_eq_iff_mset_eq_distinct [OF ys xs] by simp
  then have "image_mset message_of (mset ?ys) = image_mset message_of (mset (tx_records t))" by simp
  then show ?thesis by (simp add: messages_def held_rows_def multiset.map_comp comp_def flip: mset_filter mset_map)
qed

lemma filter_or_disjoint:
  assumes "\<And>x. x \<in># M \<Longrightarrow> \<not> (P x \<and> Q x)"
  shows "filter_mset (\<lambda>x. P x \<or> Q x) M = filter_mset P M + filter_mset Q M"
  using assms by (induction M) auto

lemma held_only_once: "locks_ok txs rows \<Longrightarrow> txs i = Some t \<Longrightarrow> u \<in> held_ids t \<Longrightarrow> u \<notin> written_ids (txs(i := None))"
  by (fastforce simp: locks_ok_def written_ids_def split: if_splits)

lemma written_rows_split:
  assumes ok: "locks_ok txs rows" and i: "txs i = Some t" and w: "tx_written t"
  shows "written_rows txs rows = written_rows (txs(i := None)) rows + held_rows t rows"
proof -
  have ids: "u \<in> written_ids txs \<longleftrightarrow> u \<in> written_ids (txs(i := None)) \<or> u \<in> held_ids t" for u
    using i w by (auto simp: written_ids_def) (metis option.inject)
  have "written_rows txs rows = filter_mset (\<lambda>o1. (\<not> unsent o1 \<or> ob_id o1 \<in> written_ids (txs(i := None))) \<or>
      ob_id o1 \<in> held_ids t) (mset rows)"
    by (simp add: written_rows_def ids disj_assoc)
  also have "\<dots> = written_rows (txs(i := None)) rows + held_rows t rows"
    unfolding written_rows_def held_rows_def
    by (rule filter_or_disjoint) (use held_unsent(1) [OF ok i] held_only_once [OF ok i] in auto)
  finally show ?thesis .
qed

lemma written_ids_unwritten:
  assumes "txs i = Some t" and "\<not> tx_written t"
  shows "written_ids (txs(i := None)) = written_ids txs"
proof -
  have "txs j = Some t' \<and> tx_written t' \<longleftrightarrow> (txs(i := None)) j = Some t' \<and> tx_written t'" for j t'
    using assms by auto
  then show ?thesis unfolding written_ids_def by (simp flip: conj_assoc)
qed

lemma locks_ok_close:
  assumes "locks_ok txs rows"
  shows "locks_ok (txs(i := None)) rows"
  by (rule locks_okI) (use locks_okD [OF assms] in \<open>simp_all split: if_splits\<close>)

lemma held_ids_written [simp]: "held_ids (t\<lparr>tx_written := b\<rparr>) = held_ids t" "held_rows (t\<lparr>tx_written := b\<rparr>) = held_rows t"
  by (simp_all add: held_ids_def held_rows_def fun_eq_iff)

lemma locks_ok_written:
  assumes "locks_ok txs rows" and "txs i = Some t"
  shows "locks_ok (txs(i \<mapsto> t\<lparr>tx_written := b\<rparr>)) rows"
proof (rule locks_okI)
  have old: "\<exists>t0. txs j = Some t0 \<and> held_ids t0 = held_ids t' \<and> tx_records t0 = tx_records t'"
    if "(txs(i \<mapsto> t\<lparr>tx_written := b\<rparr>)) j = Some t'" for j t'
    using that assms(2) by (cases "j = i") auto
  show "distinct (map ob_id rows)" using assms(1) by (rule locks_okD)
  show "holds t' rows"
    if "(txs(i \<mapsto> t\<lparr>tx_written := b\<rparr>)) j = Some t'" for j t'
    using old [OF that] locks_okD(2) [OF assms(1)] unfolding holds_def by metis
  show "held_ids t1 \<inter> held_ids t2 = {}"
    if "(txs(i \<mapsto> t\<lparr>tx_written := b\<rparr>)) j = Some t1" "(txs(i \<mapsto> t\<lparr>tx_written := b\<rparr>)) l = Some t2" "j \<noteq> l" for j l t1 t2
    using old [OF that(1)] old [OF that(2)] locks_okD(3) [OF assms(1) _ _ that(3)] by metis
qed

subsection \<open>Preservation\<close>

lemma written_grows: "repeat_mset m X \<subseteq># repeat_mset (m + n) X"
  by (simp add: repeat_mset_distrib)

lemma messages_mono: "X \<subseteq># Y \<Longrightarrow> messages X \<subseteq># messages Y"
  by (simp add: messages_def image_mset_subseteq_mono)

lemma messages_add [simp]: "messages (X + Y) = messages X + messages Y"
  by (simp add: messages_def)

lemma held_rows_sub: "held_rows t rows \<subseteq># mset rows"
  by (simp add: held_rows_def)

text \<open>Selecting: the rows that others hold are passed over.\<close>

lemma pending_ids:
  assumes "distinct (map ob_id (outbox db))"
  shows "distinct (map ob_id (pending locked db))"
proof -
  let ?xs = "filter (\<lambda>o1. unsent o1 \<and> \<not> locked (ob_id o1)) (outbox db)"
  have "distinct (map ob_id ?xs)" using assms by (rule distinct_map_filter)
  moreover have "mset (map ob_id (sort_key ob_created_at ?xs)) = mset (map ob_id ?xs)" by simp
  ultimately have "distinct (map ob_id (sort_key ob_created_at ?xs))" using mset_eq_imp_distinct_iff by blast
  then show ?thesis unfolding pending_def take_map [symmetric] by (rule distinct_take)
qed

lemma length_pending: "length (pending locked db) \<le> fetchBatchSize"
  by (simp add: pending_def)

lemma fetch_locks:
  assumes ok: "locks_ok txs (outbox db)" and free: "txs i = None"
    and q: "select_pending (locked_by txs) db = Inr records"
    and t: "tx_records t = records"
  shows "locks_ok (txs(i \<mapsto> t)) (outbox db)"
proof -
  have r: "tx_records t = map scan_record (pending (locked_by txs) db)" using q t by (simp add: select_pending_def)
  then have ids: "held_ids t = ob_id ` set (pending (locked_by txs) db)" by (simp add: held_ids_def image_image)
  have new: "held_ids t \<inter> held_ids t' = {}" if "txs j = Some t'" for j t'
    using that pending_subset unfolding ids by (force simp: locked_by_alt)
  show ?thesis
  proof (rule locks_okI)
    show "distinct (map ob_id (outbox db))" using ok by (rule locks_okD)
    show "holds t' (outbox db)"
      if "(txs(i \<mapsto> t)) j = Some t'" for j t'
    proof (cases "j = i")
      case True
      then have "tx_records t' = map scan_record (pending (locked_by txs) db)" using that r by simp
      then show ?thesis using pending_subset pending_ids [OF locks_okD(1) [OF ok]]
          length_pending by (auto simp: holds_def)
    next
      case False
      then show ?thesis using that locks_okD(2) [OF ok] by simp
    qed
    show "held_ids t1 \<inter> held_ids t2 = {}"
      if "(txs(i \<mapsto> t)) j = Some t1" "(txs(i \<mapsto> t)) l = Some t2" "j \<noteq> l" for j l t1 t2
      using that new locks_okD(3) [OF ok] by (auto split: if_splits)
  qed
qed

lemma fetch_written: "txs i = None \<Longrightarrow> \<not> tx_written t \<Longrightarrow> written_ids (txs(i \<mapsto> t)) = written_ids txs"
  unfolding written_ids_def by (rule Collect_cong) (metis fun_upd_apply option.distinct(1) option.inject)

text \<open>Committing: the rows become sent, and no other transaction notices.\<close>

lemma commit_written:
  assumes ok: "locks_ok txs rows" and i: "txs i = Some t" "tx_written t"
    and rows': "rows' = map (\<lambda>o1. if ob_id o1 \<in> held_ids t then o1\<lparr>ob_sent_at := Some now\<rparr> else o1) rows"
  shows "messages (written_rows (txs(i := None)) rows') = messages (written_rows txs rows)"
    and "messages (mset rows') = messages (mset rows)"
    and "locks_ok (txs(i := None)) rows'"
proof -
  define f :: "OutboxRow \<Rightarrow> OutboxRow" where "f = (\<lambda>o1. if ob_id o1 \<in> held_ids t then o1\<lparr>ob_sent_at := Some now\<rparr> else o1)"
  have f [simp]: "ob_id (f o1) = ob_id o1" "row_message (f o1) = row_message o1"
    "unsent (f o1) \<longleftrightarrow> unsent o1 \<and> ob_id o1 \<notin> held_ids t" "scan_record (f o1) = scan_record o1" for o1
    by (simp_all add: f_def unsent_def scan_record_def)
  have fi: "messages (image_mset f X) = messages X" for X
    by (simp add: messages_def multiset.map_comp comp_def del: row_message_sent)
  have r: "mset rows' = image_mset f (mset rows)" using rows' by (simp add: f_def)
  show "messages (mset rows') = messages (mset rows)" by (simp add: r fi)
  have ids: "u \<in> written_ids txs \<longleftrightarrow> u \<in> written_ids (txs(i := None)) \<or> u \<in> held_ids t" for u
    using i by (auto simp: written_ids_def) (metis option.inject)
  have "written_rows (txs(i := None)) rows' = image_mset f (written_rows txs rows)"
    unfolding written_rows_def r filter_mset_image_mset f ids
    by (rule arg_cong [where f = "image_mset f"], rule filter_mset_cong) blast+
  then show "messages (written_rows (txs(i := None)) rows') = messages (written_rows txs rows)" by (simp add: fi)
  show "locks_ok (txs(i := None)) rows'"
  proof (rule locks_okI)
    have "map ob_id rows' = map ob_id rows" by (simp add: rows' flip: f_def)
    then show "distinct (map ob_id rows')" using locks_okD(1) [OF ok] by simp
    show "holds t' rows'"
      if t': "(txs(i := None)) j = Some t'" for j t'
    proof -
      have j: "txs j = Some t'" "j \<noteq> i" using t' by (auto split: if_splits)
      have "rec \<in> scan_record ` {o1 \<in> set rows'. unsent o1}" if rec: "rec \<in> set (tx_records t')" for rec
      proof -
        obtain o1 where o1: "o1 \<in> set rows" "unsent o1" "rec = scan_record o1"
          using locks_okD(2) [OF ok j(1)] rec by (auto simp: holds_def)
        have "ob_id o1 \<notin> held_ids t" using locks_okD(3) [OF ok j(1) i(1) j(2)] rec o1(3) by (force simp: held_ids_def)
        then have "unsent (f o1)" "f o1 \<in> set rows'" using o1 by (simp_all add: rows' flip: f_def)
        then show ?thesis using o1(3) by (intro image_eqI [of _ _ "f o1"]) simp_all
      qed
      then show ?thesis using locks_okD(2) [OF ok j(1)] unfolding holds_def by blast
    qed
    show "held_ids t1 \<inter> held_ids t2 = {}"
      if "(txs(i := None)) j = Some t1" "(txs(i := None)) l = Some t2" "j \<noteq> l" for j l t1 t2
      using that locks_okD(3) [OF ok] by (auto split: if_splits)
  qed
qed

text \<open>Requests: the rows they add are unsent and nobody's.\<close>

lemma grown_written:
  assumes ok: "locks_ok txs rows" and new: "list_all unsent new" and ids: "distinct (map ob_id (rows @ new))"
  shows "written_rows txs (rows @ new) = written_rows txs rows" and "locks_ok txs (rows @ new)"
proof -
  have "u \<in> ob_id ` set rows" if u: "u \<in> written_ids txs" for u
  proof -
    obtain i t where t: "txs i = Some t" "u \<in> held_ids t" using u unfolding written_ids_def by blast
    show ?thesis by (rule held_in_rows [OF ok t]) blast
  qed
  then have "ob_id o1 \<notin> written_ids txs" if "o1 \<in> set new" for o1 using ids that by auto
  then show "written_rows txs (rows @ new) = written_rows txs rows"
    using new filter_False [of new "\<lambda>o1. \<not> unsent o1 \<or> ob_id o1 \<in> written_ids txs"]
    by (simp add: written_rows_def list_all_iff flip: mset_filter)
  show "locks_ok txs (rows @ new)"
  proof (rule locks_okI)
    show "holds t (rows @ new)" if "txs i = Some t" for i t
      using locks_okD(2) [OF ok that] by (auto simp: holds_def)
  qed (use locks_okD(3) [OF ok] ids in simp_all)
qed

subsection \<open>Every step\<close>

lemma repeat_mono: "X \<subseteq># Y \<Longrightarrow> repeat_mset n X \<subseteq># repeat_mset n Y"
  by (induction n) (simp_all add: subset_mset.add_mono)

lemma more_copies:
  assumes "Y \<subseteq># repeat_mset n A" and "T \<subseteq># W + repeat_mset m A"
  shows "T + Y \<subseteq># W + repeat_mset (m + n) A"
  using subset_mset.add_mono [OF assms(2,1)] by (simp add: repeat_mset_distrib ac_simps)

lemma more_rows: "T \<subseteq># W + repeat_mset m A \<Longrightarrow> T \<subseteq># W + repeat_mset m (A + B)"
  by (rule subset_mset.order_trans, assumption) (simp add: repeat_mset_distrib2)

lemma given_up: "W = W' + H \<Longrightarrow> H \<subseteq># A \<Longrightarrow> T \<subseteq># W + repeat_mset m A \<Longrightarrow> T \<subseteq># W' + repeat_mset (Suc m) A"
  by (rule subset_mset.order_trans, assumption) (simp add: ac_simps)

lemma write_messages_ok:
  assumes i: "ry_open st i = Some t" "\<not> tx_written t" and k: "topic k = ry_topic st"
    and wr: "WriteMessages (map message_of (tx_records t)) k = (Inr u, k')" and st: "relays_ok m st"
  shows "relays_ok (m + (attempts_of k - 1)) (st\<lparr>ry_topic := topic k', ry_open := (ry_open st)(i \<mapsto> t\<lparr>tx_written := True\<rparr>)\<rparr>)"
proof -
  let ?rows = "outbox (ry_db st)"
  let ?txs = "(ry_open st)(i \<mapsto> t\<lparr>tx_written := True\<rparr>)"
  have ok: "locks_ok (ry_open st) ?rows" using st by (simp add: relays_ok_def)
  have ok': "locks_ok ?txs ?rows" by (rule locks_ok_written [OF ok i(1)])
  have "written_rows ?txs ?rows = written_rows (?txs(i := None)) ?rows + held_rows t ?rows"
    using written_rows_split [OF ok', of i "t\<lparr>tx_written := True\<rparr>"] by simp
  also have "written_rows (?txs(i := None)) ?rows = written_rows (ry_open st) ?rows"
    using written_ids_unwritten [of "ry_open st", OF i] by (simp add: written_rows_def)
  finally have written: "written_rows ?txs ?rows = written_rows (ry_open st) ?rows + held_rows t ?rows" .
  let ?msgs = "mset (map message_of (tx_records t))" and ?all = "messages (mset ?rows)"
  have W: "messages (written_rows ?txs ?rows) = messages (written_rows (ry_open st) ?rows) + ?msgs"
    unfolding written messages_add held_messages [OF ok i(1)] by (rule refl)
  obtain new where new: "topic k' = topic k @ new" "?msgs \<subseteq># mset new" "mset new \<subseteq># repeat_mset (attempts_of k) ?msgs"
    and pos: "0 < attempts_of k" using wr by (cases rule: WriteMessages_cases) auto
  have topic: "mset (topic k') = mset (ry_topic st) + mset new" using new(1) k by simp
  have inv: "messages (written_rows (ry_open st) ?rows) \<subseteq># mset (ry_topic st)"
    "mset (ry_topic st) \<subseteq># messages (written_rows (ry_open st) ?rows) + repeat_mset m ?all"
    using st by (simp_all add: relays_ok_def)
  have "?msgs \<subseteq># ?all"
    using messages_mono [OF held_rows_sub [of t ?rows]] held_messages [OF ok i(1)] by simp
  then have rep: "repeat_mset (attempts_of k - 1) ?msgs \<subseteq># repeat_mset (attempts_of k - 1) ?all" by (rule repeat_mono)
  have "repeat_mset (attempts_of k) ?msgs = ?msgs + repeat_mset (attempts_of k - 1) ?msgs"
    using pos by (cases "attempts_of k") simp_all
  then have "mset new \<subseteq># ?msgs + repeat_mset (attempts_of k - 1) ?all"
    using new(3) subset_mset.add_left_mono [OF rep, of ?msgs] by (metis subset_mset.order_trans)
  from subset_mset.add_mono [OF inv(2) this] subset_mset.add_mono [OF inv(1) new(2)] show ?thesis
    using st ok' by (simp add: relays_ok_def W topic repeat_mset_distrib ac_simps)
qed

lemma write_fails_ok:
  assumes i: "ry_open st i = Some t" "\<not> tx_written t" and k: "topic k = ry_topic st"
    and wr: "WriteMessages (map message_of (tx_records t)) k = (Inl e, k')" and st: "relays_ok m st"
  shows "relays_ok (m + attempts_of k) (st\<lparr>ry_topic := topic k', ry_open := (ry_open st)(i := None)\<rparr>)"
proof -
  let ?rows = "outbox (ry_db st)"
  have ok: "locks_ok (ry_open st) ?rows" using st by (simp add: relays_ok_def)
  obtain new where new: "topic k' = topic k @ new" "mset new \<subseteq># repeat_mset (attempts_of k) (mset (map message_of (tx_records t)))"
    using wr by (cases rule: WriteMessages_cases) auto
  have kept: "mset (topic k') = mset (ry_topic st) + mset new" using new(1) k by simp
  have "mset (map message_of (tx_records t)) \<subseteq># messages (mset ?rows)"
    using messages_mono [OF held_rows_sub [of t ?rows]] held_messages [OF ok i(1)] by simp
  then have "mset new \<subseteq># repeat_mset (attempts_of k) (messages (mset ?rows))"
    using new(2) repeat_mono by (metis subset_mset.order_trans)
  then have "mset (topic k') \<subseteq># messages (written_rows (ry_open st) ?rows) + repeat_mset (m + attempts_of k) (messages (mset ?rows))"
    using more_copies st unfolding kept by (auto simp: relays_ok_def)
  then show ?thesis using st locks_ok_close [OF ok] kept written_ids_unwritten [of "ry_open st", OF i]
    by (simp add: relays_ok_def written_rows_def subset_mset.add_increasing2)
qed

lemma abort_ok:
  assumes i: "ry_open st i = Some t" and st: "relays_ok m st"
  shows "relays_ok (m + (if tx_written t then 1 else 0)) (st\<lparr>ry_open := (ry_open st)(i := None)\<rparr>)"
proof (cases "tx_written t")
  case True
  let ?rows = "outbox (ry_db st)"
  have ok: "locks_ok (ry_open st) ?rows" using st by (simp add: relays_ok_def)
  have split: "messages (written_rows (ry_open st) ?rows) =
      messages (written_rows ((ry_open st)(i := None)) ?rows) + messages (held_rows t ?rows)"
    using written_rows_split [OF ok i True] by simp
  have "mset (ry_topic st) \<subseteq># messages (written_rows ((ry_open st)(i := None)) ?rows) +
      repeat_mset (Suc m) (messages (mset ?rows))"
    by (rule given_up [OF split messages_mono [OF held_rows_sub]]) (use st in \<open>simp add: relays_ok_def\<close>)
  moreover have "messages (written_rows ((ry_open st)(i := None)) ?rows) \<subseteq># mset (ry_topic st)"
    using st split by (metis mset_subset_eq_add_left relays_ok_def subset_mset.order_trans)
  ultimately show ?thesis using st locks_ok_close [OF ok] True by (simp add: relays_ok_def)
next
  case False
  then show ?thesis using st locks_ok_close written_ids_unwritten [of "ry_open st", OF i]
    by (simp add: relays_ok_def written_rows_def)
qed

lemma service_ok:
  assumes step: "service_step L (ry_db st) db'" and st: "relays_ok m st"
  shows "relays_ok m (st\<lparr>ry_db := db'\<rparr>)"
proof -
  have ok: "locks_ok (ry_open st) (outbox (ry_db st))" "db_ok (ry_db st)" using st by (simp_all add: relays_ok_def)
  have db': "db_ok db'" by (rule store_step_ok [OF store_step.service [OF step] ok(2)])
  obtain new where new: "outbox db' = outbox (ry_db st) @ new" "list_all unsent new"
    using service_step_outbox [OF step] by blast
  have ids: "distinct (map ob_id (outbox (ry_db st) @ new))" using db' new(1) by (simp add: db_ok_defs)
  have "mset (ry_topic st) \<subseteq># messages (written_rows (ry_open st) (outbox (ry_db st))) +
      repeat_mset m (messages (mset (outbox (ry_db st))) + messages (mset new))"
    by (rule more_rows) (use st in \<open>simp add: relays_ok_def\<close>)
  then show ?thesis using grown_written [OF ok(1) new(2) ids] st db' by (simp add: relays_ok_def new(1))
qed

lemma relays_step_ok:
  assumes "relays_step L n st st'" and "relays_ok m st"
  shows "relays_ok (m + n) st'"
  using assms
proof (induction rule: relays_step.induct)
  case (fetch st i records now)
  then show ?case using fetch_locks [of "ry_open st" "ry_db st" i records] fetch_written [of "ry_open st" i]
    by (simp add: relays_ok_def written_rows_def)
next
  case write_messages
  then show ?case using write_messages_ok by simp
next
  case write_fails
  then show ?case using write_fails_ok by simp
next
  case (commit st i t u db')
  have ok: "locks_ok (ry_open st) (outbox (ry_db st))" using commit by (simp add: relays_ok_def)
  have "outbox db' = map (\<lambda>o1. if ob_id o1 \<in> held_ids t then o1\<lparr>ob_sent_at := Some (tx_now t)\<rparr> else o1) (outbox (ry_db st))"
    using mark_sent_outbox commit(3) by (simp add: held_ids_def)
  from commit_written [OF ok commit(1,2) this] show ?case
    using commit(4) mark_sent_ok [OF _ commit(3)] by (simp add: relays_ok_def)
next
  case abort
  then show ?case by (rule abort_ok)
next
  case service
  then show ?case using service_ok by simp
qed

lemma relays_ok_run:
  assumes "relays_run L n st st'" and "relays_ok m st"
  shows "relays_ok (m + n) st'"
  using assms
proof (induction rule: relays_run.induct)
  case (more n1 st1 st2 n2 st3)
  from relays_step_ok [OF more.hyps(2) more.IH [OF more.prems]] show ?case by (simp add: add.assoc)
qed simp

lemma relays_ok_start: "relays_ok 0 (relays_start now)"
  using db_ok_migrated [of now]
  by (simp add: relays_ok_def relays_start_def locks_ok_def written_rows_def messages_def) (simp add: migrated_def)

lemma relays_invariant: "relays L failed st \<Longrightarrow> relays_ok failed st"
  using relays_ok_run [OF _ relays_ok_start] by (fastforce simp: relays_def)

lemma sent_written: "filter_mset (\<lambda>o1. \<not> unsent o1) (mset rows) \<subseteq># written_rows txs rows"
  unfolding written_rows_def by (rule filter_mset_mono_strong) simp_all

lemma written_sub: "written_rows txs rows \<subseteq># mset rows"
  by (simp add: written_rows_def)

abbreviation sample_kafka :: "KafkaMessage list \<Rightarrow> Kafka" where
  "sample_kafka ms \<equiv> \<lparr> topic = ms, write_script = [] \<rparr>"

text \<open>
  The states of the database are those that the batches of a single relay reach: marking what a
  transaction holds is a batch for which everything else is locked.
\<close>

lemma marked_by_batch:
  assumes t: "holds t (outbox db)" and ids: "distinct (map ob_id (outbox db))"
    and m: "mark_sent now (map rec_ID (tx_records t)) db = Inr (u, db')"
  shows "db' = db \<or> store_step L db db'"
proof (cases "tx_records t")
  case Nil
  then show ?thesis using m by (auto simp: mark_sent_def update_where_def)
next
  case (Cons r rs)
  define locked where "locked = (\<lambda>u. u \<notin> held_ids t)"
  let ?held = "filter (\<lambda>o1. unsent o1 \<and> ob_id o1 \<in> held_ids t) (outbox db)"
  have hs: "set (map ob_id ?held) = held_ids t"
  proof (intro equalityI subsetI)
    fix u assume "u \<in> held_ids t"
    then obtain o1 where "o1 \<in> set (outbox db)" "unsent o1" "ob_id o1 = u"
      using t by (auto simp: holds_def held_ids_def)
    then show "u \<in> set (map ob_id ?held)" using \<open>u \<in> held_ids t\<close> by auto
  qed auto
  have "distinct (map ob_id ?held)" using ids by (rule distinct_map_filter)
  from distinct_card [OF this] have "length ?held = card (held_ids t)" unfolding hs by simp
  moreover have "card (held_ids t) \<le> fetchBatchSize"
    using t card_length [of "map rec_ID (tx_records t)"] unfolding holds_def held_ids_def set_map by simp
  ultimately have len: "length ?held \<le> fetchBatchSize" by simp
  then have p: "pending locked db = sort_key ob_created_at ?held" by (simp add: pending_def locked_def)
  then have set_p: "ob_id ` set (pending locked db) = held_ids t" using hs by simp
  have "held_ids t \<noteq> {}" using Cons by (simp add: held_ids_def)
  then have ne: "pending locked db \<noteq> []" using set_p by force
  let ?w = "(sample_world db)\<lparr>clock := now\<rparr>"
  obtain n k' w' where run: "processBatch locked (sample_kafka []) ?w = (n, k', w')" by (metis prod_cases3)
  have "store w' = db'"
    using run ne m set_p
    by (auto simp: processBatch_def ProcessBatch_def calm_db calm_query_rows select_pending_def publish_records_def
        WriteMessages_def mark_sent_def still_time_Now rollback_def held_ids_def counter_Add_store calm_def sample_world_def)
  then show ?thesis using store_step.relay [OF run, of L] by (simp add: sample_world_def)
qed

lemma relays_step_reachable:
  assumes "relays_step L n st st'" and "relays_ok m st" and "reachable L (ry_db st)"
  shows "reachable L (ry_db st')"
  using assms
proof (induction rule: relays_step.induct)
  case (commit st i t u db')
  then have ok: "locks_ok (ry_open st) (outbox (ry_db st))" by (simp add: relays_ok_def)
  from marked_by_batch [OF locks_okD(2) [OF ok commit(1)] locks_okD(1) [OF ok] commit(3), of L] commit(5)
  show ?case by (auto intro: reachable.step)
next
  case (service st db')
  then show ?case by (auto intro: reachable.step store_step.service)
qed simp_all

lemma relays_reachable:
  assumes "relays L failed st"
  shows "reachable L (ry_db st)"
proof -
  have "reachable L (ry_db st2)" if "relays_run L n st1 st2" "relays_ok m st1" "reachable L (ry_db st1)" for n st1 st2 m
    using that by (induction rule: relays_run.induct) (auto intro: relays_step_reachable relays_ok_run)
  then show ?thesis using assms relays_ok_start reachable.start
    by (fastforce simp: relays_def relays_start_def)
qed

lemma relays_deliver:
  assumes "relays L failed st"
  shows "messages (filter_mset (\<lambda>o1. \<not> unsent o1) (mset (outbox (ry_db st)))) \<subseteq># mset (ry_topic st)"
    and "mset (ry_topic st) \<subseteq># repeat_mset (Suc failed) (messages (mset (outbox (ry_db st))))"
proof -
  let ?rows = "outbox (ry_db st)"
  have ok: "messages (written_rows (ry_open st) ?rows) \<subseteq># mset (ry_topic st)"
    "mset (ry_topic st) \<subseteq># messages (written_rows (ry_open st) ?rows) + repeat_mset failed (messages (mset ?rows))"
    using relays_invariant [OF assms] by (simp_all add: relays_ok_def)
  show "messages (filter_mset (\<lambda>o1. \<not> unsent o1) (mset ?rows)) \<subseteq># mset (ry_topic st)"
    using messages_mono [OF sent_written] ok(1) by (rule subset_mset.order_trans)
  show "mset (ry_topic st) \<subseteq># repeat_mset (Suc failed) (messages (mset ?rows))"
    using subset_mset.add_right_mono [OF messages_mono [OF written_sub [of "ry_open st" ?rows]]]
      ok(2) by (metis repeat_mset_Suc subset_mset.order_trans)
qed

lemma all_sent: "filter unsent rows = [] \<Longrightarrow> filter_mset (\<lambda>o1. \<not> unsent o1) (mset rows) = mset rows"
  by (simp add: filter_empty_conv flip: mset_filter)

lemma relays_all_published:
  assumes "relays L failed st" and "filter unsent (outbox (ry_db st)) = []"
  shows "set (ry_topic st) = row_message ` set (outbox (ry_db st))"
proof -
  have rep: "set_mset (repeat_mset n X) \<subseteq> set_mset X" for n and X :: "KafkaMessage multiset"
    by (induction n) auto
  have m: "set_mset (messages (mset rows)) = row_message ` set rows" for rows by (simp add: messages_def)
  have "row_message ` set (outbox (ry_db st)) \<subseteq> set (ry_topic st)"
    using set_mset_mono [OF relays_deliver(1) [OF assms(1)]] unfolding all_sent [OF assms(2)] m by simp
  moreover have "set (ry_topic st) \<subseteq> row_message ` set (outbox (ry_db st))"
    using set_mset_mono [OF relays_deliver(2) [OF assms(1)]] rep m by (metis set_mset_mset subset_trans)
  ultimately show ?thesis by blast
qed

text \<open>
  C15: with any number of relays at work at once, their batches interleaved in every way with each
  other and with requests, and any of them failing or dying at any point, the messages of the
  rows marked as sent are in the topic, as many as there are such rows; and of each message the
  topic holds at most one copy, and one more for each attempt of the writer that it repeated or
  that was of a call that failed, and for each batch given up after its call.  So with none of
  these and nothing left unsent, every message is there exactly once.
\<close>

theorem relays_share_the_work:
  assumes "relays L failed st"
  shows "messages (filter_mset (\<lambda>o1. \<not> unsent o1) (mset (outbox (ry_db st)))) \<subseteq># mset (ry_topic st) \<and>
    mset (ry_topic st) \<subseteq># repeat_mset (Suc failed) (messages (mset (outbox (ry_db st)))) \<and>
    (failed = 0 \<and> filter unsent (outbox (ry_db st)) = [] \<longrightarrow>
       mset (ry_topic st) = messages (mset (outbox (ry_db st))))"
  using relays_deliver [OF assms] all_sent [of "outbox (ry_db st)"] by (auto intro: subset_mset.antisym)

section \<open>Two relays on the sample\<close>

abbreviation fetched :: "OutboxRow list \<Rightarrow> transaction" where
  "fetched rows \<equiv> \<lparr> tx_now = 0, tx_records = map scan_record rows, tx_written = False \<rparr>"

abbreviation created_row :: OutboxRow where
  "created_row \<equiv> hd (outbox db_booked)"

lemma WriteMessages_sample [simp]:
  "WriteMessages msgs (sample_kafka ms) = (Inr (), sample_kafka (ms @ msgs))" "attempts_of (sample_kafka ms) = 1"
  by (simp_all add: WriteMessages_def attempts_of_def)

lemma run_to_booked: "relays_run sample_externals 0 (relays_start 0) (relays_start 0\<lparr>ry_db := db_booked\<rparr>)"
proof -
  let ?st = "\<lambda>db. relays_start 0\<lparr>ry_db := db\<rparr>"
  have "?st (migrated 0) = relays_start 0" by (simp add: relays_start_def)
  moreover have "relays_step sample_externals 0 (?st db) (?st db')" if "service_step sample_externals db db'" for db db'
    using relays_step.service [of sample_externals "?st db" db'] that by simp
  ultimately show ?thesis
    using relays_run.more [OF relays_run.more [OF relays_run.more [OF relays_run.here]]]
      step_to_rooms step_to_slots step_to_booked by (metis add_0)
qed

lemma locked_by_none [simp]: "locked_by (\<lambda>_. None) = (\<lambda>_. False)"
  by (rule ext) (simp add: locked_by_def)

lemma created_row_id [simp]: "ob_id created_row = 101"
  by (simp add: db_booked_def)

lemma locked_by_one [simp]: "locked_by ((\<lambda>_. None)(i \<mapsto> t)) u \<longleftrightarrow> u \<in> rec_ID ` set (tx_records t)"
  by (auto simp: locked_by_def)

lemma sample_pending:
  "pending locked db_booked = (if locked 101 then [] else [created_row])"
  "locked 101 \<Longrightarrow> \<not> locked 200 \<Longrightarrow> pending locked db_cancelled = [last (outbox db_cancelled)]"
  by (simp_all add: pending_def db_cancelled_def db_booked_def unsent_def fetchBatchSize_def)

abbreviation two_relays :: "BookingDB \<Rightarrow> KafkaMessage list \<Rightarrow> transaction option \<Rightarrow> transaction option \<Rightarrow> relays" where
  "two_relays db ms t1 t2 \<equiv> \<lparr> ry_db = db, ry_topic = ms, ry_open = (\<lambda>_. None)(1 := t1, 2 := t2) \<rparr>"

lemma first_fetch:
  "relays_run sample_externals 0 (relays_start 0) (two_relays db_booked [] (Some (fetched [created_row])) None)"
proof -
  have "relays_step sample_externals 0 (relays_start 0\<lparr>ry_db := db_booked\<rparr>)
      ((relays_start 0\<lparr>ry_db := db_booked\<rparr>)\<lparr>ry_open := (\<lambda>_. None)(1 \<mapsto> fetched [created_row])\<rparr>)"
    using relays_step.fetch [of "relays_start 0\<lparr>ry_db := db_booked\<rparr>" 1 _ sample_externals 0]
    by (simp add: select_pending_def sample_pending relays_start_def)
  from relays_run.more [OF run_to_booked this] show ?thesis by (simp add: relays_start_def)
qed

lemma run_two_relays:
  "\<exists>db. relays sample_externals 0 (two_relays db [row_message created_row] None (Some (fetched []))) \<and>
     db = db_booked\<lparr>outbox := [created_row\<lparr>ob_sent_at := Some 0\<rparr>]\<rparr>"
proof -
  let ?t = "fetched [created_row]"
  have b: "relays_step sample_externals 0 (two_relays db_booked [] (Some ?t) None)
      (two_relays db_booked [] (Some ?t) (Some (fetched [])))"
    using relays_step.fetch [of "two_relays db_booked [] (Some ?t) None" 2 "[]" sample_externals 0]
    by (simp add: select_pending_def sample_pending)
  have c: "relays_step sample_externals 0 (two_relays db_booked [] (Some ?t) (Some (fetched [])))
      (two_relays db_booked [row_message created_row] (Some (?t\<lparr>tx_written := True\<rparr>)) (Some (fetched [])))"
    using relays_step.write_messages [where st = "two_relays db_booked [] (Some ?t) (Some (fetched []))" and i = 1 and t = ?t
      and k = "sample_kafka []" and u = "()" and k' = "sample_kafka [row_message created_row]" and L = sample_externals]
    by (simp add: fun_upd_twist)
  obtain db where db: "mark_sent 0 [101] db_booked = Inr ((), db)"
      "db = db_booked\<lparr>outbox := [created_row\<lparr>ob_sent_at := Some 0\<rparr>]\<rparr>"
    by (simp add: mark_sent_def db_booked_def update_where_def)
  have d: "relays_step sample_externals 0
      (two_relays db_booked [row_message created_row] (Some (?t\<lparr>tx_written := True\<rparr>)) (Some (fetched [])))
      (two_relays db [row_message created_row] None (Some (fetched [])))"
    using relays_step.commit [of "two_relays db_booked [row_message created_row] (Some (?t\<lparr>tx_written := True\<rparr>))
      (Some (fetched []))" 1 "?t\<lparr>tx_written := True\<rparr>" "()" db] db(1)
    by (simp add: fun_upd_twist db_booked_def)
  have "relays_run sample_externals 0 (relays_start 0) (two_relays db [row_message created_row] None (Some (fetched [])))"
    using relays_run.more [OF relays_run.more [OF relays_run.more [OF first_fetch b] c] d] by simp
  then show ?thesis using db(2) unfolding relays_def by blast
qed

theorem batch_is_relay_steps_witness:
  "\<exists>db m. relays_run sample_externals m (relays_start 0\<lparr>ry_db := db_booked\<rparr>)
     (relays_start 0\<lparr>ry_db := db, ry_topic := [row_message created_row]\<rparr>)"
proof -
  let ?st = "relays_start 0\<lparr>ry_db := db_booked\<rparr>"
  have n: "locked_by (ry_open ?st) = nobody" by (simp add: relays_start_def)
  obtain n k' w' where b: "processBatch nobody (sample_kafka []) (sample_world db_booked) = (n, k', w')" by (metis prod_cases3)
  then have "topic k' = [row_message created_row]" by (auto simp: calm_processBatch sample_pending)
  with batch_is_relay_steps [of ?st "sample_kafka []" "sample_world db_booked" n k' w' 0 sample_externals] b n
  show ?thesis by (auto simp: relays_start_def)
qed

text \<open>
  The events of a booking go to one partition, but several relays may write them there in the
  other order: while one holds the row of the creation, another may already send the
  cancellation.
\<close>

lemma cancelled_overtakes_created:
  "\<exists>st. relays sample_externals 0 st \<and>
     map (\<lambda>m. map_of (km_Value m) ''event_type'') (ry_topic st) =
       [Some (JString ''booking.cancelled''), Some (JString ''booking.created'')]"
proof -
  let ?t = "fetched [created_row]" and ?row = "last (outbox db_cancelled)"
  let ?u = "fetched [?row]"
  have b: "relays_step sample_externals 0 (two_relays db_booked [] (Some ?t) None) (two_relays db_cancelled [] (Some ?t) None)"
    using relays_step.service [of sample_externals "two_relays db_booked [] (Some ?t) None" db_cancelled] step_to_cancelled
    by simp
  have c: "relays_step sample_externals 0 (two_relays db_cancelled [] (Some ?t) None) (two_relays db_cancelled [] (Some ?t) (Some ?u))"
    using relays_step.fetch [of "two_relays db_cancelled [] (Some ?t) None" 2 "[scan_record ?row]" sample_externals 0]
    by (simp add: select_pending_def sample_pending db_booked_def)
  have d: "relays_step sample_externals 0 (two_relays db_cancelled [] (Some ?t) (Some ?u))
      (two_relays db_cancelled [row_message ?row] (Some ?t) (Some (?u\<lparr>tx_written := True\<rparr>)))"
    using relays_step.write_messages [where st = "two_relays db_cancelled [] (Some ?t) (Some ?u)" and i = 2 and t = ?u
      and k = "sample_kafka []" and u = "()" and k' = "sample_kafka [row_message ?row]" and L = sample_externals]
    by simp
  have e: "relays_step sample_externals 0 (two_relays db_cancelled [row_message ?row] (Some ?t) (Some (?u\<lparr>tx_written := True\<rparr>)))
      (two_relays db_cancelled [row_message ?row, row_message created_row] (Some (?t\<lparr>tx_written := True\<rparr>))
        (Some (?u\<lparr>tx_written := True\<rparr>)))"
    using relays_step.write_messages [where st = "two_relays db_cancelled [row_message ?row] (Some ?t) (Some (?u\<lparr>tx_written := True\<rparr>))"
      and i = 1 and t = ?t and k = "sample_kafka [row_message ?row]" and u = "()"
      and k' = "sample_kafka [row_message ?row, row_message created_row]" and L = sample_externals]
    by (simp add: fun_upd_twist)
  let ?st = "two_relays db_cancelled [row_message ?row, row_message created_row]
      (Some (?t\<lparr>tx_written := True\<rparr>)) (Some (?u\<lparr>tx_written := True\<rparr>))"
  have "relays sample_externals 0 ?st"
    unfolding relays_def
    using relays_run.more [OF relays_run.more [OF relays_run.more [OF relays_run.more [OF first_fetch b] c] d] e] by auto
  then show ?thesis
    by (intro exI [of _ ?st] conjI) (simp_all add: db_cancelled_def db_booked_def message_of_def scan_record_def booking_event_def)
qed

theorem relays_share_the_work_witness:
  "\<exists>st. relays sample_externals 0 st \<and> ry_open st 2 \<noteq> None \<and>
     mset (ry_topic st) = messages (mset (outbox (ry_db st))) \<and> length (ry_topic st) = 1"
proof -
  obtain db where db: "relays sample_externals 0 (two_relays db [row_message created_row] None (Some (fetched [])))"
    "db = db_booked\<lparr>outbox := [created_row\<lparr>ob_sent_at := Some 0\<rparr>]\<rparr>" using run_two_relays by blast
  have "filter unsent (outbox db) = []" by (simp add: db(2) unsent_def)
  with relays_share_the_work [OF db(1)] have "mset [row_message created_row] = messages (mset (outbox db))" by simp
  with db(1) show ?thesis
    by (intro exI [of _ "two_relays db [row_message created_row] None (Some (fetched []))"]) simp
qed

end
