(* ===== verification/Settings.thy ===== *)
theory Settings
  imports GoStrings
begin

text \<open>
  \<open>internal/config/config.go\<close> of both services: the settings that are read from the environment
  and the connection strings that are made of them.  The booking service builds a URL with
  \<open>net/url\<close>, the notification service pastes the settings together.
\<close>

section \<open>The environment\<close>

text \<open>\<open>os.Getenv\<close> of an unset variable is empty; \<open>log.Fatalf\<close> ends the process (\<open>None\<close>).\<close>

type_synonym environment = "string \<Rightarrow> string"

definition mustEnv :: "environment \<Rightarrow> string \<Rightarrow> string option" where
  "mustEnv env key = (let v = env key in if v = '''' then None else Some v)"

definition optEnv :: "environment \<Rightarrow> string \<Rightarrow> string \<Rightarrow> string" where
  "optEnv env key def = (let v = env key in if v \<noteq> '''' then v else def)"

section \<open>Percent encoding\<close>

text \<open>
  The parts of \<open>net/url\<close> that \<open>URL.String\<close> uses here: which bytes are escaped in a user or a
  password, in a host, and in a path.
\<close>

datatype encoding = EncodeUserPassword | EncodeHost | EncodePath

definition unreserved :: "char \<Rightarrow> bool" where
  "unreserved c \<longleftrightarrow> (let n = (of_char c :: nat) in
     48 \<le> n \<and> n \<le> 57 \<or> 65 \<le> n \<and> n \<le> 90 \<or> 97 \<le> n \<and> n \<le> 122) \<or> c \<in> set ''-_.~''"

definition shouldEscape :: "encoding \<Rightarrow> char \<Rightarrow> bool" where
  "shouldEscape mode c =
    (if unreserved c then False
     else if mode = EncodeHost \<and> c \<in> set (''!$&()*+,;=:[]<>'' @ [CHR 0x22, CHR 0x27]) then False
     else if c \<in> set ''$&+,/:;=?@'' then
       (case mode of EncodePath \<Rightarrow> c = CHR ''?'' | EncodeUserPassword \<Rightarrow> c \<in> set ''@/?:'' | EncodeHost \<Rightarrow> True)
     else True)"

definition upperhex :: "nat \<Rightarrow> char" where
  "upperhex d = (if d < 10 then char_of (48 + d) else char_of (55 + d))"

definition ishex :: "char \<Rightarrow> bool" where
  "ishex c \<longleftrightarrow> (let n = (of_char c :: nat) in 48 \<le> n \<and> n \<le> 57 \<or> 97 \<le> n \<and> n \<le> 102 \<or> 65 \<le> n \<and> n \<le> 70)"

definition unhex :: "char \<Rightarrow> nat" where
  "unhex c = (let n = of_char c in if n \<le> 57 then n - 48 else if 97 \<le> n then n - 87 else n - 55)"

definition escape_char :: "encoding \<Rightarrow> char \<Rightarrow> string" where
  "escape_char mode c =
    (if shouldEscape mode c
     then [CHR ''%'', upperhex (of_char c div 16), upperhex (of_char c mod 16)] else [c])"

definition escape :: "encoding \<Rightarrow> string \<Rightarrow> string" where
  "escape mode s = concat (map (escape_char mode) s)"

fun unescape :: "string \<Rightarrow> string option" where
  "unescape [] = Some []"
| "unescape (c # cs) =
    (if c = CHR ''%''
     then (case cs of
             a # b # rest \<Rightarrow>
               if ishex a \<and> ishex b then map_option ((#) (char_of (16 * unhex a + unhex b))) (unescape rest) else None
           | _ \<Rightarrow> None)
     else map_option ((#) c) (unescape cs))"

section \<open>The booking service\<close>

definition sslModeDisable :: string where "sslModeDisable = ''sslmode=disable''"

record BookingConfig =
  bc_ServerPort :: string
  bc_DBHost :: string
  bc_DBPort :: string
  bc_DBUser :: string
  bc_DBPassword :: string
  bc_DBName :: string
  bc_JWTSecret :: string
  bc_KafkaBrokers :: string
  bc_KafkaTopicBookingEvents :: string

definition booking_Load :: "environment \<Rightarrow> BookingConfig option" where
  "booking_Load env =
    Option.bind (mustEnv env ''BOOKING_DATABASE_HOST'') (\<lambda>host.
    Option.bind (mustEnv env ''BOOKING_DATABASE_USER'') (\<lambda>user.
    Option.bind (mustEnv env ''BOOKING_DATABASE_PASSWORD'') (\<lambda>password.
    Option.bind (mustEnv env ''BOOKING_DATABASE_NAME'') (\<lambda>name.
    Option.bind (mustEnv env ''JWT_SECRET'') (\<lambda>secret.
    Option.bind (mustEnv env ''KAFKA_BROKERS'') (\<lambda>brokers.
      Some \<lparr> bc_ServerPort = optEnv env ''BOOKING_SERVER_PORT'' ''8080'',
             bc_DBHost = host, bc_DBPort = optEnv env ''BOOKING_DATABASE_PORT'' ''5432'', bc_DBUser = user,
             bc_DBPassword = password, bc_DBName = name, bc_JWTSecret = secret, bc_KafkaBrokers = brokers,
             bc_KafkaTopicBookingEvents = optEnv env ''KAFKA_TOPIC_BOOKING_EVENTS'' ''booking.events'' \<rparr>))))))"

text \<open>The user and the password with their separator, and the whole URL.\<close>

definition userinfo :: "string \<Rightarrow> string \<Rightarrow> string" where
  "userinfo user password = escape EncodeUserPassword user @ '':'' @ escape EncodeUserPassword password"

definition dsnURL :: "string \<Rightarrow> BookingConfig \<Rightarrow> string" where
  "dsnURL scheme c =
    scheme @ ''://'' @ userinfo (bc_DBUser c) (bc_DBPassword c) @ ''@'' @
    escape EncodeHost (bc_DBHost c @ '':'' @ bc_DBPort c) @ escape EncodePath (''/'' @ bc_DBName c) @ ''?'' @ sslModeDisable"

definition booking_DSN :: "BookingConfig \<Rightarrow> string" where "booking_DSN = dsnURL ''postgres''"
definition booking_MigrateDSN :: "BookingConfig \<Rightarrow> string" where "booking_MigrateDSN = dsnURL ''pgx5''"

text \<open>\<open>strings.Split(cfg.KafkaBrokers, ",")\<close> in \<open>cmd/main.go\<close>.\<close>

definition booking_brokers :: "BookingConfig \<Rightarrow> string list" where
  "booking_brokers c = Split (bc_KafkaBrokers c) CHR '',''"

section \<open>The notification service\<close>

record NotifConfig =
  nc_ServerPort :: string
  nc_DBHost :: string
  nc_DBPort :: string
  nc_DBUser :: string
  nc_DBPassword :: string
  nc_DBName :: string
  nc_JWTSecret :: string
  nc_KafkaBrokers :: string
  nc_KafkaTopicBookingEvents :: string
  nc_KafkaGroupID :: string

definition notif_Load :: "environment \<Rightarrow> NotifConfig option" where
  "notif_Load env =
    Option.bind (mustEnv env ''NOTIFICATION_DATABASE_HOST'') (\<lambda>host.
    Option.bind (mustEnv env ''NOTIFICATION_DATABASE_USER'') (\<lambda>user.
    Option.bind (mustEnv env ''NOTIFICATION_DATABASE_PASSWORD'') (\<lambda>password.
    Option.bind (mustEnv env ''NOTIFICATION_DATABASE_NAME'') (\<lambda>name.
    Option.bind (mustEnv env ''JWT_SECRET'') (\<lambda>secret.
    Option.bind (mustEnv env ''KAFKA_BROKERS'') (\<lambda>brokers.
      Some \<lparr> nc_ServerPort = optEnv env ''NOTIFICATION_SERVER_PORT'' ''8081'',
             nc_DBHost = host, nc_DBPort = optEnv env ''NOTIFICATION_DATABASE_PORT'' ''5432'', nc_DBUser = user,
             nc_DBPassword = password, nc_DBName = name, nc_JWTSecret = secret, nc_KafkaBrokers = brokers,
             nc_KafkaTopicBookingEvents = optEnv env ''KAFKA_TOPIC_BOOKING_EVENTS'' ''booking.events'',
             nc_KafkaGroupID = optEnv env ''KAFKA_GROUP_ID'' ''notification-service'' \<rparr>))))))"

definition notif_DSN :: "NotifConfig \<Rightarrow> string" where
  "notif_DSN c = ''host='' @ nc_DBHost c @ '' port='' @ nc_DBPort c @ '' user='' @ nc_DBUser c @
     '' password='' @ nc_DBPassword c @ '' dbname='' @ nc_DBName c @ '' '' @ sslModeDisable"

definition KafkaBrokersList :: "NotifConfig \<Rightarrow> string list" where
  "KafkaBrokersList c = map TrimSpace (Split (nc_KafkaBrokers c) CHR '','')"

definition notif_MigrateDSN :: "NotifConfig \<Rightarrow> string" where
  "notif_MigrateDSN c = ''pgx5://'' @ nc_DBUser c @ '':'' @ nc_DBPassword c @ ''@'' @ nc_DBHost c @ '':'' @
     nc_DBPort c @ ''/'' @ nc_DBName c @ ''?'' @ sslModeDisable"

section \<open>Escaping is undone by parsing\<close>

lemma upperhex_digit: "d < 16 \<Longrightarrow> ishex (upperhex d) \<and> unhex (upperhex d) = d"
  by (simp add: upperhex_def ishex_def unhex_def Let_def)

lemma of_char_bytes: "of_char c div 16 < (16::nat)" "of_char c mod 16 < (16::nat)"
  using nat_of_char_less_256 [of c] by (simp_all add: less_mult_imp_div_less)

lemma percent_escaped: "shouldEscape mode CHR ''%''"
  by (cases mode) (simp_all add: shouldEscape_def unreserved_def)

lemma unescape_char: "unescape (escape_char mode c @ s) = map_option ((#) c) (unescape s)"
proof (cases "shouldEscape mode c")
  case True
  have "16 * (of_char c div 16) + of_char c mod 16 = (of_char c :: nat)" by simp
  then have "char_of (16 * unhex (upperhex (of_char c div 16)) + unhex (upperhex (of_char c mod 16))) = c"
    using upperhex_digit of_char_bytes [of c] by simp
  then show ?thesis using True upperhex_digit of_char_bytes [of c] by (simp add: escape_char_def)
next
  case False
  then have "c \<noteq> CHR ''%''" using percent_escaped by auto
  then show ?thesis using False by (simp add: escape_char_def)
qed

lemma unescape_escape: "unescape (escape mode s) = Some s"
  by (induction s) (simp_all add: escape_def unescape_char)

text \<open>What is escaped in a user or password has none of the separators of the URL.\<close>

definition separators :: "char set" where "separators = set '':@/?#''"

lemma hex_no_separator: "d < 16 \<Longrightarrow> upperhex d \<notin> separators"
proof
  assume "d < 16" "upperhex d \<in> separators"
  then have "ishex (upperhex d)" "upperhex d \<in> set '':@/?#''" by (simp_all add: upperhex_digit separators_def)
  then show False by (auto simp: ishex_def Let_def)
qed

lemma escaped_no_separator: "c \<in> set (escape EncodeUserPassword s) \<Longrightarrow> c \<notin> separators"
proof -
  have "c \<notin> separators" if "c \<in> set (escape_char EncodeUserPassword x)" for x
  proof (cases "shouldEscape EncodeUserPassword x")
    case True
    then show ?thesis using that hex_no_separator of_char_bytes [of x] by (auto simp: escape_char_def separators_def)
  next
    case False
    then have "x \<notin> separators" by (auto simp: shouldEscape_def separators_def unreserved_def split: if_splits)
    then show ?thesis using that False by (simp add: escape_char_def)
  qed
  then show "c \<in> set (escape EncodeUserPassword s) \<Longrightarrow> c \<notin> separators" by (auto simp: escape_def)
qed

text \<open>
  Reading the user and the password back, as \<open>net/url\<close> does: the authority ends at a slash, a
  question mark or a number sign; what precedes its last at sign must consist of the characters
  that are valid there, and is split at the first colon.
\<close>

definition authority :: "string \<Rightarrow> string" where
  "authority rest = takeWhile (\<lambda>c. c \<notin> set ''/?#'') rest"

definition validUserinfo :: "char \<Rightarrow> bool" where
  "validUserinfo c \<longleftrightarrow> unreserved c \<or> c \<in> set (''!$&()*+,;=:%@'' @ [CHR 0x27])"

definition before_last :: "char \<Rightarrow> string \<Rightarrow> string" where
  "before_last c s = rev (drop 1 (dropWhile (\<lambda>x. x \<noteq> c) (rev s)))"

definition read_userinfo :: "string \<Rightarrow> (string \<times> string) option" where
  "read_userinfo rest =
    (if CHR ''@'' \<notin> set (authority rest) then None
     else let info = before_last (CHR ''@'') (authority rest); user = takeWhile (\<lambda>c. c \<noteq> CHR '':'') info
          in if \<not> list_all validUserinfo info then None
             else case (unescape user, unescape (drop (Suc (length user)) info)) of
                    (Some u, Some p) \<Rightarrow> Some (u, p) | _ \<Rightarrow> None)"

lemma takeWhile_stop: "a \<notin> set xs \<Longrightarrow> takeWhile (\<lambda>c. c \<noteq> a) (xs @ a # ys) = xs"
  by (induction xs) auto

lemma before_last_at: "c \<notin> set ys \<Longrightarrow> before_last c (xs @ c # ys) = xs"
proof -
  assume "c \<notin> set ys"
  then have "dropWhile (\<lambda>x. x \<noteq> c) (rev ys @ c # rev xs) = c # rev xs" by (subst dropWhile_append2) auto
  then show ?thesis by (simp add: before_last_def)
qed

lemma escaped_valid: "c \<in> set (escape EncodeUserPassword s) \<Longrightarrow> validUserinfo c"
proof -
  have hex: "validUserinfo (upperhex d)" if "d < 16" for d
  proof -
    have "ishex (upperhex d)" using upperhex_digit [OF that] by simp
    then have "unreserved (upperhex d)" by (auto simp: ishex_def unreserved_def Let_def)
    then show ?thesis by (simp add: validUserinfo_def)
  qed
  have "validUserinfo c" if "c \<in> set (escape_char EncodeUserPassword x)" for x
  proof (cases "shouldEscape EncodeUserPassword x")
    case True
    then have "c \<in> {CHR ''%'', upperhex (of_char x div 16), upperhex (of_char x mod 16)}"
      using that by (auto simp: escape_char_def)
    moreover have "validUserinfo (CHR ''%'')" by (simp add: validUserinfo_def)
    ultimately show ?thesis using hex [OF of_char_bytes(1) [of x]] hex [OF of_char_bytes(2) [of x]] by auto
  next
    case False
    then show ?thesis using that by (auto simp: escape_char_def shouldEscape_def validUserinfo_def split: if_splits)
  qed
  then show "c \<in> set (escape EncodeUserPassword s) \<Longrightarrow> validUserinfo c" by (auto simp: escape_def)
qed

text \<open>A host, escaped, ends neither the authority nor the user before it.\<close>

lemma escaped_host: "c \<in> set (escape EncodeHost s) \<Longrightarrow> c \<notin> set ''@/?#''"
proof -
  have "c \<notin> set ''@/?#''" if "c \<in> set (escape_char EncodeHost x)" for x
  proof (cases "shouldEscape EncodeHost x")
    case True
    have hex: "upperhex d \<notin> set ''@/?#''" if "d < 16" for d
      using hex_no_separator [OF that] by (auto simp: separators_def)
    from True have "c \<in> {CHR ''%'', upperhex (of_char x div 16), upperhex (of_char x mod 16)}"
      using that by (auto simp: escape_char_def)
    then show ?thesis using hex [OF of_char_bytes(1) [of x]] hex [OF of_char_bytes(2) [of x]] by auto
  next
    case False
    then show ?thesis using that by (auto simp: escape_char_def shouldEscape_def unreserved_def split: if_splits)
  qed
  then show "c \<in> set (escape EncodeHost s) \<Longrightarrow> c \<notin> set ''@/?#''" by (auto simp: escape_def)
qed

lemma read_userinfo_back:
  "read_userinfo (userinfo user password @ CHR ''@'' # escape EncodeHost host @ CHR ''/'' # rest) = Some (user, password)"
proof -
  let ?u = "escape EncodeUserPassword user" and ?p = "escape EncodeUserPassword password" and ?h = "escape EncodeHost host"
  let ?i = "userinfo user password"
  have sep: "c \<notin> set '':@/?#''" if "c \<in> set ?u \<union> set ?p" for c
    using that escaped_no_separator by (auto simp: separators_def)
  then have col: "CHR '':'' \<notin> set ?u" by auto
  have inner: "c \<notin> set ''/?#''" if "c \<in> set (?i @ CHR ''@'' # ?h)" for c
    using that sep [of c] escaped_host [of c host] by (auto simp: userinfo_def)
  have "authority (?i @ CHR ''@'' # ?h @ CHR ''/'' # rest) = ?i @ CHR ''@'' # ?h"
    unfolding authority_def using takeWhile_append2 [of "?i @ CHR ''@'' # ?h" "\<lambda>c. c \<notin> set ''/?#''" "CHR ''/'' # rest"] inner
    by simp
  moreover have "before_last (CHR ''@'') (?i @ CHR ''@'' # ?h) = ?i"
    by (rule before_last_at) (use escaped_host [of "CHR ''@''" host] in auto)
  moreover have "list_all validUserinfo ?i"
    using escaped_valid by (auto simp: userinfo_def list_all_iff) (simp add: validUserinfo_def)
  moreover have "takeWhile (\<lambda>c. c \<noteq> CHR '':'') ?i = ?u"
    using takeWhile_stop [OF col, of ?p] by (simp add: userinfo_def)
  moreover have "drop (Suc (length ?u)) ?i = ?p" by (simp add: userinfo_def)
  ultimately show ?thesis by (simp add: read_userinfo_def Let_def unescape_escape)
qed

lemma dsn_parts:
  "dsnURL scheme c = scheme @ ''://'' @ userinfo (bc_DBUser c) (bc_DBPassword c) @ CHR ''@'' #
     escape EncodeHost (bc_DBHost c @ '':'' @ bc_DBPort c) @ CHR ''/'' # escape EncodePath (bc_DBName c) @ ''?'' @ sslModeDisable"
  by (simp add: dsnURL_def escape_def escape_char_def shouldEscape_def)

section \<open>Brokers\<close>

text \<open>Names without spaces are the same list for both services, and come back as they were joined.\<close>

lemma TrimSpace_none: "\<forall>c \<in> set s. \<not> isSpace c \<Longrightarrow> TrimSpace s = s"
proof -
  assume a: "\<forall>c \<in> set s. \<not> isSpace c"
  have d: "dropWhile isSpace xs = xs" if "\<forall>c \<in> set xs. \<not> isSpace c" for xs using that by (cases xs) auto
  show ?thesis using d [OF a] d [of "rev s"] a by (simp add: TrimSpace_def)
qed

lemma brokers_agree:
  assumes "\<forall>c \<in> set (nc_KafkaBrokers n). \<not> isSpace c" "bc_KafkaBrokers b = nc_KafkaBrokers n"
  shows "KafkaBrokersList n = booking_brokers b"
proof -
  have "\<forall>p \<in> set (Split s CHR '',''). set p \<subseteq> set s" for s
    by (induction s) (auto split: list.splits if_splits)
  then have "map TrimSpace (Split (nc_KafkaBrokers n) CHR '','') = Split (nc_KafkaBrokers n) CHR '',''"
    using assms(1) by (intro map_idI TrimSpace_none) blast
  then show ?thesis by (simp add: KafkaBrokersList_def booking_brokers_def assms(2))
qed

text \<open>
  The notification service does not escape its settings: in the URL for the migrations a
  password with a slash leaves no user at all, and one with a percent sign is read as another.
\<close>

lemma unescaped_password_is_misread:
  assumes "nc_DBUser c = ''u''"
  shows "nc_DBPassword c = ''p/w'' \<Longrightarrow> \<exists>rest. notif_MigrateDSN c = ''pgx5://'' @ rest \<and> read_userinfo rest = None"
    and "nc_DBPassword c = ''p%41'' \<Longrightarrow> nc_DBHost c = ''db'' \<Longrightarrow> nc_DBPort c = ''5432'' \<Longrightarrow>
      \<exists>rest. notif_MigrateDSN c = ''pgx5://'' @ rest \<and> read_userinfo rest = Some (''u'', ''pA'')"
  by (simp_all add: notif_MigrateDSN_def read_userinfo_def authority_def before_last_def validUserinfo_def unreserved_def
      ishex_def unhex_def char_of_def bit_0 assms Let_def)

end
