(* ===== verification/NotifProperties.thy ===== *)
theory NotifProperties
  imports NotifSample Relays Settings
begin

text \<open>
  The properties of the notification service and of the two services together, each with an
  instance on the sample data where it has hypotheses.
\<close>

section \<open>From a booking to its notification\<close>

text \<open>
  C2: take any state that calls of the booking service and any number of relays reach, their
  batches interleaved and whatever failed on the way, in which no row waits to be sent.  Let the
  database of the notification service answer.  When the consumer has passed the topic, through
  whatever errors of Kafka, restarts, crashes and redeliveries, then each booking has exactly one notification of its creation, exactly one of its
  cancellation if it is cancelled and none otherwise, and every notification is addressed to the
  user of a booking and tells its room and slot.
\<close>

theorem each_booking_is_notified:
  assumes "uuid_text_ok L" "pgx_text_ok L pgx" "pg_json_ok pt"
    and "relays L failed st" "times_ok (ry_db st)" "filter unsent (outbox (ry_db st)) = []"
    and "consumer_lives (app_handler L pgx) lives (at_start (map (wire pt) (ry_topic st))) w = (rd, w')" "lives_polite lives"
    and "notifications (store w) = []" "calm w" "inj_on (gen w) {gen_pos w ..< gen_pos w'}"
    and "rd_pos rd = length (ry_topic st)"
  shows "(\<forall>b \<in> set (bookings (ry_db st)).
      length (notified (bk_ID b) ''booking.created'' (notifications (store w'))) = 1 \<and>
      length (notified (bk_ID b) ''booking.cancelled'' (notifications (store w'))) = (if active b then 0 else 1)) \<and>
    (\<forall>row \<in> set (notifications (store w')). tells_of (ry_db st) row)"
  using notifications_agree [OF assms(1-3) relays_reachable [OF assms(4)] assms(5) relays_all_published [OF assms(4,6)]
      assms(7-12)]
  by blast

text \<open>The sample booking, sent by one of two relays.\<close>

lemma sample_published:
  obtains st where "relays sample_externals 0 st" "times_ok (ry_db st)" "filter unsent (outbox (ry_db st)) = []"
    "bookings (ry_db st) = [sample_booking]" "length (ry_topic st) = 1"
proof -
  obtain db where db: "relays sample_externals 0 (two_relays db [row_message created_row] None (Some (fetched [])))"
    "db = db_booked\<lparr>outbox := [created_row\<lparr>ob_sent_at := Some 0\<rparr>]\<rparr>" using run_two_relays by blast
  have "only_marks db_booked db" by (simp add: db(2) only_marks_def db_booked_def)
  from times_ok_marks [OF this db_booked_times] show thesis
    by (intro that [OF db(1)]) (simp_all add: db(2) unsent_def)
qed

theorem each_booking_is_notified_witness:
  "\<exists>log. \<exists>rd w'. consumer_lives (app_handler sample_externals sample_pgx) (calm_life 1)
       (at_start log) (sample_world empty_app) = (rd, w') \<and>
     length (notified 100 ''booking.created'' (notifications (store w'))) = 1 \<and>
     length (notified 100 ''booking.cancelled'' (notifications (store w'))) = 0"
proof -
  obtain st where st: "relays sample_externals 0 st" "times_ok (ry_db st)" "filter unsent (outbox (ry_db st)) = []"
    and b: "bookings (ry_db st) = [sample_booking]" and one: "length (ry_topic st) = 1" by (rule sample_published)
  let ?log = "map (wire sample_json_time) (ry_topic st)"
  have "?log \<noteq> []" using one by auto
  then obtain rd w' where l: "consumer_lives (app_handler sample_externals sample_pgx) (calm_life 1) (at_start ?log)
      (sample_world empty_app) = (rd, w')" "rd_pos rd = 1" and g: "gen_pos w' \<le> Suc 0"
    by (rule one_message [of ?log sample_externals sample_pgx "sample_world empty_app"]) simp
  have "inj_on (gen (sample_world empty_app)) {gen_pos (sample_world empty_app) ..< gen_pos w'}"
    using sample_gen_inj [of "gen_pos w'" empty_app] g by simp
  from each_booking_is_notified [OF sample_uuid_text_ok sample_pgx_text_ok sample_json_ok st l(1) calm_life_polite _ _ this] l b one
  show ?thesis by (intro exI [of _ ?log] exI [of _ rd] exI [of _ w']) simp
qed

text \<open>
  C14: from any such state, rows waiting or not, when everything answers in time, the last pass
  of the relay and one run of the consumer over the topic come to their end and leave each
  booking with exactly its notifications.
\<close>

theorem bookings_are_notified_in_the_end:
  assumes "uuid_text_ok L" "pgx_text_ok L pgx" "pg_json_ok pt"
    and "publishing L (store wb) (topic k)" "times_ok (store wb)"
    and "calm wb" "ticks wb = []" "write_script k = []" "clock wb < deadline"
    and "notifications (store w) = []" "calm w"
    and "inj_on (gen w) {gen_pos w ..< gen_pos w + (length (topic k) + length (filter unsent (outbox (store wb))))}"
  shows "\<exists>k' wb' rd w'. drain nobody deadline k wb = (k', wb') \<and> bookings (store wb') = bookings (store wb) \<and>
    Run_consumer (app_handler L pgx) (good_rounds (replicate (length (topic k')) (\<lambda>d. d)))
      (at_start (map (wire pt) (topic k'))) w = (RunWaiting, rd, w') \<and>
    (\<forall>b \<in> set (bookings (store wb)).
      length (notified (bk_ID b) ''booking.created'' (notifications (store w'))) = 1 \<and>
      length (notified (bk_ID b) ''booking.cancelled'' (notifications (store w'))) = (if active b then 0 else 1)) \<and>
    (\<forall>row \<in> set (notifications (store w')). tells_of (store wb) row)"
  by (rule delivered_in_the_end [OF assms]) (blast dest: only_marks_tables(1))

theorem bookings_are_notified_in_the_end_witness:
  "\<exists>k' wb' rd w'. drain nobody 1 \<lparr> topic = [], write_script = [] \<rparr> (sample_world db_booked) = (k', wb') \<and>
     Run_consumer (app_handler sample_externals sample_pgx) (good_rounds (replicate (length (topic k')) (\<lambda>d. d)))
       (at_start (map (wire sample_json_time) (topic k'))) (sample_world empty_app) = (RunWaiting, rd, w') \<and>
     length (notified 100 ''booking.created'' (notifications (store w'))) = 1"
proof -
  let ?k = "\<lparr> topic = [], write_script = [] \<rparr>"
  have p: "publishing sample_externals (store (sample_world db_booked)) (topic ?k)" by (simp add: publishing_samples)
  have t: "times_ok (store (sample_world db_booked))" by (simp add: db_booked_times)
  have inj: "inj_on (gen (sample_world empty_app)) {gen_pos (sample_world empty_app) ..<
      gen_pos (sample_world empty_app) + (length (topic ?k) + length (filter unsent (outbox (store (sample_world db_booked)))))}"
    using sample_gen_inj [of 1 empty_app] by (simp add: db_booked_def unsent_def)
  from bookings_are_notified_in_the_end [OF sample_uuid_text_ok sample_pgx_text_ok sample_json_ok p t
      calm_sample_world _ _ _ _ calm_sample_world inj, of 1]
  show ?thesis by (auto simp del: sample_world_simps(5))
qed

text \<open>
  C11: whatever fails and however often messages are delivered, no two notifications are of the
  same booking and type, and each tells what some message of the topic says.
\<close>

theorem one_notification_per_event:
  assumes "consumer_lives (app_handler L pgx) lives (at_start log) w = (k', w')" "lives_polite lives"
    and "notifications (store w) = []"
  shows "distinct (map event_key (notifications (store w'))) \<and>
    (\<forall>row \<in> set (notifications (store w')).
       row_checks row \<and> (\<exists>value \<in> set log. \<exists>e. decode_event value = Some e \<and> tells pgx e row))"
  using inbox_after_lives [OF assms] by (auto simp: inbox_ok_def table_ok_def told_by_def list_all_iff)

theorem one_notification_per_event_witness:
  "\<exists>k' w'. consumer_lives (app_handler sample_externals sample_pgx) (calm_life 3)
       (at_start (None # map (wire sample_json_time) (topic sample_topic @ topic sample_topic))) (sample_world empty_app) = (k', w') \<and>
     rd_pos k' = 3 \<and> distinct (map event_key (notifications (store w')))"
proof -
  let ?log = "None # map (wire sample_json_time) (topic sample_topic @ topic sample_topic)"
  have "3 \<le> length ?log" by simp
  then obtain k' w' where l: "consumer_lives (app_handler sample_externals sample_pgx) (calm_life 3) (at_start ?log)
      (sample_world empty_app) = (k', w')" "rd_pos k' = 3" by (rule calm_life_passes)
  from one_notification_per_event [OF l(1) calm_life_polite] l show ?thesis by auto
qed

text \<open>
  An event whose notification is there already changes no notification and reaches no
  stream.
\<close>

theorem redelivery_is_ignored:
  assumes "app_handler L pgx e w = (r, w')" and "pgx_text_ok L pgx"
    and "row \<in> set (notifications (store w))" "tells pgx e row"
  shows "notifications (store w') = notifications (store w) \<and> hub (store w') = hub (store w)"
proof -
  obtain ty where ty: "notif_type (ev_EventType e) = Some ty" "nr_type row = ty" using assms(4) by (auto simp: tells_def)
  obtain row' where row': "row_of pgx (notification_for ty e (uuid_String L 0) 0) = Some row'"
    using assms(2,4) by (auto simp: row_of_def notification_for_def pgx_text_ok_def tells_def)
  have "event_key row' = event_key row"
    using tells_key [OF assms(4)] tells_key [OF row_of_tells [OF row' ty(1)]] by simp
  then have k: "event_key row' \<in> event_key ` set (notifications (store w))" using assms(3) by simp
  have "notif_service.row_for (row_of pgx) e row'" using ty(1) row' by (auto simp: notif_app.row_for_def)
  with notif_app.handle_event_again [of L pgx e w r w' row'] assms(1) k
  show ?thesis by (simp add: app_handler_def pg_notifs.has_key_def)
qed

definition sample_event :: BookingEvent where
  "sample_event = \<lparr> ev_EventID = ''e'', ev_EventType = ''booking.created'', ev_OccurredAt = 0,
     ev_BookingID = sample_uuid_String 100, ev_UserID = sample_uuid_String 2, ev_RoomID = '''', ev_RoomName = ''Blue'',
     ev_SlotStart = Hour, ev_SlotEnd = 2 * Hour \<rparr>"

definition sample_row :: NotificationRow where
  "sample_row = \<lparr> nr_id = 5, nr_user_id = 2, nr_type = ''booking.created'', nr_booking_id = 100, nr_room_name = ''Blue'',
     nr_slot_start = Hour, nr_slot_end = 2 * Hour, nr_is_read = False, nr_created_at = 0 \<rparr>"

definition app_with_row :: NotifState where
  "app_with_row = empty_app\<lparr>notifications := [sample_row]\<rparr>"

lemma app_with_row_simps [simp]:
  "notifications app_with_row = [sample_row]" "hub app_with_row = NewHub" "nr_id sample_row = 5" "nr_user_id sample_row = 2"
  by (simp_all add: app_with_row_def sample_row_def)

theorem redelivery_is_ignored_witness:
  "notifications (store (snd (app_handler sample_externals sample_pgx sample_event (sample_world app_with_row)))) = [sample_row]"
proof -
  obtain r w' where h: "app_handler sample_externals sample_pgx sample_event (sample_world app_with_row) = (r, w')"
    by (cases "app_handler sample_externals sample_pgx sample_event (sample_world app_with_row)")
  have "tells sample_pgx sample_event sample_row"
    using notif_type_known [of "''booking.created''"]
    by (simp add: tells_def sample_event_def sample_row_def pg_timestamp_def)
  from redelivery_is_ignored [OF h sample_pgx_text_ok _ this] h show ?thesis by simp
qed

section \<open>The hub\<close>

text \<open>
  C8: whatever the goroutines of the process do, in any order, a user has at most ten open
  channels, a channel holds at most sixteen notifications, and what was received from a channel,
  what it holds and what is still to be sent to it is together no more than what was broadcast
  to the user who opened it: nothing is invented, repeated or shown to somebody else.
\<close>

theorem hub_runs_safe:
  assumes "hub_reachable s"
  shows "length (subs_of (run_hub s) u) \<le> 10 \<and> distinct (subs_of (run_hub s) u) \<and>
    (\<forall>ch \<in> set (subs_of (run_hub s) u). run_owner s ch = u) \<and>
    (\<forall>ch < chan_next (run_hub s). length (chan_buf (run_hub s) ch) \<le> 16 \<and>
       got_by ch (run_got s) + mset (chan_buf (run_hub s) ch) + coming_to ch (run_sends s)
       \<subseteq># sent_to (run_owner s ch) (run_sent s))"
  using hub_okD [OF run_okD(1) [OF hub_reachable_ok [OF assms]]] run_okD(2,5) [OF hub_reachable_ok [OF assms]]
  by (auto simp: maxSubsPerUser_def chanCap_def)

definition sample_note :: Notification where
  "sample_note = notification_for ''booking.created'' sample_event ''n'' 0"

theorem hub_runs_safe_witness:
  "\<exists>s. hub_reachable s \<and> length (subs_of (run_hub s) ''u'') \<le> 10 \<and> run_got s = [(0, sample_note)] \<and>
     got_by 0 (run_got s) \<subseteq># sent_to (run_owner s 0) (run_sent s)"
proof -
  define h1 where "h1 = snd (Subscribe ''u'' NewHub)"
  define h2 where "h2 = try_send sample_note 0 h1"
  have h1: "Subscribe ''u'' NewHub = (Inr 0, h1)" and subs: "subs_of h1 ''u'' = [0]" and buf: "chan_buf h1 0 = []"
    by (simp_all add: h1_def Subscribe_def NewHub_def maxSubsPerUser_def subs_of_def Let_def)
  have "chan_buf h2 0 = [sample_note]" by (simp add: h2_def buf push_def chanCap_def)
  then obtain h3 where h3: "receive 0 h2 = Some (sample_note, h3)" by (simp add: receive_def)
  let ?s1 = "idle_run\<lparr>run_hub := h1, run_owner := (run_owner idle_run)(0 := ''u'')\<rparr>"
  let ?s2 = "?s1\<lparr>run_sends := [(''u'', sample_note, [0])], run_sent := [(''u'', sample_note)]\<rparr>"
  let ?s3 = "?s2\<lparr>run_hub := h2, run_sends := [(''u'', sample_note, [])]\<rparr>"
  let ?s4 = "?s3\<lparr>run_hub := h3, run_got := [(0, sample_note)]\<rparr>"
  have "hub_step idle_run ?s1" using hub_step.subscribe [of "''u''" idle_run 0 h1] h1 by (simp add: idle_run_def)
  moreover have "hub_step ?s1 ?s2" using hub_step.copy [of ?s1 "''u''" sample_note] subs by (simp add: idle_run_def)
  moreover have "hub_step ?s2 ?s3"
    using hub_step.send [of ?s2 "[]" "''u''" sample_note 0 "[]" "[]"] by (simp add: h2_def)
  moreover have "hub_step ?s3 ?s4" using hub_step.recv [of 0 ?s3 sample_note h3] h3 by (simp add: idle_run_def)
  ultimately have r: "hub_reachable ?s4"
    by (meson hub_reachable.start hub_reachable.step)
  have "0 < chan_next h2" by (simp add: h2_def h1_def Subscribe_def NewHub_def maxSubsPerUser_def subs_of_def Let_def)
  then have "0 < chan_next (run_hub ?s4)" using receive_SomeD [OF h3] by simp
  then have "got_by 0 (run_got ?s4) + mset (chan_buf (run_hub ?s4) 0) + coming_to 0 (run_sends ?s4)
      \<subseteq># sent_to (run_owner ?s4 0) (run_sent ?s4)" and "length (subs_of (run_hub ?s4) ''u'') \<le> 10"
    using hub_runs_safe [OF r, of "''u''"] by blast+
  then show ?thesis
    by (intro exI [of _ ?s4] conjI r) (auto intro: mset_subset_eq_add_left subset_mset.order_trans simp: add.assoc)
qed

text \<open>
  What delivery promises: every mailbox of the user that has room takes the notification, and no
  other user's changes.  A mailbox that is full may be left as it is or be closed.
\<close>

definition delivers :: "nat \<Rightarrow> string \<Rightarrow> Notification \<Rightarrow> mailboxes \<Rightarrow> mailboxes \<Rightarrow> bool" where
  "delivers cap u n m m' \<longleftrightarrow> (\<forall>v. v \<noteq> u \<longrightarrow> m' v = m v) \<and>
    (\<forall>ch. case m u ch of
       None \<Rightarrow> m' u ch = None
     | Some q \<Rightarrow> if length q < cap then m' u ch = Some (q @ [n]) else m' u ch = Some q \<or> m' u ch = None)"

lemma deliver_delivers: "delivers cap u n m (deliver cap u n m)"
  by (auto simp: delivers_def deliver_def push_def split: option.split)

text \<open>
  C19: the hub implements mailboxes.  A subscription opens an empty one under an address
  nobody has, or is refused when the user has ten; unsubscribing closes it; a broadcast puts
  the notification into each mailbox of the user that holds fewer than sixteen and touches none
  of another user; a receive takes the oldest.
\<close>

theorem hub_keeps_mailboxes:
  assumes "hub_ok h"
  shows "(case Subscribe u h of
      (Inr c, h') \<Rightarrow> hub_ok h' \<and> mailboxes_of h' = open_box u c (mailboxes_of h) \<and> (\<forall>v. mailboxes_of h v c = None)
    | (Inl e, h') \<Rightarrow> h' = h \<and> card (dom (mailboxes_of h u)) = 10) \<and>
    hub_ok (unsubscribe u ch h) \<and> mailboxes_of (unsubscribe u ch h) = close_box u ch (mailboxes_of h) \<and>
    hub_ok (Broadcast u n h) \<and> delivers 16 u n (mailboxes_of h) (mailboxes_of (Broadcast u n h)) \<and>
    (case mailboxes_of h u ch of
       Some (m # q) \<Rightarrow> \<exists>h'. receive ch h = Some (m, h') \<and> hub_ok h' \<and>
         mailboxes_of h' = (mailboxes_of h)(u := (mailboxes_of h u)(ch \<mapsto> q))
     | Some [] \<Rightarrow> receive ch h = None | None \<Rightarrow> True)"
proof -
  have sub: "case Subscribe u h of
      (Inr c, h') \<Rightarrow> hub_ok h' \<and> mailboxes_of h' = open_box u c (mailboxes_of h) \<and> (\<forall>v. mailboxes_of h v c = None)
    | (Inl e, h') \<Rightarrow> h' = h \<and> card (dom (mailboxes_of h u)) = 10"
    using go_hub_laws.subscribe_ok [of u h] go_hub_laws.subscribe_opens [of u h] go_hub_laws.subscribe_refuses [of u h] assms
    by (auto simp: maxSubsPerUser_def split: sum.split prod.split)
  have rec: "case mailboxes_of h u ch of
       Some (m # q) \<Rightarrow> \<exists>h'. receive ch h = Some (m, h') \<and> hub_ok h' \<and>
         mailboxes_of h' = (mailboxes_of h)(u := (mailboxes_of h u)(ch \<mapsto> q))
     | Some [] \<Rightarrow> receive ch h = None | None \<Rightarrow> True"
    using go_hub_laws.receive_takes [of h u ch] go_hub_laws.receive_ok [of ch h] assms
    by (auto split: option.split list.split)
  show ?thesis
    using sub rec go_hub_laws.unsubscribe_ok [OF assms, of u ch] go_hub_laws.unsubscribe_closes [OF assms, of u ch]
      go_hub_laws.broadcast_ok [OF assms, of u n] go_hub_laws.broadcast_delivers [OF assms, of u n] deliver_delivers
    by (simp add: chanCap_def)
qed

theorem hub_keeps_mailboxes_witness:
  "\<exists>h. Subscribe ''u'' NewHub = (Inr 0, h) \<and> mailboxes_of (Broadcast ''u'' sample_note h) ''u'' 0 = Some [sample_note]"
proof -
  obtain h where h: "Subscribe ''u'' NewHub = (Inr 0, h)"
    by (simp add: Subscribe_def NewHub_def maxSubsPerUser_def subs_of_def Let_def)
  have "hub_ok h" and box: "mailboxes_of h ''u'' 0 = Some []"
    using hub_keeps_mailboxes [OF hub_ok_NewHub, of "''u''"] by (simp_all add: h open_box_def)
  then have "delivers 16 ''u'' sample_note (mailboxes_of h) (mailboxes_of (Broadcast ''u'' sample_note h))"
    using hub_keeps_mailboxes [of h "''u''" 0 sample_note] by blast
  then have "mailboxes_of (Broadcast ''u'' sample_note h) ''u'' 0 = Some [sample_note]"
    using box by (auto simp: delivers_def dest!: spec [of _ 0])
  with h show ?thesis by blast
qed

text \<open>A full mailbox stays open, and the notification is lost to it.\<close>

lemma full_mailbox_stays_open:
  assumes "hub_ok h" "mailboxes_of h u ch = Some q" "length q = 16"
  shows "mailboxes_of (Broadcast u n h) u ch = Some q"
  using assms go_hub_laws.broadcast_delivers [OF assms(1), of u n] by (simp add: deliver_def push_def chanCap_def)

section \<open>Streams\<close>

text \<open>
  C17: a stream that has ended, because the client went away, a write failed or the first write
  failed, holds no channel of its user any more and is not counted as open, whatever else
  happened meanwhile.
\<close>

theorem ended_stream_leaves_nothing:
  assumes "streamNotifications (go_tokens L) app_hub c rounds r w = (Streaming u ch fs False, w')"
    and "hub_ok (hub (store w))"
    and "\<forall>(wake, write_ok, others) \<in> set rounds. \<forall>d. hub_ok (hub d) \<longrightarrow> hub_ok (hub (others d))"
  shows "hub_ok (hub (store w')) \<and> ch \<notin> set (subs_of (hub (store w')) u) \<and>
    counters w' (me_Name SSEConnectionsActive) = counters w (me_Name SSEConnectionsActive)"
  using app_stream.ended_stream [OF assms] by (auto simp: mailboxes_of_def split: if_splits)

definition app_with_token :: NotifState where
  "app_with_token = empty_app\<lparr>tokens := [''tok'' \<mapsto> \<lparr> te_userID = ''u'', te_expiresAt = 30 * Second \<rparr>]\<rparr>"

definition stream_request :: request where
  "stream_request = \<lparr> rq_Method = ''GET'', rq_Path = ''/notifications/stream'', rq_Authorization = '''',
     rq_Query = [(''token'', ''tok'')], rq_Params = [], rq_Body = None, rq_BodyBytes = 0, rq_UserID = None, rq_Role = None \<rparr>"

definition good_connection :: connection where
  "good_connection = \<lparr> cn_flusher = True, cn_deadline = True, cn_first_write = True \<rparr>"

text \<open>The stream of the sample token opens on the first channel of an empty hub.\<close>

abbreviation sample_open :: "NotifState sse_round list \<Rightarrow> stream_result \<times> NotifState world" where
  "sample_open rounds \<equiv> streamNotifications (go_tokens sample_externals) app_hub good_connection rounds stream_request
     (sample_world app_with_token)"

lemma sample_stream:
  "\<exists>w2. \<forall>rounds. sample_open rounds =
    (let (fs, still_open, w3) = stream_loop app_hub 0 rounds w2
     in (Streaming ''u'' 0 (Connected # fs) still_open, if still_open then w3 else close_stream app_hub ''u'' 0 w3))"
proof -
  define w1 where "w1 = snd (Consume ''tok'' (sample_world app_with_token))"
  have "fst (Consume ''tok'' (sample_world app_with_token)) = Some ''u''" and h: "hub (store w1) = NewHub"
    by (simp_all add: w1_def Consume_def app_with_token_def empty_app_def Let_def)
  then have c: "Consume ''tok'' (sample_world app_with_token) = (Some ''u'', w1)" by (simp add: w1_def prod_eq_iff)
  obtain h1 where s: "Subscribe ''u'' NewHub = (Inr 0, h1)"
    by (simp add: Subscribe_def NewHub_def maxSubsPerUser_def subs_of_def Let_def)
  define d where "d = (store w1)\<lparr>hub := h1\<rparr>"
  have d: "hb_Subscribe app_hub ''u'' (store w1) = (Inr 0, d)" using s h by (simp add: app_hub_simps d_def)
  show ?thesis
    by (rule exI [of _ "set_deadline (counter_Add (me_Name SSEConnectionsActive) 1 (w1\<lparr>store := d\<rparr>))"])
      (use c d s in \<open>simp add: streamNotifications_def stream_request_def good_connection_def get_param_def\<close>)
qed

theorem ended_stream_leaves_nothing_witness:
  "\<exists>w'. sample_open [(WakeTicker, True, \<lambda>d. d), (WakeDone, True, \<lambda>d. d)] =
         (Streaming ''u'' 0 [Connected, Ping] False, w') \<and> 0 \<notin> set (subs_of (hub (store w')) ''u'')"
proof -
  obtain w' where run: "sample_open [(WakeTicker, True, \<lambda>d. d), (WakeDone, True, \<lambda>d. d)] =
         (Streaming ''u'' 0 [Connected, Ping] False, w')"
    using sample_stream by (auto simp: Let_def)
  have "hub_ok (hub (store (sample_world app_with_token)))" by (simp add: app_with_token_def hub_ok_NewHub)
  from ended_stream_leaves_nothing [OF run this] run show ?thesis by simp
qed

text \<open>
  C18: a stream that is open, and whose writes succeeded, belongs to the user its token was issued
  to; as long as no more than sixteen notifications were broadcast to that user since it opened,
  which is what its channel can hold, it has shown, or still holds in its channel, exactly these, in
  their order.
\<close>

theorem stream_shows_broadcasts:
  assumes "streamNotifications (go_tokens L) app_hub c (broadcast_rounds app_hub script) r w = (Streaming u ch fs True, w')"
    and "hub_ok (hub (store w))"
    and "length (filter (\<lambda>(v, n). v = u) (broadcasts_of script)) \<le> 16"
  shows "ch \<in> set (subs_of (hub (store w')) u) \<and>
    notifications_in fs @ chan_buf (hub (store w')) ch = map snd (filter (\<lambda>(v, n). v = u) (broadcasts_of script)) \<and>
    (\<exists>e. tokens (store w) (get_param (rq_Query r) ''token'') = Some e \<and> te_userID e = u)"
  using app_stream.open_stream_shows [OF assms(1,2)] assms(3)
  by (auto simp: app_stream.mail_for_def chanCap_def mailboxes_of_def live_token_def split: if_splits)

lemma stays_open:
  "list_all (\<lambda>(wake, ms). wake \<noteq> WakeDone) script \<Longrightarrow>
   \<exists>fs w'. stream_loop H ch (broadcast_rounds H script) w = (fs, True, w')"
proof (induction script arbitrary: w)
  case Nil
  then show ?case by (simp add: broadcast_rounds_def)
next
  case (Cons x script)
  obtain wake ms where x: "x = (wake, ms)" by (cases x) auto
  let ?others = "fold (\<lambda>(v, n). hb_Broadcast H v n) ms"
  have IH: "\<exists>fs w'. stream_loop H ch (broadcast_rounds H script) v = (fs, True, w')" for v
    using Cons by simp
  have step: "broadcast_rounds H (x # script) = (wake, True, ?others) # broadcast_rounds H script"
    by (simp add: broadcast_rounds_def x)
  show ?case
  proof (cases wake)
    case WakeChan
    show ?thesis
    proof (cases "hb_receive H ch (?others (store w))")
      case None
      then show ?thesis unfolding step WakeChan using IH by simp
    next
      case (Some nd)
      obtain n d where "nd = (n, d)" by (cases nd)
      then show ?thesis unfolding step WakeChan using Some IH [of "set_deadline (w\<lparr>store := d\<rparr>)"] by (auto simp: Let_def)
    qed
  next
    case WakeTicker
    show ?thesis unfolding step WakeTicker using IH [of "set_deadline (w\<lparr>store := ?others (store w)\<rparr>)"] by (auto simp: Let_def)
  next
    case WakeDone
    then show ?thesis using Cons.prems by (simp add: x)
  qed
qed

theorem stream_shows_broadcasts_witness:
  "\<exists>fs w'. sample_open
       (broadcast_rounds app_hub [(WakeChan, [(''u'', sample_note), (''v'', sample_note)]), (WakeTicker, [(''u'', sample_note)])]) = (Streaming ''u'' 0 fs True, w') \<and>
     notifications_in fs @ chan_buf (hub (store w')) 0 = [sample_note, sample_note]"
proof -
  let ?script = "[(WakeChan, [(''u'', sample_note), (''v'', sample_note)]), (WakeTicker, [(''u'', sample_note)])]"
  obtain w2 where w2: "sample_open (broadcast_rounds app_hub ?script) =
      (let (fs, still_open, w3) = stream_loop app_hub 0 (broadcast_rounds app_hub ?script) w2
       in (Streaming ''u'' 0 (Connected # fs) still_open, if still_open then w3 else close_stream app_hub ''u'' 0 w3))"
    using sample_stream by blast
  obtain fs w' where "stream_loop app_hub 0 (broadcast_rounds app_hub ?script) w2 = (fs, True, w')"
    using stays_open [of ?script app_hub 0 w2] by auto
  with w2 have run: "sample_open (broadcast_rounds app_hub ?script) = (Streaming ''u'' 0 (Connected # fs) True, w')" by simp
  have "hub_ok (hub (store (sample_world app_with_token)))" by (simp add: app_with_token_def hub_ok_NewHub)
  from stream_shows_broadcasts [OF run this] run show ?thesis by (simp add: broadcasts_of_def)
qed

section \<open>One-time tokens\<close>

text \<open>
  C16: in any sequence of calls of the token store, a token that was not in the store at the
  start is accepted at most as often as it was handed out: once, when identifiers do not repeat.
\<close>

theorem token_accepted_once:
  assumes "run_tokens (go_tokens L) ops w = (es, w')" and "tokens (store w) tok = None"
  shows "accepts tok es \<le> issues tok es"
  using go_tokens_laws.accepted_once [OF assms(1), of tok] assms(2) by (simp add: live_token_def)

abbreviation sample_token_text :: string where
  "sample_token_text \<equiv> uuid_String sample_externals 100"

lemma sample_Issue:
  "Issue sample_externals ''u'' (sample_world empty_app) =
    (sample_token_text, (sample_world (empty_app\<lparr>tokens := [sample_token_text \<mapsto> \<lparr> te_userID = ''u'', te_expiresAt = 30 * Second \<rparr>]\<rparr>))\<lparr>gen_pos := 1\<rparr>)"
  by (simp add: Issue_def uuid_New_def tokenTTL_sse_def time_Now_def sample_world_def empty_app_def Let_def)

theorem token_accepted_once_witness:
  "\<exists>es w'. run_tokens (go_tokens sample_externals) [OpIssue ''u'', OpConsume sample_token_text, OpConsume sample_token_text]
       (sample_world empty_app) = (es, w') \<and> issues sample_token_text es = 1 \<and> accepts sample_token_text es \<le> 1"
proof -
  obtain es w' where run: "run_tokens (go_tokens sample_externals) [OpIssue ''u'', OpConsume sample_token_text, OpConsume sample_token_text]
      (sample_world empty_app) = (es, w')" by (metis surj_pair)
  then have "issues sample_token_text es = 1"
    by (auto simp: sample_Issue split: prod.splits option.splits)
  with token_accepted_once [OF run, of sample_token_text] run show ?thesis by auto
qed

text \<open>
  A token that was handed out and not presented since is accepted, as its user, until
  thirty seconds have passed, and refused from then on, whatever is done with other tokens and
  however often the store is swept.
\<close>

theorem token_lasts_thirty_seconds:
  assumes "Issue L u w = (tok, w1)" and "run_tokens (go_tokens L) ops w1 = (es, w2)" and "leaves tok es"
  shows "fst (Consume tok w2) = (if fst (time_Now w2) \<le> clock w1 + 30 * Second then Some u else None)"
  using go_tokens_laws.accepted_in_time [of L u w tok w1 ops es w2 "fst (Consume tok w2)" "snd (Consume tok w2)"] assms
  by (simp add: tokenTTL_sse_def)

theorem token_lasts_thirty_seconds_witness:
  "\<exists>w2. fst (Consume sample_token_text w2) = Some ''u'' \<and>
     run_tokens (go_tokens sample_externals) [OpIssue ''u'', OpSweep] (sample_world empty_app) = ([Issued sample_token_text ''u'', Swept], w2)"
proof -
  let ?w1 = "(sample_world (empty_app\<lparr>tokens := [sample_token_text \<mapsto> \<lparr> te_userID = ''u'', te_expiresAt = 30 * Second \<rparr>]\<rparr>))\<lparr>gen_pos := 1\<rparr>"
  have run: "run_tokens (go_tokens sample_externals) [OpSweep] ?w1 = ([Swept], cleanup_tick ?w1)" by simp
  have "fst (time_Now (cleanup_tick ?w1)) \<le> clock ?w1 + 30 * Second"
    by (simp add: cleanup_tick_def time_Now_def sample_world_def Let_def)
  with token_lasts_thirty_seconds [OF sample_Issue run]
  have "fst (Consume sample_token_text (cleanup_tick ?w1)) = Some ''u''" by (simp add: leaves_def)
  then show ?thesis by (intro exI [of _ "cleanup_tick ?w1"]) (simp add: sample_Issue)
qed

section \<open>Requests\<close>

text \<open>
  C9: a request that is answered changes at most the read flags of notifications of the user
  of its token, which was valid at some instant since the request began; it lists only
  notifications of that user; and without a valid token it changes no notification and no
  channel and is refused or answered without a body.
\<close>

theorem requests_touch_own_notifications:
  assumes "pgx_text_ok L pgx"
  shows "case notif_app chi_Find L pgx secret db_text c rounds r w of
      (Some (Answered resp), w') \<Rightarrow>
        (\<exists>u role. \<exists>now \<ge> clock w. identity L secret r now = Some (u, role) \<and> reads_own L u w (Some resp) w') \<or>
        notifications (store w') = notifications (store w) \<and> hub (store w') = hub (store w) \<and>
        (400 \<le> rs_Status resp \<or> rs_Body resp = NEmpty)
    | _ \<Rightarrow> True"
  using request_own [OF _ assms] by (auto split: prod.split option.split stream_result.split)

theorem requests_touch_own_notifications_witness:
  "\<forall>chi_Find secret db_text c rounds. case notif_app chi_Find sample_externals sample_pgx secret db_text c rounds stream_request (sample_world app_with_row) of
      (Some (Answered resp), w') \<Rightarrow> notifications (store w') = [sample_row] \<and> (400 \<le> rs_Status resp \<or> rs_Body resp = NEmpty)
    | _ \<Rightarrow> True"
proof (intro allI)
  fix chi_Find secret db_text c rounds
  have "identity sample_externals secret stream_request now = None" for now
    by (simp add: identity_def notif_bearer_def stream_request_def)
  then show "case notif_app chi_Find sample_externals sample_pgx secret db_text c rounds stream_request (sample_world app_with_row) of
      (Some (Answered resp), w') \<Rightarrow> notifications (store w') = [sample_row] \<and> (400 \<le> rs_Status resp \<or> rs_Body resp = NEmpty)
    | _ \<Rightarrow> True"
    using requests_touch_own_notifications [OF sample_pgx_text_ok, where chi_Find = chi_Find and secret = secret and
        db_text = db_text and c = c and rounds = rounds and r = stream_request and w = "sample_world app_with_row"]
    by (simp split: prod.splits option.splits stream_result.splits)
qed

text \<open>
  C38: when the database answers, marking a notification as read decides by its identifier and
  owner: it sets the flag of the caller's own notification, tells the caller of somebody else's
  or of a missing one the same, and an identifier that is not one is an error of the database.
\<close>

theorem mark_as_read_decides:
  assumes "calm w" and "table_ok (notifications (store w))" and "pgx userID = Some u"
  shows "MarkAsRead (pg_notif_deps L pgx) nid userID w =
    (case Option.bind (pgx nid) (\<lambda>i. find_by nr_id i (notifications (store w))) of
       Some row \<Rightarrow>
         if nr_user_id row = u
         then (Inr (), w\<lparr>store := (store w)\<lparr>notifications :=
                 update_where (\<lambda>r. nr_id r = nr_id row) set_read (notifications (store w))\<rparr>\<rparr>)
         else (Inl (Wrap ''mark as read'' (Sentinel ErrNotificationNotFound)), w)
     | None \<Rightarrow>
         (Inl (Wrap ''mark as read''
            (if pgx nid = None then DbError (ConnError ''unable to encode into uuid'') else Sentinel ErrNotificationNotFound)), w))"
  using mark_as_read_cases [of w pgx userID u L nid] assms find_by_Some [of nr_id _ "notifications (store w)"] by (auto split: option.split)

theorem mark_as_read_decides_witness:
  "MarkAsRead (pg_notif_deps sample_externals sample_pgx) (sample_uuid_String 5) (sample_uuid_String 2) (sample_world app_with_row) =
     (Inr (), sample_world (empty_app\<lparr>notifications := [set_read sample_row]\<rparr>)) \<and>
   MarkAsRead (pg_notif_deps sample_externals sample_pgx) (sample_uuid_String 5) (sample_uuid_String 3) (sample_world app_with_row) =
     (Inl (Wrap ''mark as read'' (Sentinel ErrNotificationNotFound)), sample_world app_with_row)"
proof -
  have ok: "table_ok (notifications (store (sample_world app_with_row)))"
    by (simp add: table_ok_def row_checks_def sample_row_def)
  show ?thesis
    using mark_as_read_decides [OF calm_sample_world ok, of sample_pgx "sample_uuid_String 2" 2 sample_externals "sample_uuid_String 5"]
      mark_as_read_decides [OF calm_sample_world ok, of sample_pgx "sample_uuid_String 3" 3 sample_externals "sample_uuid_String 5"]
    by (simp add: find_by_def update_where_def app_with_row_def sample_world_def)
qed

section \<open>The consumer\<close>

text \<open>
  C39: while the database of the notification service answers, nothing is passed over: after any
  lives of the consumer, with any errors of Kafka, restarts, crashes and redeliveries, each
  message before its position, and so each that was committed, that says an event which the table
  can hold has exactly one notification of its booking and type.
\<close>

theorem passed_messages_are_stored:
  assumes "consumer_lives (app_handler L pgx) lives (at_start log) w = (k', w')" "lives_polite lives"
    and "notifications (store w) = []" "calm w" "inj_on (gen w) {gen_pos w ..< gen_pos w'}" and "pgx_text_ok L pgx"
  shows "rd_committed k' \<le> rd_pos k' \<and> rd_pos k' \<le> length log \<and>
    (\<forall>i < rd_pos k'. \<forall>e. decode_event (log ! i) = Some e \<and> storable_event pgx e \<longrightarrow>
       length (filter (\<lambda>row. event_key row = key_of pgx e) (notifications (store w'))) = 1)"
proof -
  have inv: "delivery_inv (gen_pos w') pgx log k' w'" by (rule delivery_after_lives [OF assms])
  have "distinct (map event_key (notifications (store w')))"
    using inbox_after_lives [OF assms(1-3)] by (simp add: inbox_ok_def table_ok_def)
  then have "has_notification pgx e w' \<Longrightarrow>
      length (filter (\<lambda>row. event_key row = key_of pgx e) (notifications (store w'))) = 1" for e
    by (subst count_of_key) (simp_all add: has_notification_def)
  with inv show ?thesis by (auto simp: delivery_inv_def passed_stored_def reader_ok_def)
qed

theorem passed_messages_are_stored_witness:
  "\<exists>k' w'. consumer_lives (app_handler sample_externals sample_pgx) (calm_life 2)
       (at_start (None # map (wire sample_json_time) [row_message created_row])) (sample_world empty_app) = (k', w') \<and>
     rd_pos k' = 2 \<and> length (notified 100 ''booking.created'' (notifications (store w'))) = 1"
proof -
  let ?log = "None # map (wire sample_json_time) [row_message created_row]"
  obtain k' w' where l: "consumer_lives (app_handler sample_externals sample_pgx) (calm_life 2) (at_start ?log)
      (sample_world empty_app) = (k', w')" "rd_pos k' = 2"
    by (rule calm_life_passes [of 2 ?log "app_handler sample_externals sample_pgx" "sample_world empty_app"]) simp
  then obtain e0 where "Run_consumer (app_handler sample_externals sample_pgx) (good_rounds (replicate 2 (\<lambda>d. d))) (at_start ?log)
      (sample_world empty_app) = (e0, k', w')"
    by (auto simp: calm_life_def reassigned_def at_start_def split: prod.splits run_end.splits)
  from Run_consumer_gen [OF this] have "gen_pos w' \<le> 2" by simp
  then have "inj_on (gen (sample_world empty_app)) {gen_pos (sample_world empty_app) ..< gen_pos w'}"
    using sample_gen_inj [of "gen_pos w'" empty_app] by simp
  from passed_messages_are_stored [OF l(1) calm_life_polite _ calm_sample_world this sample_pgx_text_ok]
  have stored: "\<forall>i < rd_pos k'. \<forall>e. decode_event (?log ! i) = Some e \<and> storable_event sample_pgx e \<longrightarrow>
      length (filter (\<lambda>row. event_key row = key_of sample_pgx e) (notifications (store w'))) = 1" by simp
  have "created_row \<in> set (outbox db_booked)" by (simp add: db_booked_def)
  then obtain e where "decode_event (?log ! 1) = Some e" "storable_event sample_pgx e" "key_of sample_pgx e = (100, ''booking.created'')"
  proof (rule row_event [OF reachable_db_booked sample_uuid_text_ok db_booked_times sample_json_ok], goal_cases)
    case (1 b s r)
    then show thesis
      by (intro 1(1) [of "event_for sample_externals created_row b r s"])
        (auto simp: storable_event_def event_for_def key_of_def notif_type_known db_booked_def)
  qed
  with stored [rule_format, of 1 e] l show ?thesis by (intro exI [of _ k'] exI [of _ w']) (simp add: notified_def)
qed

section \<open>Agreement of the services\<close>

text \<open>
  The two services read tokens alike: the same key functions, the same user and role or
  a refusal in both; and a header from which the notification service takes a token gives the
  booking service the same token.
\<close>

theorem services_agree_on_tokens:
  "notif_key secret = hmac_key secret \<and>
   map_sum (\<lambda>_. ()) (\<lambda>x. x) (fst (notif_ParseToken L tok secret w)) = map_sum (\<lambda>_. ()) (\<lambda>x. x) (fst (ParseToken L tok secret w)) \<and>
   notif_bearer h \<in> {None, bearer_token h}"
  using parsers_agree [of L tok secret w] bearer_of_notif [of h]
  by (cases "notif_bearer h") (simp_all add: key_functions_agree)

section \<open>Settings\<close>

text \<open>
  C40: whatever the user name and the password are, the connection strings of the booking
  service are read back as that user and that password: nothing in them is taken for a part of
  the URL.
\<close>

theorem connection_strings_roundtrip:
  "\<exists>rest rest'. booking_DSN c = ''postgres://'' @ rest \<and> booking_MigrateDSN c = ''pgx5://'' @ rest' \<and>
     read_userinfo rest = Some (bc_DBUser c, bc_DBPassword c) \<and> read_userinfo rest' = Some (bc_DBUser c, bc_DBPassword c)"
  using read_userinfo_back [of "bc_DBUser c" "bc_DBPassword c"] 
  by (simp add: booking_DSN_def booking_MigrateDSN_def dsn_parts)

end
