(* ===== verification/JsonText.thy ===== *)
theory JsonText
  imports Http
begin

text \<open>
  The texts that \<open>json.Marshal\<close> of \<open>encoding/json\<close> writes for strings and for structs of strings
  and booleans, byte by byte, and a reader of such texts.  A string is written as UTF-8 with
  everything escaped that could end the string, the line or a script; a byte that is not part of
  a valid sequence becomes the replacement character.
\<close>

section \<open>UTF-8\<close>

definition byte :: "char \<Rightarrow> nat" where "byte c = of_char c"

definition continuation :: "char \<Rightarrow> bool" where
  "continuation c \<longleftrightarrow> 128 \<le> byte c \<and> byte c < 192"

text \<open>\<open>utf8.DecodeRuneInString\<close>: the length of the sequence a string begins with, 0 if it is not valid.\<close>

definition rune_len :: "string \<Rightarrow> nat" where
  "rune_len s = (case s of [] \<Rightarrow> 0 | a # s1 \<Rightarrow>
     (let x = byte a
      in if x < 128 then 1
         else if 194 \<le> x \<and> x \<le> 223 then
           (case s1 of b # _ \<Rightarrow> if continuation b then 2 else 0 | _ \<Rightarrow> 0)
         else if 224 \<le> x \<and> x \<le> 239 then
           (case s1 of b # c # _ \<Rightarrow>
              if continuation b \<and> continuation c \<and> (x = 224 \<longrightarrow> 160 \<le> byte b) \<and> (x = 237 \<longrightarrow> byte b < 160)
              then 3 else 0
            | _ \<Rightarrow> 0)
         else if 240 \<le> x \<and> x \<le> 244 then
           (case s1 of b # c # d # _ \<Rightarrow>
              if continuation b \<and> continuation c \<and> continuation d \<and> (x = 240 \<longrightarrow> 144 \<le> byte b) \<and> (x = 244 \<longrightarrow> byte b < 144)
              then 4 else 0
            | _ \<Rightarrow> 0)
         else 0))"

fun valid_utf8 :: "string \<Rightarrow> bool" where
  "valid_utf8 [] \<longleftrightarrow> True"
| "valid_utf8 (c # cs) \<longleftrightarrow> rune_len (c # cs) \<noteq> 0 \<and> valid_utf8 (drop (rune_len (c # cs) - 1) cs)"

definition utf8_encode :: "nat \<Rightarrow> string" where
  "utf8_encode n =
    (if n < 128 then [char_of n]
     else if n < 2048 then [char_of (192 + n div 64), char_of (128 + n mod 64)]
     else [char_of (224 + n div 4096), char_of (128 + n div 64 mod 64), char_of (128 + n mod 64)])"

lemma byte_char [simp]: "char_of (byte c) = c"
  by (simp add: byte_def)

text \<open>The bytes of the characters that have a meaning here.\<close>

lemma byte_literals [simp]:
  "byte (CHR 0x22) = 34" "byte (CHR 0x5C) = 92" "byte (CHR ''u'') = 117" "byte (CHR ''0'') = 48"
  "byte (CHR ''b'') = 98" "byte (CHR ''f'') = 102" "byte (CHR ''n'') = 110" "byte (CHR ''r'') = 114"
  "byte (CHR ''t'') = 116" "byte (CHR ''d'') = 100" "byte (CHR ''2'') = 50" "byte (CHR ''8'') = 56" "byte (CHR ''9'') = 57"
  "byte (CHR 0xE2) = 226" "byte (CHR 0x80) = 128" "byte (CHR 0xA8) = 168" "byte (CHR 0xA9) = 169"
  by (simp_all add: byte_def)

lemma char_literals [simp]:
  "char_of (226::nat) = CHR 0xE2" "char_of (128::nat) = CHR 0x80" "char_of (168::nat) = CHR 0xA8" "char_of (169::nat) = CHR 0xA9"
  by code_simp+

lemma rune_len_ascii: "byte c < 128 \<Longrightarrow> rune_len (c # cs) = 1"
  by (simp add: rune_len_def)

text \<open>The bytes of a longer sequence are none of those that have a meaning in JSON.\<close>

lemma rune_bytes:
  assumes "\<not> byte c < 128" and "x \<in> set (take (rune_len (c # cs)) (c # cs))"
  shows "128 \<le> byte x"
  using assms by (auto simp: rune_len_def Let_def continuation_def split: list.splits if_splits)

section \<open>Strings\<close>

definition hexlow :: "nat \<Rightarrow> char" where
  "hexlow d = (if d < 10 then char_of (48 + d) else char_of (87 + d))"

definition escape_ascii :: "char \<Rightarrow> string" where
  "escape_ascii c =
    (if c = CHR 0x5C \<or> c = CHR 0x22 then [CHR 0x5C, c]
     else if c = CHR 0x08 then [CHR 0x5C, CHR ''b'']
     else if c = CHR 0x0C then [CHR 0x5C, CHR ''f'']
     else if c = CHR 0x0A then [CHR 0x5C, CHR ''n'']
     else if c = CHR 0x0D then [CHR 0x5C, CHR ''r'']
     else if c = CHR 0x09 then [CHR 0x5C, CHR ''t'']
     else if byte c < 32 \<or> c \<in> set ''<>&''
       then [CHR 0x5C, CHR ''u'', CHR ''0'', CHR ''0'', hexlow (byte c div 16), hexlow (byte c mod 16)]
     else [c])"

definition line_separator :: string where "line_separator = [CHR 0xE2, CHR 0x80, CHR 0xA8]"
definition paragraph_separator :: string where "paragraph_separator = [CHR 0xE2, CHR 0x80, CHR 0xA9]"

fun json_escape :: "string \<Rightarrow> string" where
  "json_escape [] = []"
| "json_escape (c # cs) =
    (if byte c < 128 then escape_ascii c @ json_escape cs
     else if rune_len (c # cs) = 0 then [CHR 0x5C] @ ''ufffd'' @ json_escape cs
     else (if take 3 (c # cs) = line_separator then [CHR 0x5C] @ ''u2028''
           else if take 3 (c # cs) = paragraph_separator then [CHR 0x5C] @ ''u2029''
           else take (rune_len (c # cs)) (c # cs)) @ json_escape (drop (rune_len (c # cs) - 1) cs))"

definition quoted :: "string \<Rightarrow> string" where
  "quoted s = [CHR 0x22] @ json_escape s @ [CHR 0x22]"

text \<open>No byte of the text is a control byte, whatever the string.\<close>

definition printable :: "string \<Rightarrow> bool" where
  "printable s \<longleftrightarrow> (\<forall>c \<in> set s. 32 \<le> byte c)"

lemma printable_simps [simp]:
  "printable []" "printable (c # s) \<longleftrightarrow> 32 \<le> byte c \<and> printable s" "printable (s @ t) \<longleftrightarrow> printable s \<and> printable t"
  by (auto simp: printable_def)

lemma byte_hexlow: "d < 16 \<Longrightarrow> byte (hexlow d) = (if d < 10 then 48 + d else 87 + d)"
  by (simp add: hexlow_def byte_def)

lemma byte_ascii_bound: "byte c < 256"
  by (simp add: byte_def)

lemma printable_escape_ascii: "printable (escape_ascii c)"
proof -
  have d: "byte c div 16 < 16" "byte c mod 16 < 16" using byte_ascii_bound [of c] by simp_all
  show ?thesis by (simp add: escape_ascii_def byte_hexlow [OF d(1)] byte_hexlow [OF d(2)])
qed

lemma printable_json_escape: "printable (json_escape s)"
proof (induction s rule: json_escape.induct)
  case (2 c cs)
  have "printable (take (rune_len (c # cs)) (c # cs))" if "\<not> byte c < 128"
    using rune_bytes [OF that, of _ cs] by (fastforce simp: printable_def)
  then show ?case
    using 2 printable_escape_ascii [of c] by simp
qed simp

lemma printable_quoted: "printable (quoted s)"
  by (simp add: quoted_def printable_json_escape)

section \<open>Reading strings\<close>

definition hex_digit :: "char \<Rightarrow> nat option" where
  "hex_digit c = (let n = byte c in
     if 48 \<le> n \<and> n \<le> 57 then Some (n - 48)
     else if 97 \<le> n \<and> n \<le> 102 then Some (n - 87)
     else if 65 \<le> n \<and> n \<le> 70 then Some (n - 55) else None)"

definition hex4 :: "string \<Rightarrow> nat option" where
  "hex4 s = (case map hex_digit s of
      [Some a, Some b, Some c, Some d] \<Rightarrow> Some (((a * 16 + b) * 16 + c) * 16 + d)
    | _ \<Rightarrow> None)"

definition simple_escape :: "char \<Rightarrow> char option" where
  "simple_escape c = map_of
     [(CHR 0x22, CHR 0x22), (CHR 0x5C, CHR 0x5C), (CHR ''/'', CHR ''/''), (CHR ''b'', CHR 0x08), (CHR ''f'', CHR 0x0C),
      (CHR ''n'', CHR 0x0A), (CHR ''r'', CHR 0x0D), (CHR ''t'', CHR 0x09)] c"

definition prepend :: "string \<Rightarrow> (string \<times> string) option \<Rightarrow> (string \<times> string) option" where
  "prepend p x = map_option (\<lambda>(s, r). (p @ s, r)) x"

text \<open>
  The rest of a string literal after its opening quote, and what follows it.  Escaped surrogates
  are not joined; the writer never makes them.
\<close>

fun read_str :: "string \<Rightarrow> (string \<times> string) option" where
  "read_str [] = None"
| "read_str (c # cs) =
    (if c = CHR 0x22 then Some ([], cs)
     else if c = CHR 0x5C then
       (case cs of
          [] \<Rightarrow> None
        | e # r \<Rightarrow>
            if e = CHR ''u''
            then (case hex4 (take 4 r) of None \<Rightarrow> None | Some n \<Rightarrow> prepend (utf8_encode n) (read_str (drop 4 r)))
            else (case simple_escape e of None \<Rightarrow> None | Some d \<Rightarrow> prepend [d] (read_str r)))
     else if byte c < 32 then None
     else prepend [c] (read_str cs))"

lemma prepend_prepend [simp]: "prepend p (prepend q x) = prepend (p @ q) x"
  by (cases x) (auto simp: prepend_def)

lemma prepend_Some [simp]: "prepend p (Some (s, r)) = Some (p @ s, r)"
  by (simp add: prepend_def)

lemma hex_digit_hexlow: "d < 16 \<Longrightarrow> hex_digit (hexlow d) = Some d"
  by (simp add: hex_digit_def byte_hexlow Let_def)

lemma read_plain:
  "c \<noteq> CHR 0x22 \<Longrightarrow> c \<noteq> CHR 0x5C \<Longrightarrow> 32 \<le> byte c \<Longrightarrow> read_str (c # t) = prepend [c] (read_str t)"
  by simp

lemma read_escape_ascii:
  assumes "byte c < 128"
  shows "read_str (escape_ascii c @ t) = prepend [c] (read_str t)"
proof -
  have d: "byte c div 16 < 16" "byte c mod 16 < 16" using assms by simp_all
  have "hex4 [CHR ''0'', CHR ''0'', hexlow (byte c div 16), hexlow (byte c mod 16)] = Some (byte c)"
    using hex_digit_hexlow [OF d(1)] hex_digit_hexlow [OF d(2)] by (simp add: hex4_def hex_digit_def)
  moreover have "utf8_encode (byte c) = [c]" using assms by (simp add: utf8_encode_def)
  ultimately show ?thesis
    by (auto simp: escape_ascii_def simple_escape_def)
qed

lemma read_high_bytes:
  "\<forall>c \<in> set p. 128 \<le> byte c \<Longrightarrow> read_str (p @ t) = prepend p (read_str t)"
proof (induction p)
  case Nil
  then show ?case by (cases "read_str t") (auto simp: prepend_def)
next
  case (Cons c p)
  then have "c \<noteq> CHR 0x22" "c \<noteq> CHR 0x5C" "32 \<le> byte c" by (auto simp: byte_def)
  then show ?case using Cons by (simp add: read_plain)
qed

lemma read_separators:
  "read_str ([CHR 0x5C] @ ''u2028'' @ t) = prepend line_separator (read_str t)"
  "read_str ([CHR 0x5C] @ ''u2029'' @ t) = prepend paragraph_separator (read_str t)"
  by (simp_all add: hex4_def hex_digit_def utf8_encode_def line_separator_def paragraph_separator_def)

lemma separator_len:
  "take 3 (c # cs) = line_separator \<Longrightarrow> rune_len (c # cs) = 3"
  "take 3 (c # cs) = paragraph_separator \<Longrightarrow> rune_len (c # cs) = 3"
  by (auto simp: line_separator_def paragraph_separator_def rune_len_def byte_def continuation_def take_Cons'
      split: list.splits if_splits)

text \<open>The round trip of a string.\<close>

lemma read_json_escape:
  "valid_utf8 s \<Longrightarrow> read_str (json_escape s @ [CHR 0x22] @ r) = Some (s, r)"
proof (induction s rule: json_escape.induct)
  case (2 c cs)
  show ?case
  proof (cases "byte c < 128")
    case True
    then show ?thesis using 2 by (simp add: rune_len_ascii read_escape_ascii)
  next
    case False
    let ?n = "rune_len (c # cs)"
    from 2 have n: "?n \<noteq> 0" and v: "valid_utf8 (drop (?n - 1) cs)" by auto
    have ih: "read_str (json_escape (drop (?n - 1) cs) @ [CHR 0x22] @ r) = Some (drop (?n - 1) cs, r)"
      by (rule "2.IH"(3) [OF False n v])
    have split: "take ?n (c # cs) @ drop (?n - 1) cs = c # cs"
      using n by (cases ?n) simp_all
    have high: "\<forall>x \<in> set (take ?n (c # cs)). 128 \<le> byte x" using rune_bytes [OF False] by blast
    let ?t = "json_escape (drop (?n - 1) cs) @ [CHR 0x22] @ r"
    consider (ls) "take 3 (c # cs) = line_separator" | (ps) "take 3 (c # cs) = paragraph_separator"
        "take 3 (c # cs) \<noteq> line_separator"
      | (other) "take 3 (c # cs) \<noteq> line_separator" "take 3 (c # cs) \<noteq> paragraph_separator" by blast
    then show ?thesis
    proof cases
      case ls
      have "line_separator @ drop (?n - 1) cs = c # cs"
        using split ls separator_len(1) [OF ls] by metis
      then have "read_str (([CHR 0x5C] @ ''u2028'') @ ?t) = Some (c # cs, r)"
        using ih read_separators(1) [of ?t] by (simp del: read_str.simps)
      then show ?thesis using False n ls by simp
    next
      case ps
      have "paragraph_separator @ drop (?n - 1) cs = c # cs"
        using split ps separator_len(2) [OF ps(1)] by metis
      then have "read_str (([CHR 0x5C] @ ''u2029'') @ ?t) = Some (c # cs, r)"
        using ih read_separators(2) [of ?t] by (simp del: read_str.simps)
      then show ?thesis using False n ps by simp
    next
      case other
      have "read_str (take ?n (c # cs) @ ?t) = Some (c # cs, r)"
        using split ih read_high_bytes [OF high, of ?t] by (simp del: read_str.simps)
      then show ?thesis using False n other by (simp del: read_str.simps)
    qed
  qed
qed simp

section \<open>Structs\<close>

text \<open>A struct is written with its fields in their order, under the names of their tags.\<close>

fun members_text :: "(string \<times> string) list \<Rightarrow> string" where
  "members_text [] = []"
| "members_text [(k, v)] = quoted k @ '':'' @ v"
| "members_text ((k, v) # m # ms) = quoted k @ '':'' @ v @ '','' @ members_text (m # ms)"

definition object_text :: "(string \<times> string) list \<Rightarrow> string" where
  "object_text ms = ''{'' @ members_text ms @ ''}''"

definition bool_text :: "bool \<Rightarrow> string" where
  "bool_text b = (if b then ''true'' else ''false'')"

text \<open>The reader of such texts; a number bounds the members.\<close>

definition read_value :: "string \<Rightarrow> (jvalue \<times> string) option" where
  "read_value s =
    (if HasPrefix s [CHR 0x22] then map_option (\<lambda>(t, r). (JvText t, r)) (read_str (drop 1 s))
     else if HasPrefix s ''true'' then Some (JvBool True, drop 4 s)
     else if HasPrefix s ''false'' then Some (JvBool False, drop 5 s)
     else None)"

fun read_members :: "nat \<Rightarrow> string \<Rightarrow> (string \<times> jvalue) list option" where
  "read_members 0 s = None"
| "read_members (Suc n) s =
    (if \<not> HasPrefix s [CHR 0x22] then None
     else Option.bind (read_str (drop 1 s)) (\<lambda>(k, s1).
       if \<not> HasPrefix s1 '':'' then None
       else Option.bind (read_value (drop 1 s1)) (\<lambda>(v, s2).
         if s2 = ''}'' then Some [(k, v)]
         else if HasPrefix s2 '','' then map_option ((#) (k, v)) (read_members n (drop 1 s2))
         else None)))"

definition read_object :: "string \<Rightarrow> jvalue option" where
  "read_object s = (if HasPrefix s ''{'' then map_option JvObject (read_members (length s) (drop 1 s)) else None)"

definition reads_as :: "string \<Rightarrow> jvalue \<Rightarrow> bool" where
  "reads_as t v \<longleftrightarrow> (\<forall>r. read_value (t @ r) = Some (v, r))"

lemma reads_quoted: "valid_utf8 s \<Longrightarrow> reads_as (quoted s) (JvText s)"
  using read_json_escape [of s] by (simp add: reads_as_def read_value_def quoted_def HasPrefix_def)

lemma reads_bool: "reads_as (bool_text b) (JvBool b)"
  by (simp add: reads_as_def read_value_def bool_text_def HasPrefix_def)

lemma read_member:
  assumes "valid_utf8 k" and "reads_as t v"
  shows "read_members (Suc n) (quoted k @ '':'' @ t @ s2) =
    (if s2 = ''}'' then Some [(k, v)]
     else if HasPrefix s2 '','' then map_option ((#) (k, v)) (read_members n (drop 1 s2)) else None)"
proof -
  have "read_str (json_escape k @ [CHR 0x22] @ '':'' @ t @ s2) = Some (k, '':'' @ t @ s2)"
    by (rule read_json_escape [OF assms(1)])
  moreover have "read_value (t @ s2) = Some (v, s2)" using assms(2) by (simp add: reads_as_def)
  ultimately show ?thesis by (simp add: quoted_def HasPrefix_def)
qed

lemma read_members_text:
  "ms \<noteq> [] \<Longrightarrow> \<forall>(k, t, v) \<in> set ms. valid_utf8 k \<and> reads_as t v \<Longrightarrow> length ms \<le> n \<Longrightarrow>
   read_members n (members_text (map (\<lambda>(k, t, v). (k, t)) ms) @ ''}'') = Some (map (\<lambda>(k, t, v). (k, v)) ms)"
proof (induction ms arbitrary: n)
  case (Cons m ms)
  obtain k t v where m: "m = (k, t, v)" by (cases m) auto
  from Cons.prems obtain n' where n: "n = Suc n'" by (cases n) auto
  have kv: "valid_utf8 k" "reads_as t v" using Cons.prems m by auto
  show ?case
  proof (cases ms)
    case Nil
    then show ?thesis using read_member [OF kv, of n' "''}''"] by (simp add: m n)
  next
    case (Cons m' ms')
    have "read_members n' (members_text (map (\<lambda>(k, t, v). (k, t)) ms) @ ''}'') = Some (map (\<lambda>(k, t, v). (k, v)) ms)"
      by (rule Cons.IH) (use Cons.prems Cons n in auto)
    moreover have "members_text (map (\<lambda>(k, t, v). (k, t)) (m # ms)) =
        quoted k @ '':'' @ t @ '','' @ members_text (map (\<lambda>(k, t, v). (k, t)) ms)"
      by (cases m') (simp add: Cons m)
    ultimately show ?thesis
      using read_member [OF kv, of n' "'','' @ members_text (map (\<lambda>(k, t, v). (k, t)) ms) @ ''}''"]
      by (simp add: n m HasPrefix_def)
  qed
qed simp

lemma length_members_text: "length ms \<le> length (members_text ms)"
  by (induction ms rule: members_text.induct) (simp_all add: quoted_def)

text \<open>The round trip of a struct.\<close>

lemma read_object_text:
  assumes "ms \<noteq> []" and "\<forall>(k, t, v) \<in> set ms. valid_utf8 k \<and> reads_as t v"
  shows "read_object (object_text (map (\<lambda>(k, t, v). (k, t)) ms)) = Some (JvObject (map (\<lambda>(k, t, v). (k, v)) ms))"
proof -
  have "length ms \<le> length (object_text (map (\<lambda>(k, t, v). (k, t)) ms))"
    using length_members_text [of "map (\<lambda>(k, t, v). (k, t)) ms"] by (simp add: object_text_def)
  from read_members_text [OF assms this] show ?thesis
    by (simp add: read_object_def object_text_def HasPrefix_def)
qed

lemma printable_members: "\<forall>(k, t) \<in> set ms. printable t \<Longrightarrow> printable (members_text ms)"
  by (induction ms rule: members_text.induct) (auto simp: printable_quoted byte_def)

lemma printable_object: "\<forall>(k, t) \<in> set ms. printable t \<Longrightarrow> printable (object_text ms)"
  by (simp add: object_text_def printable_members byte_def)

end
