(* ===== verification/Frames.thy ===== *)
theory Frames
  imports JsonText Events Stream
begin

text \<open>
  The bytes that \<open>notification-service/internal/http/handlers/sse.go\<close> writes for the frames of a
  stream: \<open>json.Marshal\<close> of a notification, with its times as \<open>time.Time.MarshalJSON\<close> prints
  them, inside the lines of the event stream.  The client is the reader that the HTML standard
  prescribes for event streams, with a JSON decoder for the struct.
\<close>

section \<open>Times\<close>

text \<open>
  A \<open>time.Time\<close> carries a location; what is printed depends on its offset from UTC in seconds.
  The layout is that of RFC 3339 with the fraction of a second, trailing zeros cut.
\<close>

definition fraction_text :: "int \<Rightarrow> string" where
  "fraction_text n =
    (if n = 0 then [] else ''.'' @ rev (dropWhile (\<lambda>c. c = CHR ''0'') (rev (pad_digits 9 n))))"

definition zone_minutes :: "int \<Rightarrow> int" where
  "zone_minutes offset = \<bar>offset\<bar> div 60"

definition zone_text :: "int \<Rightarrow> string" where
  "zone_text offset =
    (if offset = 0 then ''Z''
     else (if offset \<le> -60 then ''-'' else ''+'') @ pad_digits 2 (zone_minutes offset div 60) @ '':'' @
       pad_digits 2 (zone_minutes offset mod 60))"

definition Format_RFC3339Nano :: "int \<Rightarrow> time \<Rightarrow> string" where
  "Format_RFC3339Nano offset t =
    (let u = t + offset * Second
     in Format_date u @ ''T'' @ pad_digits 2 (hour u) @ '':'' @ pad_digits 2 (minute u) @ '':'' @
        pad_digits 2 (second u) @ fraction_text (u mod Second) @ zone_text offset)"

text \<open>The errors: a year of more than four digits, and an offset of a day or more.\<close>

definition marshal_time :: "int \<Rightarrow> time \<Rightarrow> string option" where
  "marshal_time offset t =
    (let y = year (t + offset * Second)
     in if y < 0 \<or> 9999 < y \<or> 24 \<le> zone_minutes offset div 60 then None
        else Some ([CHR 0x22] @ Format_RFC3339Nano offset t @ [CHR 0x22]))"

section \<open>Notifications\<close>

text \<open>The offsets of the three times of a notification.\<close>

record offsets =
  of_SlotStart :: int
  of_SlotEnd :: int
  of_CreatedAt :: int

definition marshal_notification :: "offsets \<Rightarrow> Notification \<Rightarrow> string option" where
  "marshal_notification z n =
    Option.bind (marshal_time (of_SlotStart z) (nf_SlotStart n)) (\<lambda>slot_start.
    Option.bind (marshal_time (of_SlotEnd z) (nf_SlotEnd n)) (\<lambda>slot_end.
    Option.bind (marshal_time (of_CreatedAt z) (nf_CreatedAt n)) (\<lambda>created_at.
      Some (object_text
        [(''id'', quoted (nf_ID n)), (''user_id'', quoted (nf_UserID n)), (''type'', quoted (nf_Type n)),
         (''booking_id'', quoted (nf_BookingID n)), (''room_name'', quoted (nf_RoomName n)),
         (''slot_start'', slot_start), (''slot_end'', slot_end), (''is_read'', bool_text (nf_IsRead n)),
         (''created_at'', created_at)]))))"

section \<open>Frames\<close>

definition LF :: char where "LF = CHR 0x0A"

fun frame_text :: "(Notification \<Rightarrow> offsets) \<Rightarrow> frame \<Rightarrow> string option" where
  "frame_text z Connected = Some (''event: connected'' @ [LF] @ ''data: {}'' @ [LF, LF])"
| "frame_text z (NotificationFrame n) =
     map_option (\<lambda>data. ''event: notification'' @ [LF] @ ''data: '' @ data @ [LF, LF]) (marshal_notification (z n) n)"
| "frame_text z Ping = Some ('': ping'' @ [LF, LF])"

fun stream_text :: "(Notification \<Rightarrow> offsets) \<Rightarrow> frame list \<Rightarrow> string option" where
  "stream_text z [] = Some []"
| "stream_text z (f # fs) = Option.bind (frame_text z f) (\<lambda>s. map_option ((@) s) (stream_text z fs))"

section \<open>The client\<close>

text \<open>Lines end with LF, with CR, or with both; what follows the last end is not yet a line.\<close>

fun sse_lines :: "string \<Rightarrow> string \<Rightarrow> string list" where
  "sse_lines acc [] = []"
| "sse_lines acc (c # s) =
    (if c = LF then acc # sse_lines [] s
     else if c = CHR 0x0D then acc # sse_lines [] (if HasPrefix s [LF] then tl s else s)
     else sse_lines (acc @ [c]) s)"

definition field_of :: "string \<Rightarrow> string \<times> string" where
  "field_of l =
    (let v = drop 1 (dropWhile (\<lambda>c. c \<noteq> CHR '':'') l)
     in (takeWhile (\<lambda>c. c \<noteq> CHR '':'') l, if HasPrefix v '' '' then drop 1 v else v))"

text \<open>The type and the data collected so far; a blank line dispatches them.\<close>

fun dispatch :: "string \<Rightarrow> string list \<Rightarrow> string list \<Rightarrow> (string \<times> string) list" where
  "dispatch ev data [] = []"
| "dispatch ev data (l # ls) =
    (if l = [] then
       (if data = [] then dispatch [] [] ls
        else (if ev = [] then ''message'' else ev, Join data LF) # dispatch [] [] ls)
     else if HasPrefix l '':'' then dispatch ev data ls
     else if fst (field_of l) = ''event'' then dispatch (snd (field_of l)) data ls
     else if fst (field_of l) = ''data'' then dispatch ev (data @ [snd (field_of l)]) ls
     else dispatch ev data ls)"

definition client_events :: "string \<Rightarrow> (string \<times> string) list" where
  "client_events s = dispatch [] [] (sse_lines [] s)"

text \<open>The decoder of the struct; the tags are those of \<open>internal/model/notification.go\<close>.\<close>

definition notification_fields :: "(string \<times> Notification field_decoder) list" where
  "notification_fields =
    [(''id'', into_string (\<lambda>v n. n\<lparr>nf_ID := v\<rparr>)), (''user_id'', into_string (\<lambda>v n. n\<lparr>nf_UserID := v\<rparr>)),
     (''type'', into_string (\<lambda>v n. n\<lparr>nf_Type := v\<rparr>)), (''booking_id'', into_string (\<lambda>v n. n\<lparr>nf_BookingID := v\<rparr>)),
     (''room_name'', into_string (\<lambda>v n. n\<lparr>nf_RoomName := v\<rparr>)), (''slot_start'', into_time (\<lambda>v n. n\<lparr>nf_SlotStart := v\<rparr>)),
     (''slot_end'', into_time (\<lambda>v n. n\<lparr>nf_SlotEnd := v\<rparr>)), (''is_read'', into_bool (\<lambda>v n. n\<lparr>nf_IsRead := v\<rparr>)),
     (''created_at'', into_time (\<lambda>v n. n\<lparr>nf_CreatedAt := v\<rparr>))]"

definition zero_notification :: Notification where
  "zero_notification = \<lparr> nf_ID = [], nf_UserID = [], nf_Type = [], nf_BookingID = [], nf_RoomName = [],
     nf_SlotStart = zero_time, nf_SlotEnd = zero_time, nf_IsRead = False, nf_CreatedAt = zero_time \<rparr>"

definition decode_notification :: "string \<Rightarrow> Notification option" where
  "decode_notification s = Option.bind (read_object s) (\<lambda>v. decode_struct notification_fields v zero_notification)"

section \<open>Times are read back\<close>

lemma zeros_stripped: "s = rev (dropWhile (\<lambda>c. c = z) (rev s)) @ replicate (length s - length (dropWhile (\<lambda>c. c = z) (rev s))) z"
proof -
  have "takeWhile (\<lambda>c. c = z) (rev s) = replicate (length (takeWhile (\<lambda>c. c = z) (rev s))) z"
    by (rule replicate_eqI) (auto dest: set_takeWhileD)
  moreover have "length (takeWhile (\<lambda>c. c = z) (rev s)) = length s - length (dropWhile (\<lambda>c. c = z) (rev s))"
    by (metis add_diff_cancel_right' length_append length_rev takeWhile_dropWhile_id)
  moreover have "s = rev (dropWhile (\<lambda>c. c = z) (rev s)) @ rev (takeWhile (\<lambda>c. c = z) (rev s))"
    by (metis rev_append rev_rev_ident takeWhile_dropWhile_id)
  ultimately show ?thesis by (metis rev_replicate)
qed

lemma parse_fraction_text:
  assumes n: "0 \<le> n" "n < 10 ^ 9" and z: "\<not> isDigit c" "c \<noteq> CHR ''.''"
  shows "parse_fraction (fraction_text n @ c # zs) = (n, c # zs)"
proof (cases "n = 0")
  case True
  then show ?thesis using z by (cases zs) (simp_all add: parse_fraction_def fraction_text_def)
next
  case False
  let ?p = "pad_digits 9 n"
  define st where "st = rev (dropWhile (\<lambda>c. c = CHR ''0'') (rev ?p))"
  define k where "k = 9 - length st"
  have p: "?p = st @ replicate k CHR ''0''"
    using zeros_stripped [of ?p "CHR ''0''"] by (simp add: st_def k_def)
  have len: "length st \<le> 9" by (metis p length_append length_pad_digits le_add1)
  have digits: "list_all isDigit st" using pad_digits_all [of 9 n] by (simp add: p)
  have "digits_value (replicate j CHR ''0'') = 0" for j
    by (induction j) (simp_all add: digits_value_def digit_val_def)
  then have "st \<noteq> []" using False digits_value_pad [OF n] p by force
  then obtain d ds where st: "st = d # ds" by (cases st) auto
  have "takeWhile isDigit (st @ c # zs) = st" "dropWhile isDigit (st @ c # zs) = c # zs"
    using digits z(1) by (simp_all add: takeWhile_append2 dropWhile_append2 list_all_iff)
  moreover have "take 9 (st @ replicate 9 CHR ''0'') = ?p"
    using len by (simp add: p k_def min_def)
  ultimately show ?thesis
    using False digits digits_value_pad [OF n]
    by (simp add: parse_fraction_def fraction_text_def flip: st_def) (simp add: st)
qed

lemma zone_text_first: "\<exists>c zs. zone_text offset = c # zs \<and> \<not> isDigit c \<and> c \<noteq> CHR ''.''"
  by (simp add: zone_text_def isDigit_def digit_val_def)

definition whole_minutes :: "int \<Rightarrow> bool" where
  "whole_minutes offset \<longleftrightarrow> offset mod 60 = 0"

lemma parse_zone_text:
  assumes "whole_minutes offset" and "zone_minutes offset div 60 < 24"
  shows "parse_zone (zone_text offset) = Some offset"
proof (cases "offset = 0")
  case True
  then show ?thesis by (simp add: parse_zone_def zone_text_def)
next
  case False
  define m where "m = zone_minutes offset"
  have abs: "\<bar>offset\<bar> = 60 * m"
    using assms(1) by (simp add: m_def zone_minutes_def whole_minutes_def mod_eq_0_iff_dvd)
  have m: "0 \<le> m" "m div 60 < 24" using assms(2) by (simp_all add: m_def zone_minutes_def pos_imp_zdiv_nonneg_iff)
  have g1: "getnum True (pad_digits 2 (m div 60) @ s) = Some (m div 60, s)" for s
    using m by (simp add: pos_imp_zdiv_nonneg_iff)
  have g2: "getnum True (pad_digits 2 (m mod 60)) = Some (m mod 60, [])"
    using getnum_pad [of "m mod 60" True "[]"] by simp
  have low: "\<not> 59 < m mod 60" by (simp add: not_less)
  have hm: "(m div 60 * 60 + m mod 60) * 60 = \<bar>offset\<bar>" by (simp add: abs)
  show ?thesis
  proof (cases "offset \<le> -60")
    case True
    then show ?thesis using False m hm low
      by (simp add: parse_zone_def zone_text_def g1 g2 skip_def flip: m_def)
  next
    case pos: False
    then have "0 < offset" using False abs by presburger
    then show ?thesis using False m hm low pos
      by (simp add: parse_zone_def zone_text_def g1 g2 skip_def flip: m_def)
  qed
qed

text \<open>The round trip of a time.\<close>

lemma Parse_Format_RFC3339Nano:
  assumes "0 \<le> year (t + offset * Second)" "year (t + offset * Second) \<le> 9999"
    and "whole_minutes offset" "zone_minutes offset div 60 < 24"
  shows "Parse_RFC3339 (Format_RFC3339Nano offset t) = Some t"
proof -
  let ?u = "t + offset * Second"
  obtain c zs where z: "zone_text offset = c # zs" "\<not> isDigit c" "c \<noteq> CHR ''.''" using zone_text_first by blast
  have "parse_fraction (fraction_text (?u mod Second) @ zone_text offset) = (?u mod Second, zone_text offset)"
    unfolding z(1) by (rule parse_fraction_text [OF _ _ z(2,3)]) simp_all
  from Parse_RFC3339_text [OF assms(1,2) this parse_zone_text [OF assms(3,4)]] show ?thesis
    by (simp add: Format_RFC3339Nano_def Let_def)
qed

text \<open>The characters of a time need no escape.\<close>

definition plain :: "char \<Rightarrow> bool" where
  "plain c \<longleftrightarrow> byte c < 128 \<and> escape_ascii c = [c]"

lemma plain_text: "list_all plain s \<Longrightarrow> json_escape s = s \<and> valid_utf8 s"
  by (induction s) (simp_all add: plain_def rune_len_ascii)

lemma plain_digit: "isDigit c \<Longrightarrow> plain c"
proof -
  assume "isDigit c"
  then have b: "48 \<le> byte c" "byte c \<le> 57" by (simp_all add: isDigit_def digit_val_def flip: byte_def)
  then have "c \<notin> {CHR 0x5C, CHR 0x22, CHR 0x08, CHR 0x0C, CHR 0x0A, CHR 0x0D, CHR 0x09, CHR ''<'', CHR ''>'', CHR ''&''}"
    by (auto simp: byte_def)
  with b show "plain c" by (simp add: plain_def escape_ascii_def)
qed

lemma plain_literals [simp]:
  "plain (CHR ''-'')" "plain (CHR '':'')" "plain (CHR ''.'')" "plain (CHR ''T'')" "plain (CHR ''Z'')" "plain (CHR ''+'')"
  by (simp_all add: plain_def escape_ascii_def byte_def)

lemma plain_pad [simp]: "list_all plain (pad_digits w n)"
  using pad_digits_all [of w n] plain_digit by (auto simp: list_all_iff)

lemma plain_time:
  assumes "0 \<le> year (t + offset * Second)" "year (t + offset * Second) \<le> 9999"
  shows "list_all plain (Format_RFC3339Nano offset t)"
proof -
  have "list_all plain (fraction_text n)" for n
    using plain_pad [of 9 n] by (auto simp: fraction_text_def list_all_iff dest: set_dropWhileD)
  moreover have "list_all plain (zone_text offset)" by (simp add: zone_text_def)
  ultimately show ?thesis
    using assms by (simp add: Format_RFC3339Nano_def Let_def Format_date_def Format_year_4)
qed

lemma marshal_time_SomeE:
  assumes "marshal_time offset t = Some s"
  obtains x where "s = quoted x" "valid_utf8 x" "whole_minutes offset \<Longrightarrow> Parse_RFC3339 x = Some t"
proof -
  from assms have y: "0 \<le> year (t + offset * Second)" "year (t + offset * Second) \<le> 9999"
    and z: "zone_minutes offset div 60 < 24" and s: "s = [CHR 0x22] @ Format_RFC3339Nano offset t @ [CHR 0x22]"
    by (auto simp: marshal_time_def Let_def split: if_splits)
  show thesis
    using plain_text [OF plain_time [OF y]] Parse_Format_RFC3339Nano [OF y _ z]
    by (intro that [of "Format_RFC3339Nano offset t"]) (simp_all add: s quoted_def)
qed

section \<open>Notifications are read back\<close>

definition whole_offsets :: "offsets \<Rightarrow> bool" where
  "whole_offsets z \<longleftrightarrow> whole_minutes (of_SlotStart z) \<and> whole_minutes (of_SlotEnd z) \<and> whole_minutes (of_CreatedAt z)"

definition texts_valid :: "Notification \<Rightarrow> bool" where
  "texts_valid n \<longleftrightarrow> list_all valid_utf8 [nf_ID n, nf_UserID n, nf_Type n, nf_BookingID n, nf_RoomName n]"

lemma field_names_valid: "list_all plain s \<Longrightarrow> valid_utf8 s"
  by (simp add: plain_text)

lemma marshal_notification_printable:
  "marshal_notification z n = Some s \<Longrightarrow> printable s"
  by (auto simp: marshal_notification_def bind_eq_Some_conv bool_text_def byte_def elim!: marshal_time_SomeE
      intro!: printable_object printable_quoted)

lemma decode_marshal_notification:
  assumes m: "marshal_notification z n = Some s" and "whole_offsets z" and "texts_valid n"
  shows "decode_notification s = Some n"
proof -
  from m obtain a b c where abc: "marshal_time (of_SlotStart z) (nf_SlotStart n) = Some a"
      "marshal_time (of_SlotEnd z) (nf_SlotEnd n) = Some b" "marshal_time (of_CreatedAt z) (nf_CreatedAt n) = Some c"
    and s: "s = object_text [(''id'', quoted (nf_ID n)), (''user_id'', quoted (nf_UserID n)), (''type'', quoted (nf_Type n)),
         (''booking_id'', quoted (nf_BookingID n)), (''room_name'', quoted (nf_RoomName n)),
         (''slot_start'', a), (''slot_end'', b), (''is_read'', bool_text (nf_IsRead n)), (''created_at'', c)]"
    by (auto simp: marshal_notification_def bind_eq_Some_conv)
  obtain x where x: "a = quoted x" "valid_utf8 x" "Parse_RFC3339 x = Some (nf_SlotStart n)"
    using abc(1) assms(2) by (auto simp: whole_offsets_def elim: marshal_time_SomeE)
  obtain y where y: "b = quoted y" "valid_utf8 y" "Parse_RFC3339 y = Some (nf_SlotEnd n)"
    using abc(2) assms(2) by (auto simp: whole_offsets_def elim: marshal_time_SomeE)
  obtain u where u: "c = quoted u" "valid_utf8 u" "Parse_RFC3339 u = Some (nf_CreatedAt n)"
    using abc(3) assms(2) by (auto simp: whole_offsets_def elim: marshal_time_SomeE)
  let ?ms = "[(''id'', quoted (nf_ID n), JvText (nf_ID n)), (''user_id'', quoted (nf_UserID n), JvText (nf_UserID n)),
     (''type'', quoted (nf_Type n), JvText (nf_Type n)), (''booking_id'', quoted (nf_BookingID n), JvText (nf_BookingID n)),
     (''room_name'', quoted (nf_RoomName n), JvText (nf_RoomName n)), (''slot_start'', a, JvText x),
     (''slot_end'', b, JvText y), (''is_read'', bool_text (nf_IsRead n), JvBool (nf_IsRead n)), (''created_at'', c, JvText u)]"
  have names: "valid_utf8 k" if "k \<in> {''id'', ''user_id'', ''type'', ''booking_id'', ''room_name'', ''slot_start'', ''slot_end'', ''is_read'', ''created_at''}" for k
    using that by (auto simp: rune_len_def byte_def)
  have "read_object (object_text (map (\<lambda>(k, t, v). (k, t)) ?ms)) = Some (JvObject (map (\<lambda>(k, t, v). (k, v)) ?ms))"
    by (rule read_object_text)
      (use assms(3) x y u names in \<open>simp_all add: texts_valid_def reads_quoted reads_bool del: valid_utf8.simps\<close>)
  then have "read_object s = Some (JvObject (map (\<lambda>(k, t, v). (k, v)) ?ms))" by (simp add: s)
  then show ?thesis
    using x y u
    by (simp add: decode_notification_def decode_struct_def notification_fields_def lookup_field_def into_string_def
        into_bool_def into_time_def zero_notification_def)
qed

section \<open>Streams are read back\<close>

text \<open>A printable line with its end is one line.\<close>

lemma sse_lines_line: "printable l \<Longrightarrow> sse_lines acc (l @ LF # s) = (acc @ l) # sse_lines [] s"
  by (induction l arbitrary: acc) (auto simp: LF_def byte_def)

lemma lines_connected:
  "sse_lines [] (''event: connected'' @ [LF] @ ''data: {}'' @ [LF, LF] @ s) = ''event: connected'' # ''data: {}'' # [] # sse_lines [] s"
  using sse_lines_line [of "''event: connected''" "[]" "''data: {}'' @ [LF, LF] @ s"] sse_lines_line [of "''data: {}''" "[]" "LF # s"]
  by (simp add: byte_def)

lemma lines_notification:
  assumes "printable data"
  shows "sse_lines [] (''event: notification'' @ [LF] @ ''data: '' @ data @ [LF, LF] @ s) =
    ''event: notification'' # (''data: '' @ data) # [] # sse_lines [] s"
  using assms sse_lines_line [of "''event: notification''" "[]" "''data: '' @ data @ [LF, LF] @ s"]
    sse_lines_line [of "''data: '' @ data" "[]" "LF # s"]
  by (simp add: byte_def)

lemma lines_ping: "sse_lines [] ('': ping'' @ [LF, LF] @ s) = '': ping'' # [] # sse_lines [] s"
  using sse_lines_line [of "'': ping''" "[]" "LF # s"] by (simp add: byte_def)

lemma field_of_simps:
  "field_of ''event: connected'' = (''event'', ''connected'')"
  "field_of ''event: notification'' = (''event'', ''notification'')"
  "field_of ''data: {}'' = (''data'', ''{}'')"
  "field_of (''data: '' @ data) = (''data'', data)"
  by (simp_all add: field_of_def HasPrefix_def)

lemma dispatch_field:
  "field_of (c # l) = (''event'', v) \<Longrightarrow> c \<noteq> CHR '':'' \<Longrightarrow> dispatch ev d ((c # l) # ls) = dispatch v d ls"
  "field_of (c # l) = (''data'', v) \<Longrightarrow> c \<noteq> CHR '':'' \<Longrightarrow> dispatch ev d ((c # l) # ls) = dispatch ev (d @ [v]) ls"
  by (simp_all add: HasPrefix_def)

lemma dispatch_blank: "dispatch (c # ev) [x] ([] # ls) = (c # ev, x) # dispatch [] [] ls"
  by simp

lemma dispatch_frame:
  assumes "field_of (c # l1) = (''event'', e # ev)" "c \<noteq> CHR '':''" "field_of (c' # l2) = (''data'', v)" "c' \<noteq> CHR '':''"
  shows "dispatch [] [] ((c # l1) # (c' # l2) # [] # ls) = (e # ev, v) # dispatch [] [] ls"
proof -
  have "dispatch [] [] ((c # l1) # (c' # l2) # [] # ls) = dispatch (e # ev) [] ((c' # l2) # [] # ls)"
    by (rule dispatch_field(1) [OF assms(1,2)])
  also have "\<dots> = dispatch (e # ev) [v] ([] # ls)"
    using dispatch_field(2) [OF assms(3,4), of "e # ev" "[]"] by (simp only: append_Nil)
  finally show ?thesis by (simp only: dispatch_blank)
qed

lemma data_line: "''data: '' @ data = CHR ''d'' # ''ata: '' @ data"
  by simp

lemma frame_events:
  "client_events (''event: connected'' @ [LF] @ ''data: {}'' @ [LF, LF] @ s) = (''connected'', ''{}'') # client_events s"
  "printable data \<Longrightarrow> client_events (''event: notification'' @ [LF] @ ''data: '' @ data @ [LF, LF] @ s) =
     (''notification'', data) # client_events s"
  "client_events ('': ping'' @ [LF, LF] @ s) = client_events s"
  unfolding client_events_def lines_connected lines_ping
    apply (rule dispatch_frame [OF field_of_simps(1) _ field_of_simps(3)]; simp)
   apply (subst lines_notification, assumption)
   apply (subst data_line, rule dispatch_frame [OF field_of_simps(2) _ field_of_simps(4) [of data, unfolded data_line]]; simp)
  apply (simp add: HasPrefix_def)
  done

definition tellable :: "(Notification \<Rightarrow> offsets) \<Rightarrow> frame list \<Rightarrow> bool" where
  "tellable z fs \<longleftrightarrow> (\<forall>n \<in> set (notifications_in fs). whole_offsets (z n) \<and> texts_valid n)"

lemma tellable_Cons: "tellable z (f # fs) \<Longrightarrow> tellable z fs"
  by (cases f) (simp_all add: tellable_def)

text \<open>The events are named: one that a client reads as unnamed is never sent.\<close>

lemma events_are_named:
  "stream_text z fs = Some s \<Longrightarrow> e \<in> set (client_events s) \<Longrightarrow> fst e \<in> {''connected'', ''notification''}"
proof (induction fs arbitrary: s)
  case Nil
  then show ?case by (simp add: client_events_def)
next
  case (Cons f fs)
  from Cons.prems(1) obtain a b where ab: "frame_text z f = Some a" "stream_text z fs = Some b" "s = a @ b"
    by (auto simp: bind_eq_Some_conv)
  show ?case
  proof (cases f)
    case (NotificationFrame n)
    with ab obtain data where d: "marshal_notification (z n) n = Some data"
      "a = ''event: notification'' @ [LF] @ ''data: '' @ data @ [LF, LF]" by auto
    show ?thesis
      using Cons frame_events(2) [OF marshal_notification_printable [OF d(1)], of b] ab d(2) by auto
  qed (use Cons ab frame_events(1,3) [of b] in auto)
qed

text \<open>Every frame can be written when the years of its times have four digits.\<close>

definition printable_time :: "int \<Rightarrow> time \<Rightarrow> bool" where
  "printable_time offset t \<longleftrightarrow> 0 \<le> year (t + offset * Second) \<and> year (t + offset * Second) \<le> 9999 \<and> \<bar>offset\<bar> < 24 * 3600"

lemma marshal_time_defined: "printable_time offset t \<Longrightarrow> marshal_time offset t \<noteq> None"
proof -
  assume p: "printable_time offset t"
  have "x div 60 div 60 < 24" if "x < 24 * 3600" for x :: int
  proof -
    have "x div 60 div 60 = x div 3600" using zdiv_zmult2_eq [of 60 x 60] by simp
    then show ?thesis using that div_mult_mod_eq [of x 3600] pos_mod_sign [of 3600 x] by linarith
  qed
  then have "zone_minutes offset div 60 < 24" using p by (simp add: zone_minutes_def printable_time_def)
  with p show "marshal_time offset t \<noteq> None" by (simp add: marshal_time_def printable_time_def Let_def)
qed

lemma stream_text_defined:
  assumes "\<forall>n \<in> set (notifications_in fs). printable_time (of_SlotStart (z n)) (nf_SlotStart n) \<and>
     printable_time (of_SlotEnd (z n)) (nf_SlotEnd n) \<and> printable_time (of_CreatedAt (z n)) (nf_CreatedAt n)"
  shows "stream_text z fs \<noteq> None"
  using assms
proof (induction fs)
  case (Cons f fs)
  show ?case
  proof (cases f)
    case (NotificationFrame n)
    with Cons.prems have "marshal_time (of_SlotStart (z n)) (nf_SlotStart n) \<noteq> None"
      "marshal_time (of_SlotEnd (z n)) (nf_SlotEnd n) \<noteq> None" "marshal_time (of_CreatedAt (z n)) (nf_CreatedAt n) \<noteq> None"
      by (simp_all add: marshal_time_defined del: not_None_eq)
    then have "marshal_notification (z n) n \<noteq> None" by (auto simp: marshal_notification_def)
    then show ?thesis using Cons NotificationFrame by auto
  qed (use Cons in auto)
qed simp

section \<open>What the client of a stream reads\<close>

text \<open>The frames that are events, and what the data of one must say.\<close>

definition events_of_stream :: "frame list \<Rightarrow> frame list" where
  "events_of_stream fs = filter (\<lambda>f. f \<noteq> Ping) fs"

fun says :: "string \<Rightarrow> frame \<Rightarrow> bool" where
  "says data Connected \<longleftrightarrow> data = ''{}''"
| "says data (NotificationFrame n) \<longleftrightarrow> decode_notification data = Some n"
| "says data Ping \<longleftrightarrow> False"

lemma stream_says:
  "stream_text z fs = Some s \<Longrightarrow> length (client_events s) = length (events_of_stream fs) \<and>
   (tellable z fs \<longrightarrow> list_all2 says (map snd (client_events s)) (events_of_stream fs))"
proof (induction fs arbitrary: s)
  case Nil
  then show ?case by (simp add: events_of_stream_def client_events_def)
next
  case (Cons f fs)
  from Cons.prems(1) obtain a b where ab: "frame_text z f = Some a" "stream_text z fs = Some b" "s = a @ b"
    by (auto simp: bind_eq_Some_conv)
  note ih = Cons.IH [OF ab(2)]
  note tell = tellable_Cons [of z f fs]
  show ?case
  proof (cases f)
    case Connected
    then have "client_events s = (''connected'', ''{}'') # client_events b"
      using ab frame_events(1) [of b] by auto
    then show ?thesis using ih tell Connected by (auto simp: events_of_stream_def)
  next
    case Ping
    then have "client_events s = client_events b" using ab frame_events(3) [of b] by auto
    then show ?thesis using ih tell Ping by (auto simp: events_of_stream_def)
  next
    case (NotificationFrame n)
    with ab obtain data where d: "marshal_notification (z n) n = Some data"
      "a = ''event: notification'' @ [LF] @ ''data: '' @ data @ [LF, LF]" by auto
    have "client_events s = (''notification'', data) # client_events b"
      using frame_events(2) [OF marshal_notification_printable [OF d(1)], of b] ab(3) d(2) by simp
    moreover have "decode_notification data = Some n" if "tellable z (f # fs)"
      by (rule decode_marshal_notification [OF d(1)]) (use that NotificationFrame in \<open>auto simp: tellable_def\<close>)
    ultimately show ?thesis using ih tell NotificationFrame by (auto simp: events_of_stream_def)
  qed
qed

text \<open>
  C21: the bytes of a stream say what its frames say.  A client that follows the standard sees one
  event for each frame that is not a ping, whatever stands in a notification: no room name can
  end a line or an event early.  And when the texts of the notifications are UTF-8 and the offsets
  of their times whole minutes, the data of the events decode, in the order of the frames, to the
  notifications that were sent, with all their fields.
\<close>

theorem stream_bytes_are_read_back:
  assumes "stream_text z fs = Some s"
  shows "length (client_events s) = length (events_of_stream fs) \<and>
    (tellable z fs \<longrightarrow> list_all2 says (map snd (client_events s)) (events_of_stream fs))"
  using assms by (rule stream_says)

definition tricky_notification :: Notification where
  "tricky_notification = \<lparr> nf_ID = ''1'', nf_UserID = ''u'', nf_Type = TypeBookingCreated, nf_BookingID = ''b'',
     nf_RoomName = ''A'' @ [LF, LF] @ ''data: {}'' @ [CHR 0x22, CHR 0x5C, CHR 0xE2, CHR 0x80, CHR 0xA8],
     nf_SlotStart = 0, nf_SlotEnd = Hour + 1, nf_IsRead = False, nf_CreatedAt = 0 \<rparr>"

lemma second_says: "list_all2 says (map snd es) [f, NotificationFrame n] \<Longrightarrow> map (decode_notification \<circ> snd) (tl es) = [Some n]"
proof (cases es)
  case (Cons e es')
  then show "list_all2 says (map snd es) [f, NotificationFrame n] \<Longrightarrow> ?thesis" by (cases es') simp_all
qed simp

theorem stream_bytes_are_read_back_witness:
  "\<exists>s. stream_text (\<lambda>n. \<lparr> of_SlotStart = 10800, of_SlotEnd = -19800, of_CreatedAt = 0 \<rparr>)
        [Connected, Ping, NotificationFrame tricky_notification] = Some s \<and>
     map (decode_notification \<circ> snd) (tl (client_events s)) = [Some tricky_notification]"
proof -
  let ?z = "\<lambda>n :: Notification. \<lparr> of_SlotStart = 10800, of_SlotEnd = -19800, of_CreatedAt = 0 \<rparr>"
  let ?fs = "[Connected, Ping, NotificationFrame tricky_notification]"
  have "printable_time 10800 0" "printable_time (-19800) (Hour + 1)" "printable_time 0 0"
    unfolding printable_time_def by code_simp+
  then have "stream_text ?z ?fs \<noteq> None"
    by (intro stream_text_defined) (simp add: tricky_notification_def)
  then obtain s where s: "stream_text ?z ?fs = Some s" by blast
  have "tellable ?z ?fs"
    by (simp add: tellable_def whole_offsets_def whole_minutes_def texts_valid_def tricky_notification_def
        TypeBookingCreated_def rune_len_def continuation_def byte_def LF_def)
  with stream_bytes_are_read_back [OF s] have said: "list_all2 says (map snd (client_events s)) (events_of_stream ?fs)" by blast
  have ev: "events_of_stream ?fs = [Connected, NotificationFrame tricky_notification]"
    by (simp add: events_of_stream_def)
  have "list_all2 says (map snd (client_events s)) [Connected, NotificationFrame tricky_notification]"
    by (rule said [unfolded ev])
  then have "map (decode_notification \<circ> snd) (tl (client_events s)) = [Some tricky_notification]" by (rule second_says)
  with s have "stream_text ?z ?fs = Some s \<and>
      map (decode_notification \<circ> snd) (tl (client_events s)) = [Some tricky_notification]" by (rule conjI)
  then show ?thesis by (rule exI)
qed

end
