(* ===== verification/Lifecycle.thy ===== *)
theory Lifecycle
  imports Settings RelayLoop AuthService Sample
begin

text \<open>
  The processes from their start to their exit code: \<open>cmd/main.go\<close> of both services with the
  initialisation of the packages before it, and the constructors that only fill in settings
  (\<open>NewPool\<close>, \<open>NewRelay\<close>, \<open>NewConsumer\<close>, \<open>http.Server\<close>).  A run is the sequence of what is
  started and stopped, each with its settings; what the outside decides is an argument.
\<close>

section \<open>Settings of what is started\<close>

text \<open>What \<open>pgxpool.ParseConfig\<close> makes of a connection string, and what the code sets in it.\<close>

record pool_config =
  pc_ConnString :: string
  pc_MaxConns :: int
  pc_MinConns :: int
  pc_MaxConnLifetime :: duration
  pc_MaxConnIdleTime :: duration
  pc_ConnectTimeout :: duration

definition booking_maxConns :: int where "booking_maxConns = 20"
definition booking_minConns :: int where "booking_minConns = 2"
definition booking_maxConnLifetime :: duration where "booking_maxConnLifetime = Hour"
definition booking_maxConnIdleTime :: duration where "booking_maxConnIdleTime = 30 * Minute"
definition booking_connectTimeout :: duration where "booking_connectTimeout = 5 * Second"

definition notif_maxConns :: int where "notif_maxConns = 10"
definition notif_minConns :: int where "notif_minConns = 2"
definition notif_maxConnLifetime :: duration where "notif_maxConnLifetime = Hour"
definition notif_maxConnIdleTime :: duration where "notif_maxConnIdleTime = 30 * Minute"
definition notif_connectTimeout :: duration where "notif_connectTimeout = 5 * Second"

record http_server =
  hs_Addr :: string
  hs_ReadTimeout :: duration
  hs_WriteTimeout :: duration
  hs_IdleTimeout :: duration

definition booking_server :: "BookingConfig \<Rightarrow> http_server" where
  "booking_server cfg = \<lparr> hs_Addr = '':'' @ bc_ServerPort cfg, hs_ReadTimeout = 5 * Second,
     hs_WriteTimeout = 5 * Second, hs_IdleTimeout = 60 * Second \<rparr>"

definition notif_server :: "NotifConfig \<Rightarrow> http_server" where
  "notif_server cfg = \<lparr> hs_Addr = '':'' @ nc_ServerPort cfg, hs_ReadTimeout = 5 * Second,
     hs_WriteTimeout = 5 * Second, hs_IdleTimeout = 60 * Second \<rparr>"

datatype balancer = HashBalancer
datatype required_acks = RequireOne

record kafka_writer =
  kw_Addr :: "string list"
  kw_Topic :: string
  kw_Balancer :: balancer
  kw_BatchTimeout :: duration
  kw_RequiredAcks :: required_acks

definition writerBatchTimeout :: duration where "writerBatchTimeout = 100 * Millisecond"

definition NewRelay :: "string list \<Rightarrow> string \<Rightarrow> kafka_writer" where
  "NewRelay brokers topic_name = \<lparr> kw_Addr = brokers, kw_Topic = topic_name, kw_Balancer = HashBalancer,
     kw_BatchTimeout = writerBatchTimeout, kw_RequiredAcks = RequireOne \<rparr>"

record kafka_reader =
  kr_Brokers :: "string list"
  kr_Topic :: string
  kr_GroupID :: string

definition NewConsumer :: "string list \<Rightarrow> string \<Rightarrow> string \<Rightarrow> kafka_reader" where
  "NewConsumer brokers topic_name groupID = \<lparr> kr_Brokers = brokers, kr_Topic = topic_name, kr_GroupID = groupID \<rparr>"

section \<open>Actions\<close>

datatype action =
    PoolOpened pool_config | MigratorOpened | Migrated | MigratorClosed
  | RelayStarted kafka_writer | PprofStarted string | TokenCleanupStarted | ConsumerStarted kafka_reader
  | ServerStarted http_server | ContextCancelled | ServerShutdown duration bool | ServerClosed
  | WriterClosed | RelayWaited duration bool | ConsumerWaited | ConsumerClosed | PoolClosed

datatype exit = PanicExit | FatalExit | FailedExit string | CleanExit

datatype server_end = ServerFails string | SignalReceived

datatype migration = MigrationDone | MigrationNoChange | MigrationFails string

text \<open>
  The answers of what is outside: the registry of metrics with what the library has put there,
  the errors of the driver and of the migrator (\<open>None\<close> where there is none), how the server
  ends, and who is in time.
\<close>

record outside =
  out_registry :: registry
  out_registered :: "Metric list"
  out_ParseConfig :: "string \<Rightarrow> string + pool_config"
  out_create :: "pool_config \<Rightarrow> string option"
  out_ping :: "string option"
  out_migrate_New :: "string \<Rightarrow> string \<Rightarrow> string option"
  out_Up :: migration
  out_server :: server_end
  out_shutdown_ok :: bool
  out_relay_in_time :: bool

section \<open>The database\<close>

text \<open>The error of \<open>NewPool\<close> and what was done; the files of the two services differ in a constant.\<close>

definition booking_NewPool :: "outside \<Rightarrow> string \<Rightarrow> string option \<times> action list" where
  "booking_NewPool out dsn =
    (case out_ParseConfig out dsn of
       Inl e \<Rightarrow> (Some (''parse pool config: '' @ e), [])
     | Inr cfg0 \<Rightarrow>
         (let cfg = cfg0\<lparr>pc_MaxConns := booking_maxConns, pc_MinConns := booking_minConns,
                pc_MaxConnLifetime := booking_maxConnLifetime, pc_MaxConnIdleTime := booking_maxConnIdleTime,
                pc_ConnectTimeout := booking_connectTimeout\<rparr>
          in case out_create out cfg of
               Some e \<Rightarrow> (Some (''create pool: '' @ e), [])
             | None \<Rightarrow>
                 (case out_ping out of
                    Some e \<Rightarrow> (Some (''ping database: '' @ e), [PoolOpened cfg, PoolClosed])
                  | None \<Rightarrow> (None, [PoolOpened cfg]))))"

definition notif_NewPool :: "outside \<Rightarrow> string \<Rightarrow> string option \<times> action list" where
  "notif_NewPool out dsn =
    (case out_ParseConfig out dsn of
       Inl e \<Rightarrow> (Some (''parse pool config: '' @ e), [])
     | Inr cfg0 \<Rightarrow>
         (let cfg = cfg0\<lparr>pc_MaxConns := notif_maxConns, pc_MinConns := notif_minConns,
                pc_MaxConnLifetime := notif_maxConnLifetime, pc_MaxConnIdleTime := notif_maxConnIdleTime,
                pc_ConnectTimeout := notif_connectTimeout\<rparr>
          in case out_create out cfg of
               Some e \<Rightarrow> (Some (''create pool: '' @ e), [])
             | None \<Rightarrow>
                 (case out_ping out of
                    Some e \<Rightarrow> (Some (''ping database: '' @ e), [PoolOpened cfg, PoolClosed])
                  | None \<Rightarrow> (None, [PoolOpened cfg]))))"

definition migrationsPath :: string where "migrationsPath = ''file:///migrations''"

text \<open>The errors of closing the migrator are only logged.\<close>

definition runMigrations :: "outside \<Rightarrow> string \<Rightarrow> string \<Rightarrow> string option \<times> action list" where
  "runMigrations out path dsn =
    (case out_migrate_New out path dsn of
       Some e \<Rightarrow> (Some (''create migrator: '' @ e), [])
     | None \<Rightarrow>
         (case out_Up out of
            MigrationFails e \<Rightarrow> (Some (''migrate up: '' @ e), [MigratorOpened, MigratorClosed])
          | _ \<Rightarrow> (None, [MigratorOpened, Migrated, MigratorClosed])))"

text \<open>The notification service has a copy of this function and of the path.\<close>

definition notif_migrationsPath :: string where "notif_migrationsPath = ''file:///migrations''"

definition notif_runMigrations :: "outside \<Rightarrow> string \<Rightarrow> string \<Rightarrow> string option \<times> action list" where
  "notif_runMigrations out path dsn = runMigrations out path dsn"

section \<open>The booking service\<close>

definition shutdownTimeout :: duration where "shutdownTimeout = 5 * Second"
definition pprofAddr :: string where "pprofAddr = '':6060''"

text \<open>
  The deferred calls (\<open>stop\<close>, then \<open>pool.Close\<close>) run on every return.  The signal itself ends
  the context on which the relay runs; the relay closes its writer when \<open>Run\<close> returns, which is
  before the wait for it ends unless that times out.  The listener of the profiler is started and
  left; its error is only logged.
\<close>

definition booking_run :: "environment \<Rightarrow> outside \<Rightarrow> exit \<times> action list" where
  "booking_run env out =
    (case booking_Load env of
       None \<Rightarrow> (FatalExit, [])
     | Some cfg \<Rightarrow>
         (case booking_NewPool out (booking_DSN cfg) of
            (Some e, acts) \<Rightarrow> (FailedExit (''connecting to database: '' @ e), acts)
          | (None, acts) \<Rightarrow>
              (case runMigrations out migrationsPath (booking_MigrateDSN cfg) of
                 (Some e, acts') \<Rightarrow> (FailedExit (''running migrations: '' @ e), acts @ acts' @ [PoolClosed])
               | (None, acts') \<Rightarrow>
                   (let started = acts @ acts' @
                          [RelayStarted (NewRelay (booking_brokers cfg) (bc_KafkaTopicBookingEvents cfg)),
                           PprofStarted pprofAddr, ServerStarted (booking_server cfg)]
                    in case out_server out of
                         ServerFails e \<Rightarrow> (FailedExit (''server: '' @ e), started @ [ContextCancelled, PoolClosed])
                       | SignalReceived \<Rightarrow>
                           (CleanExit, started @
                              [ContextCancelled, ServerShutdown shutdownTimeout (out_shutdown_ok out)] @
                              (if out_relay_in_time out then [WriterClosed] else []) @
                              [RelayWaited DrainTimeout (out_relay_in_time out), PoolClosed])))))"

text \<open>
  The whole process: the metrics are registered and the constant hash is made before \<open>main\<close>
  begins, and either may panic; then the exit code is 0 only if \<open>run\<close> returns no error.
\<close>

definition exit_code :: "exit \<Rightarrow> nat" where
  "exit_code e = (case e of PanicExit \<Rightarrow> 2 | FatalExit \<Rightarrow> 1 | FailedExit _ \<Rightarrow> 1 | CleanExit \<Rightarrow> 0)"

definition booking_main :: "environment \<Rightarrow> outside \<Rightarrow> nat \<times> action list" where
  "booking_main env out = (let (e, acts) = booking_run env out in (exit_code e, acts))"

definition booking_process :: "externals \<Rightarrow> uuid \<Rightarrow> environment \<Rightarrow> outside \<Rightarrow> nat \<times> action list" where
  "booking_process L salt env out =
    (if init_metrics (out_registry out) (out_registered out) booking_metrics = None \<or> auth_init L salt = None
     then (exit_code PanicExit, []) else booking_main env out)"

section \<open>The notification service\<close>

definition notif_shutdownTimeout :: duration where "notif_shutdownTimeout = 5 * Second"

definition notif_run :: "environment \<Rightarrow> outside \<Rightarrow> exit \<times> action list" where
  "notif_run env out =
    (case notif_Load env of
       None \<Rightarrow> (FatalExit, [])
     | Some cfg \<Rightarrow>
         (case notif_NewPool out (notif_DSN cfg) of
            (Some e, acts) \<Rightarrow> (FailedExit (''connecting to database: '' @ e), acts)
          | (None, acts) \<Rightarrow>
              (case notif_runMigrations out notif_migrationsPath (notif_MigrateDSN cfg) of
                 (Some e, acts') \<Rightarrow> (FailedExit (''running migrations: '' @ e), acts @ acts' @ [PoolClosed])
               | (None, acts') \<Rightarrow>
                   (let started = acts @ acts' @
                          [TokenCleanupStarted,
                           ConsumerStarted (NewConsumer (KafkaBrokersList cfg) (nc_KafkaTopicBookingEvents cfg) (nc_KafkaGroupID cfg)),
                           ServerStarted (notif_server cfg)];
                        deferred = [ConsumerClosed, PoolClosed]
                    in case out_server out of
                         ServerFails e \<Rightarrow>
                           (FailedExit (''server: '' @ e), started @ [ContextCancelled, ConsumerWaited] @ deferred)
                       | SignalReceived \<Rightarrow>
                           (CleanExit, started @ [ContextCancelled, ServerShutdown notif_shutdownTimeout (out_shutdown_ok out)] @
                              (if out_shutdown_ok out then [] else [ServerClosed]) @ [ConsumerWaited] @ deferred)))))"

definition notif_main :: "environment \<Rightarrow> outside \<Rightarrow> nat \<times> action list" where
  "notif_main env out = (let (e, acts) = notif_run env out in (exit_code e, acts))"

definition notif_process :: "environment \<Rightarrow> outside \<Rightarrow> nat \<times> action list" where
  "notif_process env out =
    (if init_metrics (out_registry out) (out_registered out) notif_metrics = None
     then (exit_code PanicExit, []) else notif_main env out)"

section \<open>The order of the actions\<close>

definition precedes :: "'a \<Rightarrow> 'a \<Rightarrow> 'a list \<Rightarrow> bool" where
  "precedes a b xs \<longleftrightarrow> (\<exists>us vs ws. xs = us @ a # vs @ b # ws)"

lemma precedesI: "xs = us @ a # vs @ b # ws \<Longrightarrow> precedes a b xs"
  by (auto simp: precedes_def)

lemma booking_NewPool_cases:
  assumes "booking_NewPool out dsn = (err, acts)"
  obtains c where "err = None" "acts = [PoolOpened c]" "pc_MaxConns c = booking_maxConns"
  | e c where "err = Some e" "acts = [] \<or> acts = [PoolOpened c, PoolClosed]"
  using assms by (auto simp: booking_NewPool_def Let_def split: option.splits sum.splits)

lemma notif_NewPool_cases:
  assumes "notif_NewPool out dsn = (err, acts)"
  obtains c where "err = None" "acts = [PoolOpened c]" "pc_MaxConns c = notif_maxConns"
  | e c where "err = Some e" "acts = [] \<or> acts = [PoolOpened c, PoolClosed]"
  using assms by (auto simp: notif_NewPool_def Let_def split: option.splits sum.splits)

lemma runMigrations_cases:
  assumes "runMigrations out path dsn = (err, acts)"
  obtains "err = None" "acts = [MigratorOpened, Migrated, MigratorClosed]"
  | e where "err = Some e" "acts = [] \<or> acts = [MigratorOpened, MigratorClosed]"
  using assms by (auto simp: runMigrations_def split: option.splits migration.splits)

text \<open>All ways a run can go: it stops before the start, or it starts and ends in one of two ways.\<close>

definition before_start :: "action list \<Rightarrow> bool" where
  "before_start acts \<longleftrightarrow> acts = [] \<or>
     (\<exists>c. acts = [PoolOpened c, PoolClosed] \<or> acts = [PoolOpened c, MigratorOpened, MigratorClosed, PoolClosed])"

definition database_up :: "pool_config \<Rightarrow> action list" where
  "database_up c = [PoolOpened c, MigratorOpened, Migrated, MigratorClosed]"

lemma database_steps:
  assumes "runMigrations out path mdsn = (m, acts')"
    and "p = None \<and> (\<exists>c. acts = [PoolOpened c] \<and> pc_MaxConns c = n) \<or>
      p \<noteq> None \<and> (acts = [] \<or> (\<exists>c. acts = [PoolOpened c, PoolClosed]))"
  obtains (down) "p \<noteq> None \<and> before_start acts \<or> p = None \<and> m \<noteq> None \<and> before_start (acts @ acts' @ [PoolClosed])"
  | (up) c where "p = None" "m = None" "acts @ acts' = database_up c" "pc_MaxConns c = n"
  using assms(1)
  by (cases rule: runMigrations_cases) (use assms(2) in \<open>auto intro: that simp: before_start_def database_up_def\<close>)

definition booking_started :: "BookingConfig \<Rightarrow> action list" where
  "booking_started cfg = [RelayStarted (NewRelay (booking_brokers cfg) (bc_KafkaTopicBookingEvents cfg)),
     PprofStarted pprofAddr, ServerStarted (booking_server cfg)]"

definition notif_started :: "NotifConfig \<Rightarrow> action list" where
  "notif_started cfg = [TokenCleanupStarted,
     ConsumerStarted (NewConsumer (KafkaBrokersList cfg) (nc_KafkaTopicBookingEvents cfg) (nc_KafkaGroupID cfg)),
     ServerStarted (notif_server cfg)]"

lemma booking_run_cases:
  obtains (stopped) "before_start (snd (booking_run env out))" "fst (booking_run env out) \<noteq> CleanExit"
  | (failed) e cfg c where "booking_Load env = Some cfg" "pc_MaxConns c = booking_maxConns"
      "out_server out = ServerFails e" "booking_run env out =
        (FailedExit (''server: '' @ e), database_up c @ booking_started cfg @ [ContextCancelled, PoolClosed])"
  | (signalled) cfg c where "booking_Load env = Some cfg" "pc_MaxConns c = booking_maxConns"
      "out_server out = SignalReceived" "booking_run env out =
        (CleanExit, database_up c @ booking_started cfg @
           [ContextCancelled, ServerShutdown shutdownTimeout (out_shutdown_ok out)] @
           (if out_relay_in_time out then [WriterClosed] else []) @
           [RelayWaited DrainTimeout (out_relay_in_time out), PoolClosed])"
proof (cases "booking_Load env")
  case None
  then show thesis using stopped by (simp add: booking_run_def before_start_def)
next
  case (Some cfg)
  obtain p acts m acts' where pm: "booking_NewPool out (booking_DSN cfg) = (p, acts)"
    "runMigrations out migrationsPath (booking_MigrateDSN cfg) = (m, acts')"
    by (metis surj_pair)
  have "p = None \<and> (\<exists>c. acts = [PoolOpened c] \<and> pc_MaxConns c = booking_maxConns) \<or>
      p \<noteq> None \<and> (acts = [] \<or> (\<exists>c. acts = [PoolOpened c, PoolClosed]))"
    by (rule booking_NewPool_cases [OF pm(1)]) auto
  from pm(2) this show thesis
  proof (cases rule: database_steps)
    case down
    then show thesis using Some pm stopped by (cases p; cases m) (auto simp: booking_run_def)
  next
    case (up c)
    then show thesis using Some pm failed signalled
      by (cases "out_server out") (simp_all add: booking_run_def booking_started_def flip: append_assoc)
  qed
qed

lemma notif_run_cases:
  obtains (stopped) "before_start (snd (notif_run env out))" "fst (notif_run env out) \<noteq> CleanExit"
  | (failed) e cfg c where "notif_Load env = Some cfg" "pc_MaxConns c = notif_maxConns"
      "out_server out = ServerFails e" "notif_run env out =
        (FailedExit (''server: '' @ e), database_up c @ notif_started cfg @
           [ContextCancelled, ConsumerWaited, ConsumerClosed, PoolClosed])"
  | (signalled) cfg c where "notif_Load env = Some cfg" "pc_MaxConns c = notif_maxConns"
      "out_server out = SignalReceived" "notif_run env out =
        (CleanExit, database_up c @ notif_started cfg @
           [ContextCancelled, ServerShutdown notif_shutdownTimeout (out_shutdown_ok out)] @
           (if out_shutdown_ok out then [] else [ServerClosed]) @ [ConsumerWaited, ConsumerClosed, PoolClosed])"
proof (cases "notif_Load env")
  case None
  then show thesis using stopped by (simp add: notif_run_def before_start_def)
next
  case (Some cfg)
  obtain p acts m acts' where pm: "notif_NewPool out (notif_DSN cfg) = (p, acts)"
    "runMigrations out notif_migrationsPath (notif_MigrateDSN cfg) = (m, acts')"
    by (metis surj_pair)
  have "p = None \<and> (\<exists>c. acts = [PoolOpened c] \<and> pc_MaxConns c = notif_maxConns) \<or>
      p \<noteq> None \<and> (acts = [] \<or> (\<exists>c. acts = [PoolOpened c, PoolClosed]))"
    by (rule notif_NewPool_cases [OF pm(1)]) auto
  from pm(2) this show thesis
  proof (cases rule: database_steps)
    case down
    then show thesis using Some pm stopped by (cases p; cases m) (auto simp: notif_run_def notif_runMigrations_def)
  next
    case (up c)
    then show thesis using Some pm failed signalled
      by (cases "out_server out") (simp_all add: notif_run_def notif_runMigrations_def notif_started_def flip: append_assoc)
  qed
qed

text \<open>
  What was opened is closed as often, the pool last: the pool itself, the migrator, and the reader
  of the consumer.
\<close>

fun opens_pool :: "action \<Rightarrow> bool" where
  "opens_pool (PoolOpened c) \<longleftrightarrow> True"
| "opens_pool _ \<longleftrightarrow> False"

fun opens_reader :: "action \<Rightarrow> bool" where
  "opens_reader (ConsumerStarted k) \<longleftrightarrow> True"
| "opens_reader _ \<longleftrightarrow> False"

definition released :: "action list \<Rightarrow> bool" where
  "released acts \<longleftrightarrow> count_list acts PoolClosed = length (filter opens_pool acts) \<and>
     count_list acts MigratorClosed = count_list acts MigratorOpened \<and>
     count_list acts ConsumerClosed = length (filter opens_reader acts) \<and>
     (acts \<noteq> [] \<longrightarrow> last acts = PoolClosed)"

lemmas run_lists = database_up_def booking_started_def notif_started_def

lemma released_before_start: "before_start acts \<Longrightarrow> released acts"
  by (auto simp: before_start_def released_def)

lemma booking_run_releases: "released (snd (booking_run env out))"
  by (rule booking_run_cases [of env out]) (simp_all add: released_before_start, simp_all add: released_def run_lists)

lemma notif_run_releases: "released (snd (notif_run env out))"
  by (rule notif_run_cases [of env out]) (simp_all add: released_before_start, simp_all add: released_def run_lists)

lemma never_without_settings:
  "env ''JWT_SECRET'' = [] \<Longrightarrow> booking_run env out = (FatalExit, []) \<and> notif_run env out = (FatalExit, [])"
  by (auto simp: booking_run_def notif_run_def booking_Load_def notif_Load_def mustEnv_def split: option.splits bind_splits)

text \<open>The exit code is 0 only after a signal, and only a process that served can receive one.\<close>

lemma booking_code: "fst (booking_main env out) = 0 \<longleftrightarrow> fst (booking_run env out) = CleanExit"
  by (simp add: booking_main_def exit_code_def split: prod.split exit.split)

lemma notif_code: "fst (notif_main env out) = 0 \<longleftrightarrow> fst (notif_run env out) = CleanExit"
  by (simp add: notif_main_def exit_code_def split: prod.split exit.split)

text \<open>
  With the same environment the relay writes to the topic that the consumer reads, and each
  connects to the brokers of the same setting.
\<close>

lemma services_share_topic:
  assumes "booking_Load env = Some b" and "notif_Load env = Some n"
  shows "kw_Topic (NewRelay (booking_brokers b) (bc_KafkaTopicBookingEvents b)) =
    kr_Topic (NewConsumer (KafkaBrokersList n) (nc_KafkaTopicBookingEvents n) (nc_KafkaGroupID n))"
    and "bc_KafkaBrokers b = nc_KafkaBrokers n"
  using assms
  by (auto simp: booking_Load_def notif_Load_def NewRelay_def NewConsumer_def split: bind_splits)

text \<open>The registries of the documentation accept the metrics, so neither process panics over them.\<close>

lemma processes_reach_main:
  assumes "registry_ok (out_registry out)" and "library_names (out_registered out)"
  shows "auth_init L salt \<noteq> None \<Longrightarrow> booking_process L salt env out = booking_main env out"
    and "notif_process env out = notif_main env out"
  using assms by (auto simp: booking_process_def notif_process_def booking_metrics_registered notif_metrics_registered)

text \<open>The notification service waits for its consumer whenever it was started.\<close>

lemma consumer_is_awaited:
  assumes "ConsumerStarted k \<in> set (snd (notif_run env out))"
  shows "precedes (ConsumerStarted k) ConsumerWaited (snd (notif_run env out))"
proof (rule notif_run_cases [of env out], goal_cases)
  case 1
  then show ?case using assms by (auto simp: before_start_def)
next
  case (2 e cfg c)
  then show ?case using assms
    by (intro precedesI [where us = "database_up c @ [TokenCleanupStarted]" and vs = "[ServerStarted (notif_server cfg), ContextCancelled]"])
      (auto simp: run_lists)
next
  case (3 cfg c)
  then show ?case using assms
    by (intro precedesI [where us = "database_up c @ [TokenCleanupStarted]" and
          vs = "[ServerStarted (notif_server cfg), ContextCancelled, ServerShutdown notif_shutdownTimeout (out_shutdown_ok out)] @
            (if out_shutdown_ok out then [] else [ServerClosed])"])
      (auto simp: run_lists split: if_splits)
qed

text \<open>The booking service does not wait for its relay when the server fails by itself.\<close>

lemma relay_not_awaited:
  "out_server out = ServerFails e \<Longrightarrow> RelayWaited t b \<notin> set (snd (booking_run env out))"
  by (rule booking_run_cases [of env out]) (auto simp: before_start_def run_lists)

text \<open>
  On a signal the relay begins its last pass before the server is shut down: the signal ends
  the context that the relay watches.  A request that is still running may therefore book after
  the last pass has found nothing to send.
\<close>

lemma relay_stops_first:
  assumes "fst (booking_run env out) = CleanExit"
  shows "precedes ContextCancelled (ServerShutdown shutdownTimeout (out_shutdown_ok out)) (snd (booking_run env out))"
proof (rule booking_run_cases [of env out], goal_cases)
  case (3 cfg c)
  then show ?case by (intro precedesI [where us = "database_up c @ booking_started cfg" and vs = "[]"]) simp
qed (use assms in auto)

text \<open>
  After a signal the servers are shut down, and what may still use the pool has ended, or has been
  waited for as long as the code allows, before the pool is closed.
\<close>

lemma booking_shutdown:
  assumes "fst (booking_run env out) = CleanExit"
  shows "\<exists>before closed. snd (booking_run env out) = before @
    [ServerShutdown shutdownTimeout (out_shutdown_ok out)] @ closed @ [RelayWaited DrainTimeout (out_relay_in_time out), PoolClosed] \<and>
    (out_relay_in_time out \<longrightarrow> closed = [WriterClosed])"
proof (rule booking_run_cases [of env out], goal_cases)
  case (3 cfg c)
  then show ?case
    by (intro exI [of _ "database_up c @ booking_started cfg @ [ContextCancelled]"]
        exI [of _ "if out_relay_in_time out then [WriterClosed] else []"]) simp
qed (use assms in auto)

lemma notif_shutdown:
  assumes "fst (notif_run env out) = CleanExit"
  shows "\<exists>before forced. snd (notif_run env out) = before @
    [ServerShutdown notif_shutdownTimeout (out_shutdown_ok out)] @ forced @ [ConsumerWaited, ConsumerClosed, PoolClosed] \<and>
    (\<not> out_shutdown_ok out \<longrightarrow> forced = [ServerClosed])"
proof (rule notif_run_cases [of env out], goal_cases)
  case (3 cfg c)
  then show ?case
    by (intro exI [of _ "database_up c @ notif_started cfg @ [ContextCancelled]"]
        exI [of _ "if out_shutdown_ok out then [] else [ServerClosed]"]) simp
qed (use assms in auto)

lemma booked_after_last_pass:
  "\<exists>w' db. Run nobody [(CtxDone, \<lambda>d. d)] \<lparr> topic = [], write_script = [] \<rparr> (sample_world db_slots) =
       (\<lparr> topic = [], write_script = [] \<rparr>, w') \<and>
     unsent_in_order (store w') = [] \<and> store_step sample_externals (store w') db \<and> unsent_in_order db \<noteq> []"
proof -
  let ?k = "\<lparr> topic = [], write_script = [] \<rparr>"
  let ?w = "(sample_world db_slots)\<lparr>store := db_slots\<rparr>"
  have w: "?w = sample_world db_slots" by (simp add: sample_world_def)
  have "\<exists>w'. drain nobody DrainTimeout ?k ?w = (?k\<lparr>topic := topic ?k @ map row_message (unsent_in_order (store ?w))\<rparr>, w') \<and>
      unsent_in_order (store w') = []"
    by (rule drain_complete) (simp_all add: w DrainTimeout_def)
  moreover have "drain nobody DrainTimeout ?k ?w = (?k, ?w)"
    by (subst drain.simps) (simp add: w DrainTimeout_def calm_processBatch pending_nobody unsent_in_order_def)
  moreover have "store_step sample_externals db_slots db_booked"
    by (rule store_step.service [OF step_to_booked])
  moreover have "unsent_in_order db_booked \<noteq> []" by (simp add: unsent_in_order_Nil db_booked_def unsent_def)
  ultimately show ?thesis by (auto simp: w)
qed

section \<open>The processes as a whole\<close>

lemma clean_exit_signalled:
  "fst (booking_run env out) = CleanExit \<Longrightarrow> out_server out = SignalReceived"
  "fst (notif_run env out) = CleanExit \<Longrightarrow> out_server out = SignalReceived"
  by (rule booking_run_cases [of env out]; simp) (rule notif_run_cases [of env out]; simp)

lemma consumer_before_close:
  assumes "ConsumerStarted k \<in> set (snd (notif_run env out))"
  shows "precedes ConsumerWaited ConsumerClosed (snd (notif_run env out))"
proof (rule notif_run_cases [of env out], goal_cases)
  case 1
  then show ?case using assms by (auto simp: before_start_def)
next
  case (2 e cfg c)
  then show ?case
    by (intro precedesI [where us = "database_up c @ notif_started cfg @ [ContextCancelled]" and vs = "[]"]) simp
next
  case (3 cfg c)
  then show ?case
    by (intro precedesI [where us = "database_up c @ notif_started cfg @ [ContextCancelled,
          ServerShutdown notif_shutdownTimeout (out_shutdown_ok out)] @ (if out_shutdown_ok out then [] else [ServerClosed])"
          and vs = "[]"]) simp
qed

text \<open>
  C25: whatever the environment holds and whatever the database, the migrations and the servers
  do, each process closes its pool, its migrator and the reader of its consumer as often as it
  opened them, and the pool last; the notification service has waited for its consumer before it
  closes the reader and the pool.  An exit code of 0 means that a signal stopped the process; then
  the server was shut down first, by force in the notification service if it was not in time, and
  the booking service waited for its relay, which has closed its writer if it was in time.
\<close>

theorem processes_end_in_order:
  "released (snd (booking_main env out)) \<and> released (snd (notif_main env out)) \<and>
   (ConsumerStarted k \<in> set (snd (notif_main env out)) \<longrightarrow>
      precedes (ConsumerStarted k) ConsumerWaited (snd (notif_main env out)) \<and>
      precedes ConsumerWaited ConsumerClosed (snd (notif_main env out))) \<and>
   (fst (booking_main env out) = 0 \<longrightarrow> out_server out = SignalReceived \<and>
      (\<exists>before closed. snd (booking_main env out) = before @ [ServerShutdown shutdownTimeout (out_shutdown_ok out)] @ closed @
         [RelayWaited DrainTimeout (out_relay_in_time out), PoolClosed] \<and>
         (out_relay_in_time out \<longrightarrow> closed = [WriterClosed]))) \<and>
   (fst (notif_main env out) = 0 \<longrightarrow> out_server out = SignalReceived \<and>
      (\<exists>before forced. snd (notif_main env out) = before @ [ServerShutdown notif_shutdownTimeout (out_shutdown_ok out)] @ forced @
         [ConsumerWaited, ConsumerClosed, PoolClosed] \<and>
         (\<not> out_shutdown_ok out \<longrightarrow> forced = [ServerClosed])))"
proof -
  have "snd (booking_main env out) = snd (booking_run env out)" "snd (notif_main env out) = snd (notif_run env out)"
    by (simp_all add: booking_main_def notif_main_def split: prod.split)
  then show ?thesis
    using booking_run_releases notif_run_releases consumer_is_awaited consumer_before_close booking_shutdown notif_shutdown
    by (auto simp: booking_code notif_code dest: clean_exit_signalled)
qed

definition sample_outside :: outside where
  "sample_outside = \<lparr> out_registry = (\<lambda>ms m. True), out_registered = [],
     out_ParseConfig = (\<lambda>dsn. Inr \<lparr> pc_ConnString = dsn, pc_MaxConns = 4, pc_MinConns = 0,
       pc_MaxConnLifetime = Hour, pc_MaxConnIdleTime = 30 * Minute, pc_ConnectTimeout = 0 \<rparr>),
     out_create = (\<lambda>c. None), out_ping = None, out_migrate_New = (\<lambda>path dsn. None), out_Up = MigrationNoChange,
     out_server = SignalReceived, out_shutdown_ok = False, out_relay_in_time = True \<rparr>"

theorem processes_end_in_order_witness:
  "precedes (ConsumerStarted (NewConsumer [''x''] ''x'' ''x'')) ConsumerWaited (snd (notif_main (\<lambda>key. ''x'') sample_outside)) \<and>
   fst (booking_main (\<lambda>key. ''x'') sample_outside) = 0 \<and> out_server sample_outside = SignalReceived"
proof -
  have "ConsumerStarted (NewConsumer [''x''] ''x'' ''x'') \<in> set (snd (notif_main (\<lambda>key. ''x'') sample_outside))"
    by (simp add: notif_main_def notif_run_def notif_Load_def mustEnv_def optEnv_def notif_NewPool_def notif_runMigrations_def
        runMigrations_def sample_outside_def KafkaBrokersList_def TrimSpace_def isSpace_def)
  moreover have "fst (booking_main (\<lambda>key. ''x'') sample_outside) = 0"
    by (simp add: booking_main_def booking_run_def booking_Load_def mustEnv_def optEnv_def booking_NewPool_def runMigrations_def
        sample_outside_def exit_code_def)
  ultimately show ?thesis
    using processes_end_in_order [of "\<lambda>key. ''x''" sample_outside "NewConsumer [''x''] ''x'' ''x''"] by blast
qed

end
