(* ===== verification/Spec2Isabelle.thy ===== *)
theory Spec2Isabelle
  imports BookingProperties TypingProperties NotifProperties Frames Lifecycle
begin

text \<open>
  A verification of the meeting room booking system: two Go services that share a Kafka topic.
  The booking service keeps rooms, schedules, slots, bookings and users in PostgreSQL, answers
  HTTP requests with JWT authorisation, and records each change of a booking in an outbox
  table, which a relay sends to the topic.  The notification service consumes the topic, keeps
  one notification per event, and shows new ones to its users over event streams.

  \<^bold>\<open>Foundations.\<close>  \<open>Prelude\<close>: errors as a tree of wrapped sentinels (\<open>fmt.Errorf\<close> with \<open>%w\<close>,
  \<open>errors.Is\<close>), the world that operations pass on (clock, source of identifiers, script of
  database faults, counters, and a store of any type), and the ways a statement runs in it:
  it may fail without effect, or succeed and lose its answer.  \<open>GoStrings\<close> and \<open>GoTime\<close>: the parts
  of \<open>strings\<close>, \<open>strconv\<close> and \<open>time\<close> that the code uses; a time is the number of nanoseconds
  since 1970, dates are proleptic Gregorian.  \<open>Http\<close>: requests, answers, JSON values and their
  decoding into structs, handlers as functions to an answer or a panic (\<open>None\<close>).  \<open>JsonText\<close>: the
  bytes of JSON that \<open>encoding/json\<close> writes for strings and objects, and a reader for them.
  \<open>MetricDefs\<close>: \<open>internal/metrics\<close> of both services and its registration.

  \<^bold>\<open>Booking service\<close> (\<open>src/booking-service\<close>).  \<open>BookingModel\<close>: \<open>internal/model\<close> and the tables of the
  migrations with their constraints (\<open>db_ok\<close>).  \<open>BookingRepo\<close>, \<open>CatalogRepo\<close>, \<open>SlotRepo\<close>,
  \<open>OutboxRepo\<close>: \<open>internal/repo\<close>, one function per SQL statement and per method.  \<open>Relay\<close> and
  \<open>RelayLoop\<close>: \<open>internal/outbox/relay.go\<close>.  \<open>BookingStore\<close>: the states that any calls of the
  repositories reach (\<open>service_step\<close>, \<open>store_step\<close>, \<open>reachable\<close>) and their invariant; \<open>Publishing\<close>: the
  same together with the topic (\<open>publishing\<close>); \<open>Relays\<close>: the transactions of any number of relays,
  interleaved (\<open>relays_step\<close>).  \<open>Calendar\<close>: the abstract specification of the
  store, a map from the half hours of a room to who holds them (\<open>calendar_step\<close>), the calendar of a
  database (\<open>calendar_of\<close>), and the one that the rows of the outbox describe (\<open>ledger\<close>).  \<open>SlotService\<close>,
  \<open>BookingService\<close>, \<open>AuthService\<close>, \<open>CatalogService\<close>: \<open>internal/service\<close>, \<open>internal/pkg/jwt\<close> and the
  conference client.  \<open>BookingHandlers\<close>, \<open>BookingRouter\<close>: \<open>internal/http\<close>; \<open>BookingApi\<close> and
  \<open>BookingAccess\<close>: what the routes answer and what a request may change; \<open>BookingEndpoints\<close>: what the
  requests that create and cancel bookings do, as tables of answers (\<open>create_endpoint\<close>,
  \<open>cancel_endpoint\<close>) over the token, the body and the state.  \<open>Typing\<close>: the types of the
  rows beyond the constraints of the schema, the calls with validated arguments that keep them
  (\<open>typed_call\<close>), and that requests make no others.

  \<^bold>\<open>Notification service\<close> (\<open>src/notification-service\<close>, \<open>src/shared/events\<close>).  \<open>NotifModel\<close>:
  \<open>internal/model\<close>, the table, and the state in memory.  \<open>NotifRepo\<close>: \<open>internal/repo\<close>.  \<open>Hub\<close>:
  \<open>internal/hub/hub.go\<close>; \<open>HubRuns\<close>: its operations interleaved.  \<open>TokenStore\<close>:
  \<open>internal/hub/token.go\<close>.  \<open>Events\<close>: the message and its decoding.  \<open>NotifService\<close>:
  \<open>internal/service\<close>.  \<open>Consumer\<close>: \<open>internal/kafka\<close> and the goroutine that runs it again.
  \<open>Stream\<close>: \<open>internal/http/handlers/sse.go\<close> in terms of frames; \<open>Frames\<close>: the bytes of the frames and
  the client that reads them.  \<open>NotifHttp\<close>: the rest of \<open>internal/http\<close> and
  \<open>internal/pkg/jwt\<close>; \<open>NotifApi\<close>: what a request may change.  \<open>Delivery\<close>: what any lives of the
  consumer leave in the table.

  \<^bold>\<open>Both.\<close>  \<open>Pipeline\<close>: from a row of the outbox to a notification.  \<open>Settings\<close>: \<open>internal/config\<close>.
  \<open>Lifecycle\<close>: \<open>internal/postgres\<close> and \<open>cmd/main.go\<close> from the initialisation of the packages to the
  exit code, as the sequence of what is opened, started with which settings, stopped and closed.
  \<open>Sample\<close> and \<open>NotifSample\<close>: concrete data and third-party functions that meet every assumption;
  \<open>BookingProperties\<close>, \<open>TypingProperties\<close> and \<open>NotifProperties\<close>, with the ends of \<open>Frames\<close>,
  \<open>Relays\<close> and \<open>Lifecycle\<close>: the properties.

  \<^bold>\<open>Interfaces.\<close>  Where one component relies on another there is a locale with the laws the client
  needs, interpreted on the provider's model: \<open>slot_backend\<close>, \<open>booking_backend\<close> and \<open>user_backend\<close>
  on the repositories of the booking service; \<open>notif_backend\<close> and \<open>notif_service\<close> on the
  notification repository and its service; \<open>hub_backend\<close> on the hub, in terms of mailboxes per
  user; \<open>token_backend\<close> on the token store; \<open>stream_backend\<close> on hub and tokens together.

  \<^bold>\<open>What is shown.\<close>  Bookings: no slot is ever booked twice, the outbox tells exactly what happened,
  and the requests that create and cancel are answered, and change the table, case by case as
  specified.  Seen from outside, the store is a
  calendar that each call changes by one entry at most, and the outbox is the ledger of these
  entries: replayed from the start it gives the calendar.  Rows are typed: every slot is a half
  hour of its room's schedule, so no booking is ever outside the working hours.  Slots: the generated slots are the
  half hours of the schedule, and what is offered is free.  Access: requests change and list only
  what their token allows.  Relay: under any failures every row marked as sent is in the topic, and a
  calm last pass sends everything; several relays at once send no row twice, but for attempts that
  the writer of the Kafka client repeats and batches that fail.  Delivery: whatever fails, no event
  is notified twice and every notification is true; while the database of the notification service
  answers, every booking gets its notifications through any other failure (when it does not, the
  consumer logs the message, commits it and goes on), and
  when everything answers in time the relay and the consumer get there by themselves.
  Streams: limits hold under every interleaving; an open stream shows its user's notifications
  in order as long as its channel has room for them; an ended one leaves nothing behind; tokens
  open one stream, for thirty seconds.  The bytes of a stream are one event for each frame that is
  not a ping, whatever the texts, and its data decode to the notifications sent when the texts are UTF-8.
  Processes: pool, migrator and the reader of the consumer are closed as often as they are opened,
  the pool last and after the consumer has ended; only a signal gives the exit code 0, and then
  the relay was waited for.

  \<^bold>\<open>Bounds and scripts.\<close>  What the outside decides is an argument: which statements fail and how, how
  much time passes between readings of the clock, what each round of a \<open>select\<close> finds, what other
  goroutines do in between, and how many attempts the writer of the Kafka client makes and what each
  of them leaves in the topic (\<open>write_script\<close>; it retries by itself, so a message may be there more
  than once even when the call succeeds).  The theorems hold for every script.  Loops of the code recurse over
  the script or over their data; a script that has ended is a loop that still waits.  The slot
  loop and the draining of the outbox are functions with a measure, so that they end is proved
  with their definition; the draining is bounded by its timeout as in the code.

  \<^bold>\<open>Outside the repository\<close> and therefore parameters or assumptions: the texts of UUIDs, bcrypt,
  golang-jwt, the parsing of mail addresses, the chi router's matching, the texts of errors of the
  driver, and PostgreSQL's rendering of timestamps as JSON.  Statements are atomic and a
  transaction is serial, but for the batches of the relay in \<open>Relays\<close>; \<open>ORDER BY created_at\<close> leaves the order of equal times to the database, and
  the model keeps the order of insertion.

  The topic is one partition, as \<open>docker-compose.yaml\<close> creates it.

  \<^bold>\<open>Not modelled.\<close>  The texts of the bodies of requests and answers and of the messages of the
  topic (their JSON values are; of texts, those of the streams), logging, the observations of
  histograms, what the database pool and the server do with their settings (an expired request
  or connection shows as a failed statement), the profiler behind its listener, the migrator,
  the Kafka client beyond a partition with positions and a writer that makes attempts, that the
  text columns of PostgreSQL refuse bytes that are not UTF-8 and the byte zero, JSON objects that give a key twice with
  a null or an array the second time, the RFC 3339 forms beyond the strict ones, the branch of the
  stream for a notification that cannot be marshalled, the helpers \<open>testutil\<close> of the tests, which
  start containers, generated mocks and tests.
\<close>

end
